(* ===== verification/Prelude.thy ===== *)
theory Prelude
  imports Main "HOL-Library.Word" "HOL-Library.Sublist" "HOL-Library.Multiset"
begin

text \<open>
  Shared vocabulary of the cftun development: the names of Go's fixed-width integers,
  the error values the sources pass around, the string routines of Go's standard library
  that the sources call, the semantics of a buffered Go channel, big-endian integers, and
  two interfaces that several components implement (a codec with a round trip, a
  transition system with an invariant). Go strings are byte sequences, so they are
  modelled by \<open>string\<close> (8-bit characters); a \<open>[]byte\<close> is a \<open>byte list\<close>.
\<close>

unbundle bit_operations_syntax

section \<open>Types\<close>

type_synonym byte = "8 word"
type_synonym u16 = "16 word"
type_synonym u32 = "32 word"
type_synonym u64 = "64 word"
type_synonym bytes = "byte list"

named_theorems go_defs \<open>definitions that closed evaluation unfolds\<close>
named_theorems wire_simps \<open>facts on the wire formats\<close>

text \<open>
  Error values. \<open>ErrNet t s\<close> implements \<open>net.Error\<close> with \<open>Timeout() = t\<close>; \<open>ErrIdleTimeout\<close> is
  \<open>quic.IdleTimeoutError\<close> (a \<open>net.Error\<close> that is a timeout); \<open>ErrWrap s e\<close> is \<open>fmt.Errorf("s: %w", e)\<close>.
\<close>

datatype go_error =
    ErrEOF
  | ErrCanceled
  | ErrIdleTimeout
  | ErrNet bool string
  | ErrText string
  | ErrWrap string go_error

text \<open>\<open>err.(net.Error)\<close> looks at the outermost error only; \<open>errors.As\<close> unwraps.\<close>

fun as_net_direct :: "go_error \<Rightarrow> bool option" where
  "as_net_direct (ErrNet t s) = Some t"
| "as_net_direct ErrIdleTimeout = Some True"
| "as_net_direct e = None"

fun errors_as_net :: "go_error \<Rightarrow> bool option" where
  "errors_as_net (ErrWrap s e) = errors_as_net e"
| "errors_as_net e = as_net_direct e"

fun errors_is :: "go_error \<Rightarrow> go_error \<Rightarrow> bool" where
  "errors_is (ErrWrap s e) t = (ErrWrap s e = t \<or> errors_is e t)"
| "errors_is e t = (e = t)"

text \<open>\<open>err.Error()\<close>\<close>

fun error_text :: "go_error \<Rightarrow> string" where
  "error_text ErrEOF = ''EOF''"
| "error_text ErrCanceled = ''context canceled''"
| "error_text ErrIdleTimeout = ''timeout: no recent network activity''"
| "error_text (ErrNet t s) = s"
| "error_text (ErrText s) = s"
| "error_text (ErrWrap s e) = s @ '': '' @ error_text e"

section \<open>Strings\<close>

definition digit_char :: "nat \<Rightarrow> char" where
  "digit_char d = char_of (48 + d)"

lemma digit_char_chars:
  "digit_char 0 = CHR ''0''" "digit_char (Suc 0) = CHR ''1''" "digit_char 2 = CHR ''2''" "digit_char 3 = CHR ''3''"
  "digit_char 4 = CHR ''4''" "digit_char 5 = CHR ''5''" "digit_char 6 = CHR ''6''" "digit_char 7 = CHR ''7''"
  "digit_char 8 = CHR ''8''" "digit_char 9 = CHR ''9''"
  by code_simp+

text \<open>\<open>strconv.Itoa\<close> and the verb \<open>%d\<close>, on naturals and on integers.\<close>

fun itoa :: "nat \<Rightarrow> string" where
  "itoa n = (if n < 10 then [digit_char n] else itoa (n div 10) @ [digit_char (n mod 10)])"

declare itoa.simps [simp del]

definition itoa_int :: "int \<Rightarrow> string" where
  "itoa_int i = (if i < 0 then ''-'' @ itoa (nat (- i)) else itoa (nat i))"

text \<open>\<open>strings.HasPrefix\<close>, \<open>strings.Contains\<close>, and \<open>strings.Split\<close> by one character.\<close>

fun has_prefix :: "string \<Rightarrow> string \<Rightarrow> bool" where
  "has_prefix s [] = True"
| "has_prefix [] (p # ps) = False"
| "has_prefix (c # cs) (p # ps) = (c = p \<and> has_prefix cs ps)"

fun contains_str :: "string \<Rightarrow> string \<Rightarrow> bool" where
  "contains_str [] sub = (sub = [])"
| "contains_str (c # cs) sub = (has_prefix (c # cs) sub \<or> contains_str cs sub)"

fun split_char :: "char \<Rightarrow> string \<Rightarrow> string list" where
  "split_char sep [] = [[]]"
| "split_char sep (c # cs) =
     (if c = sep then [] # split_char sep cs
      else case split_char sep cs of
             [] \<Rightarrow> [[c]]
           | s # ss \<Rightarrow> (c # s) # ss)"

definition byte_of :: "char \<Rightarrow> byte" where
  "byte_of c = of_char c"

definition string_bytes :: "string \<Rightarrow> bytes" where
  "string_bytes s = map byte_of s"

definition bytes_string :: "bytes \<Rightarrow> string" where
  "bytes_string bs = map (\<lambda>b. char_of (unat b)) bs"

lemma unat_byte_of: "unat (byte_of c) = of_char c"
proof -
  have "byte_of c = of_nat (of_char c)" by (simp add: byte_of_def of_nat_of_char)
  moreover have "(of_char c :: nat) < 256" by simp
  ultimately show ?thesis by (simp add: unat_of_nat take_bit_nat_eq_self)
qed

lemma bytes_string_bytes [simp]: "bytes_string (string_bytes s) = s"
  by (induction s) (auto simp: bytes_string_def string_bytes_def unat_byte_of)

definition has_suffix :: "string \<Rightarrow> string \<Rightarrow> bool" where
  "has_suffix s t = has_prefix (rev s) (rev t)"

lemma has_prefix_iff: "has_prefix s p \<longleftrightarrow> prefix p s"
  by (induction s p rule: has_prefix.induct) auto

lemma contains_str_iff: "contains_str s sub \<longleftrightarrow> sublist sub s"
  by (induction s) (auto simp: has_prefix_iff sublist_Cons_right)

lemma contains_char: "contains_str s [c] \<longleftrightarrow> c \<in> set s"
  by (auto simp: contains_str_iff sublist_def in_set_conv_decomp)

lemma split_char_nonempty [simp]: "split_char sep s \<noteq> []"
  by (induction s) (auto split: list.splits)

lemma split_char_hd: "hd (split_char sep s) = takeWhile (\<lambda>c. c \<noteq> sep) s"
  by (induction s) (auto split: list.splits)

lemma itoa_nonempty [simp]: "itoa n \<noteq> []"
  by (subst itoa.simps) simp

lemma of_char_digit_char: "d < 10 \<Longrightarrow> (of_char (digit_char d) :: nat) = 48 + d"
  by (simp add: digit_char_def take_bit_nat_eq_self)

lemma digit_char_inj: "a < 10 \<Longrightarrow> b < 10 \<Longrightarrow> digit_char a = digit_char b \<longleftrightarrow> a = b"
  by (metis add_left_cancel of_char_digit_char)

definition digit_val :: "char \<Rightarrow> nat" where
  "digit_val c = of_char c - 48"

definition is_digit :: "char \<Rightarrow> bool" where
  "is_digit c \<longleftrightarrow> 48 \<le> (of_char c :: nat) \<and> (of_char c :: nat) \<le> 57"

text \<open>The value a decimal string denotes: the left inverse of \<open>itoa\<close>.\<close>

definition dec_value :: "string \<Rightarrow> nat" where
  "dec_value s = foldl (\<lambda>n c. 10 * n + digit_val c) 0 s"

lemma digit_val_digit_char [simp]: "d < 10 \<Longrightarrow> digit_val (digit_char d) = d"
  by (simp add: digit_val_def of_char_digit_char)

lemma is_digit_digit_char [simp]: "d < 10 \<Longrightarrow> is_digit (digit_char d)"
  by (simp add: is_digit_def of_char_digit_char)

lemma dec_value_itoa [simp]: "dec_value (itoa n) = n"
proof (induction n rule: itoa.induct)
  case (1 n)
  show ?case
  proof (cases "n < 10")
    case True
    then show ?thesis by (subst itoa.simps) (simp add: dec_value_def)
  next
    case False
    with "1.IH" have "foldl (\<lambda>n c. 10 * n + digit_val c) 0 (itoa (n div 10)) = n div 10"
      by (simp add: dec_value_def)
    with False show ?thesis by (subst itoa.simps) (simp add: dec_value_def)
  qed
qed

lemma itoa_inj [simp]: "itoa m = itoa n \<longleftrightarrow> m = n"
  by (metis dec_value_itoa)

lemma itoa_digits: "list_all is_digit (itoa n)"
proof (induction n rule: itoa.induct)
  case (1 n)
  then show ?case by (subst itoa.simps) auto
qed

lemma itoa_no_char: "\<not> is_digit c \<Longrightarrow> c \<notin> set (itoa n)"
  using itoa_digits by (auto simp: list_all_iff)

text \<open>\<open>strconv.Atoi\<close>: digits behind an optional sign, in the range of \<open>int64\<close>.\<close>

definition Atoi :: "string \<Rightarrow> int option" where
  "Atoi s =
     (let signed = (s \<noteq> [] \<and> hd s \<in> {CHR ''+'', CHR ''-''}); t = (if signed then tl s else s);
          i = (if signed \<and> hd s = CHR ''-'' then - int (dec_value t) else int (dec_value t))
      in if t \<noteq> [] \<and> list_all is_digit t \<and> - (2 ^ 63) \<le> i \<and> i < 2 ^ 63 then Some i else None)"

lemma Atoi_itoa: "n < 2 ^ 63 \<Longrightarrow> Atoi (itoa n) = Some (int n)"
proof -
  assume n: "n < 2 ^ 63"
  have "itoa n \<noteq> []" "list_all is_digit (itoa n)" by (simp_all add: itoa_digits)
  moreover from this have "hd (itoa n) \<notin> {CHR ''+'', CHR ''-''}"
    by (cases "itoa n") (auto simp: is_digit_def)
  ultimately show ?thesis using n by (simp add: Atoi_def Let_def)
qed

text \<open>Hexadecimal digits and the value they denote.\<close>

definition hex_val :: "char \<Rightarrow> nat option" where
  "hex_val c =
     (let n = of_char c in
      if 48 \<le> n \<and> n \<le> 57 then Some (n - 48)
      else if 97 \<le> n \<and> n \<le> 102 then Some (n - 87)
      else if 65 \<le> n \<and> n \<le> 70 then Some (n - 55) else None)"

definition is_hex :: "char \<Rightarrow> bool" where
  "is_hex c \<longleftrightarrow> hex_val c \<noteq> None"

definition hex_value :: "string \<Rightarrow> nat" where
  "hex_value s = foldl (\<lambda>n c. 16 * n + the (hex_val c)) 0 s"

section \<open>Big-endian integers\<close>

text \<open>\<open>binary.BigEndian.PutUint16\<close> and \<open>binary.BigEndian.Uint16\<close>.\<close>

definition put_uint16 :: "u16 \<Rightarrow> bytes" where
  "put_uint16 w = [ucast (drop_bit 8 w), ucast w]"

definition get_uint16 :: "byte \<Rightarrow> byte \<Rightarrow> u16" where
  "get_uint16 hi lo = push_bit 8 (ucast hi) OR ucast lo"

lemma length_put_uint16 [simp, wire_simps]: "length (put_uint16 w) = 2"
  by (simp add: put_uint16_def)

lemma get_put_uint16 [simp, wire_simps]: "get_uint16 (ucast (drop_bit 8 w)) (ucast w) = w"
  unfolding get_uint16_def
  by (rule bit_word_eqI) (auto simp: bit_simps)

lemma put_get_uint16 [simp, wire_simps]: "put_uint16 (get_uint16 hi lo) = [hi, lo]"
proof -
  have "ucast (drop_bit 8 (push_bit 8 (ucast hi :: u16) OR ucast lo)) = hi"
    by (rule bit_word_eqI) (auto simp: bit_simps dest: bit_imp_le_length)
  moreover have "ucast (push_bit 8 (ucast hi :: u16) OR ucast lo) = lo"
    by (rule bit_word_eqI) (auto simp: bit_simps)
  ultimately show ?thesis by (simp add: put_uint16_def get_uint16_def)
qed

lemma put_uint16_eq_iff: "put_uint16 w = [hi, lo] \<longleftrightarrow> w = get_uint16 hi lo"
  by (metis get_put_uint16 put_get_uint16 put_uint16_def list.inject)

section \<open>Go channels\<close>

text \<open>
  A buffered channel. Sending on a closed channel panics, sending on a full one blocks;
  receiving drains the buffer first, and on an empty closed channel yields the zero value
  at once; closing twice panics.
\<close>

record 'a chan =
  ch_cap :: nat
  ch_buf :: "'a list"
  ch_closed :: bool

datatype 'a send_result = SendOk "'a chan" | SendBlock | SendPanic
datatype 'a recv_result = RecvVal 'a "'a chan" | RecvClosed | RecvBlock

definition make_chan :: "nat \<Rightarrow> 'a chan" where
  "make_chan n = \<lparr>ch_cap = n, ch_buf = [], ch_closed = False\<rparr>"

definition chan_send :: "'a \<Rightarrow> 'a chan \<Rightarrow> 'a send_result" where
  "chan_send x c =
     (if ch_closed c then SendPanic
      else if length (ch_buf c) < ch_cap c then SendOk (c\<lparr>ch_buf := ch_buf c @ [x]\<rparr>)
      else SendBlock)"

definition chan_recv :: "'a chan \<Rightarrow> 'a recv_result" where
  "chan_recv c =
     (case ch_buf c of
        x # xs \<Rightarrow> RecvVal x (c\<lparr>ch_buf := xs\<rparr>)
      | [] \<Rightarrow> (if ch_closed c then RecvClosed else RecvBlock))"

definition chan_close :: "'a chan \<Rightarrow> 'a chan option" where
  "chan_close c = (if ch_closed c then None else Some (c\<lparr>ch_closed := True\<rparr>))"

definition chan_wf :: "'a chan \<Rightarrow> bool" where
  "chan_wf c \<longleftrightarrow> length (ch_buf c) \<le> ch_cap c"

lemma chan_wf_make [simp]: "chan_wf (make_chan n)"
  by (simp add: chan_wf_def make_chan_def)

lemma chan_send_wf: "chan_wf c \<Longrightarrow> chan_send x c = SendOk c' \<Longrightarrow> chan_wf c'"
  by (auto simp: chan_send_def chan_wf_def split: if_splits)

lemma chan_recv_wf: "chan_wf c \<Longrightarrow> chan_recv c = RecvVal x c' \<Longrightarrow> chan_wf c'"
  by (auto simp: chan_recv_def chan_wf_def split: list.splits if_splits)

lemma make_chan_simps [simp]:
  "ch_cap (make_chan n) = n" "ch_buf (make_chan n) = []" "\<not> ch_closed (make_chan n)"
  by (simp_all add: make_chan_def)

lemma chan_send_Ok_iff: "chan_send x c = SendOk c' \<longleftrightarrow>
    \<not> ch_closed c \<and> length (ch_buf c) < ch_cap c \<and> c' = c\<lparr>ch_buf := ch_buf c @ [x]\<rparr>"
  by (auto simp: chan_send_def)

lemma chan_send_Block_iff: "chan_send x c = SendBlock \<longleftrightarrow>
    \<not> ch_closed c \<and> ch_cap c \<le> length (ch_buf c)"
  by (auto simp: chan_send_def)

lemma chan_recv_Val_iff: "chan_recv c = RecvVal x c' \<longleftrightarrow>
    (\<exists>xs. ch_buf c = x # xs \<and> c' = c\<lparr>ch_buf := xs\<rparr>)"
  by (auto simp: chan_recv_def split: list.splits)

lemma chan_recv_Block_iff: "chan_recv c = RecvBlock \<longleftrightarrow> ch_buf c = [] \<and> \<not> ch_closed c"
  by (auto simp: chan_recv_def split: list.splits)

lemma chan_recv_Closed_iff: "chan_recv c = RecvClosed \<longleftrightarrow> ch_buf c = [] \<and> ch_closed c"
  by (auto simp: chan_recv_def split: list.splits)

lemmas chan_iffs = chan_send_Ok_iff chan_send_Block_iff chan_recv_Val_iff chan_recv_Block_iff
  chan_recv_Closed_iff

text \<open>Taking one element out of a list by its position, on multisets: pools and queues of goroutines use it.\<close>

lemma mset_remove_nth:
  assumes "i < length p"
  shows "mset p = mset (take i p @ drop (Suc i) p) + {#p ! i#}"
proof -
  have "mset p = mset (take i p @ p ! i # drop (Suc i) p)" by (simp add: assms id_take_nth_drop [symmetric])
  then show ?thesis by simp
qed

section \<open>Two shared interfaces\<close>

text \<open>
  A codec: what \<open>enc\<close> writes for a valid value, \<open>dec\<close> reads back. Encoding is then
  injective on valid values.
\<close>

locale codec =
  fixes enc :: "'a \<Rightarrow> 'b"
    and dec :: "'b \<Rightarrow> 'a option"
    and valid :: "'a \<Rightarrow> bool"
  assumes dec_enc: "valid x \<Longrightarrow> dec (enc x) = Some x"
begin

lemma enc_inj: "valid x \<Longrightarrow> valid y \<Longrightarrow> enc x = enc y \<Longrightarrow> x = y"
  by (metis dec_enc option.inject)

lemma enc_inj_on: "inj_on enc (Collect valid)"
  by (rule inj_onI) (auto intro: enc_inj)

end

text \<open>
  A transition system with an invariant. The steps come from the component; what every
  reachable state satisfies is proved once here.
\<close>

locale invariant_system =
  fixes start :: "'s \<Rightarrow> bool"
    and step :: "'s \<Rightarrow> 's \<Rightarrow> bool"
    and inv :: "'s \<Rightarrow> bool"
  assumes start_inv: "start s \<Longrightarrow> inv s"
    and step_inv: "inv s \<Longrightarrow> step s t \<Longrightarrow> inv t"
begin

lemma steps_inv: "step\<^sup>*\<^sup>* s t \<Longrightarrow> inv s \<Longrightarrow> inv t"
  by (induction rule: rtranclp_induct) (auto intro: step_inv)

lemma reachable_inv: "start s \<Longrightarrow> step\<^sup>*\<^sup>* s t \<Longrightarrow> inv t"
  by (blast intro: start_inv steps_inv)

end

end
