(* ===== verification/Netip.thy ===== *)
theory Netip
  imports Prelude
begin

text \<open>
  The parts of Go's \<open>net\<close> and \<open>net/netip\<close> that cftun's wire format and dial strings rest on: \<open>netip.Addr\<close>
  (the zero value, an IPv4 address, an IPv6 address as its eight 16-bit groups with a zone), \<open>AsSlice\<close>,
  \<open>AddrFromSlice\<close>, the printers of \<open>netip.Addr\<close>, \<open>netip.AddrPort\<close> and \<open>net.IP\<close>, and \<open>net.JoinHostPort\<close>.
\<close>

section \<open>Addresses\<close>

datatype addr =
    AddrZero
  | Addr4 byte byte byte byte
  | Addr6 u16 u16 u16 u16 u16 u16 u16 u16 string

fun addr_is4 :: "addr \<Rightarrow> bool" where
  "addr_is4 (Addr4 a b c d) = True"
| "addr_is4 x = False"

text \<open>\<open>Is6\<close> is true for every 128-bit address, the IPv4-mapped ones included.\<close>

fun addr_is6 :: "addr \<Rightarrow> bool" where
  "addr_is6 (Addr6 a b c d e f g h z) = True"
| "addr_is6 x = False"

fun addr_is_valid :: "addr \<Rightarrow> bool" where
  "addr_is_valid AddrZero = False"
| "addr_is_valid x = True"

fun addr_is4in6 :: "addr \<Rightarrow> bool" where
  "addr_is4in6 (Addr6 a b c d e f g h z) =
     (a = 0 \<and> b = 0 \<and> c = 0 \<and> d = 0 \<and> e = 0 \<and> f = 0xffff)"
| "addr_is4in6 x = False"

fun addr_zone :: "addr \<Rightarrow> string" where
  "addr_zone (Addr6 a b c d e f g h z) = z"
| "addr_zone x = []"

fun as_slice :: "addr \<Rightarrow> bytes" where
  "as_slice AddrZero = []"
| "as_slice (Addr4 a b c d) = [a, b, c, d]"
| "as_slice (Addr6 a b c d e f g h z) = concat (map put_uint16 [a, b, c, d, e, f, g, h])"

text \<open>\<open>netip.AddrFromSlice\<close>: four or sixteen bytes, otherwise the zero address and false.\<close>

fun addr_from_slice :: "bytes \<Rightarrow> addr \<times> bool" where
  "addr_from_slice [a, b, c, d] = (Addr4 a b c d, True)"
| "addr_from_slice [a0, a1, b0, b1, c0, c1, d0, d1, e0, e1, f0, f1, g0, g1, h0, h1] =
     (Addr6 (get_uint16 a0 a1) (get_uint16 b0 b1) (get_uint16 c0 c1) (get_uint16 d0 d1)
            (get_uint16 e0 e1) (get_uint16 f0 f1) (get_uint16 g0 g1) (get_uint16 h0 h1) [], True)"
| "addr_from_slice bs = (AddrZero, False)"

lemma as_slice_length [wire_simps]:
  "length (as_slice x) = (if addr_is4 x then 4 else if addr_is6 x then 16 else 0)"
  by (cases x) (auto simp: put_uint16_def)

lemma addr_from_as_slice [wire_simps]:
  "addr_is_valid x \<Longrightarrow> addr_zone x = [] \<Longrightarrow> addr_from_slice (as_slice x) = (x, True)"
  by (cases x) (auto simp: put_uint16_def)

lemma addr_from_slice_as_slice:
  "addr_from_slice bs = (x, True) \<Longrightarrow> as_slice x = bs \<and> addr_is_valid x \<and> addr_zone x = []"
  by (cases bs rule: addr_from_slice.cases) auto

lemma addr_from_slice_ok_iff: "snd (addr_from_slice bs) \<longleftrightarrow> length bs = 4 \<or> length bs = 16"
proof -
  have "length bs = 4 \<Longrightarrow> snd (addr_from_slice bs)"
    by (auto simp: numeral_eq_Suc length_Suc_conv)
  moreover have "length bs = 16 \<Longrightarrow> snd (addr_from_slice bs)"
    by (auto simp: numeral_eq_Suc length_Suc_conv)
  moreover have "snd (addr_from_slice bs) \<Longrightarrow> length bs = 4 \<or> length bs = 16"
    by (cases bs rule: addr_from_slice.cases) auto
  ultimately show ?thesis by blast
qed

section \<open>Printing\<close>

definition hex_char :: "u16 \<Rightarrow> char" where
  "hex_char d = (if d < 10 then char_of (48 + unat d) else char_of (87 + unat d))"

text \<open>One group in lower-case hexadecimal without leading zeros.\<close>

definition append_hex :: "u16 \<Rightarrow> string" where
  "append_hex x =
     (if x \<ge> 0x1000 then [hex_char (drop_bit 12 x)] else []) @
     (if x \<ge> 0x100 then [hex_char (drop_bit 8 x AND 0xf)] else []) @
     (if x \<ge> 0x10 then [hex_char (drop_bit 4 x AND 0xf)] else []) @
     [hex_char (x AND 0xf)]"

definition string4 :: "byte \<Rightarrow> byte \<Rightarrow> byte \<Rightarrow> byte \<Rightarrow> string" where
  "string4 a b c d =
     itoa (unat a) @ ''.'' @ itoa (unat b) @ ''.'' @ itoa (unat c) @ ''.'' @ itoa (unat d)"

text \<open>
  The longest run of at least two zero groups, the leftmost among equals: the pair of the
  run's start and end, \<open>(255, 255)\<close> when there is none.
\<close>

definition zero_run :: "u16 list \<Rightarrow> nat \<Rightarrow> nat" where
  "zero_run gs i = length (takeWhile (\<lambda>g. g = 0) (drop i gs))"

definition zero_span :: "u16 list \<Rightarrow> nat \<times> nat" where
  "zero_span gs =
     foldl (\<lambda>(s, e) i. let l = zero_run gs i
                       in if l \<ge> 2 \<and> l > e - s then (i, i + l) else (s, e))
       (255, 255) [0..<8]"

text \<open>
  The printing loop. At the start of the elided run it writes \<open>::\<close> and jumps to the run's
  end; the group there is written right after it.
\<close>

function string6_loop :: "u16 list \<Rightarrow> nat \<Rightarrow> nat \<Rightarrow> nat \<Rightarrow> string" where
  "string6_loop gs zs ze i =
     (if i \<ge> 8 then []
      else if i = zs \<and> zs < ze then
        ''::'' @ (if ze \<ge> 8 then [] else append_hex (gs ! ze) @ string6_loop gs zs ze (ze + 1))
      else (if i > 0 then '':'' else []) @ append_hex (gs ! i) @ string6_loop gs zs ze (i + 1))"
  by pat_completeness auto
termination
  by (relation "measure (\<lambda>(gs, zs, ze, i). 8 - i)") auto

declare string6_loop.simps [simp del]

definition string6 :: "u16 list \<Rightarrow> string" where
  "string6 gs = (case zero_span gs of (zs, ze) \<Rightarrow> string6_loop gs zs ze 0)"

definition low_byte :: "u16 \<Rightarrow> byte" where "low_byte w = ucast w"
definition high_byte :: "u16 \<Rightarrow> byte" where "high_byte w = ucast (drop_bit 8 w)"

fun addr_string :: "addr \<Rightarrow> string" where
  "addr_string AddrZero = ''invalid IP''"
| "addr_string (Addr4 a b c d) = string4 a b c d"
| "addr_string (Addr6 a b c d e f g h z) =
     (if addr_is4in6 (Addr6 a b c d e f g h z)
      then ''::ffff:'' @ string4 (high_byte g) (low_byte g) (high_byte h) (low_byte h)
      else string6 [a, b, c, d, e, f, g, h]) @
     (if z = [] then [] else ''%'' @ z)"

text \<open>\<open>netip.AddrPort.String\<close>\<close>

definition addr_port_string :: "addr \<Rightarrow> u16 \<Rightarrow> string" where
  "addr_port_string x p =
     (if x = AddrZero then ''invalid AddrPort''
      else if addr_is4 x then addr_string x @ '':'' @ itoa (unat p)
      else ''['' @ addr_string x @ '']:'' @ itoa (unat p))"

text \<open>
  \<open>net.IP\<close> is a byte slice. \<open>To4\<close> recognises a 4-byte slice and the IPv4-mapped 16-byte
  form; \<open>String\<close> prints both in dotted form.
\<close>

definition ip_to4 :: "bytes \<Rightarrow> bytes option" where
  "ip_to4 ip =
     (if length ip = 4 then Some ip
      else if length ip = 16 \<and> take 10 ip = replicate 10 0 \<and> ip ! 10 = 0xff \<and> ip ! 11 = 0xff
           then Some (drop 12 ip)
      else None)"

definition hex_byte_string :: "bytes \<Rightarrow> string" where
  "hex_byte_string bs =
     concat (map (\<lambda>b. [hex_char (ucast (drop_bit 4 b)), hex_char (ucast (b AND 0xf))]) bs)"

definition ip_string :: "bytes \<Rightarrow> string" where
  "ip_string ip =
     (if ip = [] then ''<nil>''
      else if length ip \<noteq> 4 \<and> length ip \<noteq> 16 then ''?'' @ hex_byte_string ip
      else case ip_to4 ip of
             Some p4 \<Rightarrow> addr_string (fst (addr_from_slice p4))
           | None \<Rightarrow> addr_string (fst (addr_from_slice ip)))"

text \<open>\<open>net.JoinHostPort\<close>: a host with a colon or a percent sign is put in brackets.\<close>

definition join_host_port :: "string \<Rightarrow> string \<Rightarrow> string" where
  "join_host_port host port =
     (if CHR '':'' \<in> set host \<or> CHR ''%'' \<in> set host
      then ''['' @ host @ '']:'' @ port else host @ '':'' @ port)"

lemma put_uint16_zero_iff: "ucast (drop_bit 8 w) = (0::byte) \<and> ucast w = (0::byte) \<longleftrightarrow> w = (0::u16)"
  using put_uint16_eq_iff [of w 0 0] by (simp add: put_uint16_def get_uint16_def)

lemma put_uint16_ffff_iff:
  "ucast (drop_bit 8 w) = (0xff::byte) \<and> ucast w = (0xff::byte) \<longleftrightarrow> w = (0xffff::u16)"
  using put_uint16_eq_iff [of w "0xff" "0xff"] by (simp add: put_uint16_def get_uint16_def)

lemma as_slice_mapped_iff:
  assumes "addr_is6 x"
  shows "ip_to4 (as_slice x) = None \<longleftrightarrow> \<not> addr_is4in6 x"
proof -
  from assms obtain a b c d e f g h zo where x: "x = Addr6 a b c d e f g h zo"
    by (cases x) auto
  show ?thesis
    unfolding x addr_is4in6.simps
    by (subst (1 2 3 4 5) put_uint16_zero_iff [symmetric], subst put_uint16_ffff_iff [symmetric])
      (simp add: ip_to4_def put_uint16_def numeral_eq_Suc)
qed

end
