(* ===== verification/Packet.thy ===== *)
theory Packet
  imports Netip
begin

text \<open>
  \<open>src/server/cfd/packet.go\<close>: the first message of a pooled connection carries the
  destination in front of the payload (IP version, protocol, address, port). \<open>Decode\<close>
  parses it; \<open>protocol\<close> and \<open>address\<close> give the strings that are dialled.
\<close>

section \<open>Model\<close>

record packet =
  pkt_IPVersion :: byte
  pkt_Protocol :: byte
  pkt_DestIP :: bytes
  pkt_DestPort :: u16
  pkt_Payload :: bytes

datatype decode_error =
    DataTooShort
  | InvalidIPv4Length
  | InvalidIPv6Length
  | UnsupportedIPVersion byte
  | MissingPortFields

definition protocol :: "packet \<Rightarrow> string" where
  "protocol p =
     (if pkt_Protocol p = 1 then ''icmp''
      else if pkt_Protocol p = 6 then ''tcp''
      else if pkt_Protocol p = 17 then ''udp''
      else [])"

definition address :: "packet \<Rightarrow> string" where
  "address p =
     (if pkt_IPVersion p = 4 then ip_string (pkt_DestIP p) @ '':'' @ itoa (unat (pkt_DestPort p))
      else ''['' @ ip_string (pkt_DestIP p) @ '']:'' @ itoa (unat (pkt_DestPort p)))"

text \<open>
  The part of \<open>Decode\<close> after the address was sliced out: \<open>offset\<close> points behind it. The
  length test asks for four bytes there although the port takes two.
\<close>

definition decode_port :: "byte \<Rightarrow> byte \<Rightarrow> bytes \<Rightarrow> bytes \<Rightarrow> nat \<Rightarrow> decode_error + packet" where
  "decode_port ver pr ip data offset =
     (if length data < offset + 4 then Inl MissingPortFields
      else Inr \<lparr>pkt_IPVersion = ver, pkt_Protocol = pr, pkt_DestIP = ip,
                pkt_DestPort = get_uint16 (data ! offset) (data ! (offset + 1)),
                pkt_Payload = drop (offset + 2) data\<rparr>)"

definition Decode :: "bytes \<Rightarrow> decode_error + packet" where
  "Decode data =
     (if length data < 2 then Inl DataTooShort
      else
        let ver = data ! 0; pr = data ! 1; offset = 2 in
        if ver = 4 then
          (if length data < offset + 4 + 2 then Inl InvalidIPv4Length
           else decode_port ver pr (take 4 (drop offset data)) data (offset + 4))
        else if ver = 6 then
          (if length data < offset + 16 + 2 then Inl InvalidIPv6Length
           else decode_port ver pr (take 16 (drop offset data)) data (offset + 16))
        else Inl (UnsupportedIPVersion ver))"

text \<open>The layout \<open>Decode\<close> reads, as a printer: the specification of the wire format.\<close>

definition encode_packet :: "packet \<Rightarrow> bytes" where
  "encode_packet p =
     [pkt_IPVersion p, pkt_Protocol p] @ pkt_DestIP p @ put_uint16 (pkt_DestPort p) @ pkt_Payload p"

definition ip_length :: "byte \<Rightarrow> nat" where
  "ip_length v = (if v = 4 then 4 else 16)"

definition packet_wf :: "packet \<Rightarrow> bool" where
  "packet_wf p \<longleftrightarrow>
     (pkt_IPVersion p = 4 \<or> pkt_IPVersion p = 6) \<and>
     length (pkt_DestIP p) = ip_length (pkt_IPVersion p) \<and>
     2 \<le> length (pkt_Payload p)"

section \<open>Parsing inverts printing\<close>

lemma take_drop_nth2: "offset + 2 \<le> length data \<Longrightarrow>
    drop offset data = data ! offset # data ! (offset + 1) # drop (offset + 2) data"
  by (metis Cons_nth_drop_Suc Suc_le_lessD add.commute add_2_eq_Suc' add_lessD1 plus_1_eq_Suc
      Suc_lessD)

lemma decode_port_slices:
  assumes "decode_port ver pr ip data offset = Inr p"
  shows "drop offset data = put_uint16 (pkt_DestPort p) @ pkt_Payload p"
    and "pkt_IPVersion p = ver" "pkt_Protocol p = pr" "pkt_DestIP p = ip"
    and "2 \<le> length (pkt_Payload p)"
  using assms by (auto simp: decode_port_def take_drop_nth2 [of offset data] split: if_splits)

lemma decode_append:
  assumes "length ip = 4 \<and> ver = 4 \<or> length ip = 16 \<and> ver = 6"
  shows "Decode ([ver, pr] @ ip @ put_uint16 port @ pl) =
    (if 2 \<le> length pl
     then Inr \<lparr>pkt_IPVersion = ver, pkt_Protocol = pr, pkt_DestIP = ip, pkt_DestPort = port,
               pkt_Payload = pl\<rparr>
     else Inl MissingPortFields)"
  using assms
  by (elim disjE conjE)
    (simp_all add: Decode_def decode_port_def put_uint16_def nth_append nth_Cons' Let_def)

lemma packet_wf_cases:
  assumes "packet_wf p"
  shows "length (pkt_DestIP p) = 4 \<and> pkt_IPVersion p = 4 \<or>
    length (pkt_DestIP p) = 16 \<and> pkt_IPVersion p = 6"
  using assms by (auto simp: packet_wf_def ip_length_def)

lemma decode_encode_packet: "packet_wf p \<Longrightarrow> Decode (encode_packet p) = Inr p"
  using decode_append [OF packet_wf_cases, of p "pkt_Protocol p" "pkt_DestPort p" "pkt_Payload p"]
  by (simp add: encode_packet_def packet_wf_def)

lemma decode_wf:
  assumes "Decode data = Inr p"
  shows "packet_wf p \<and> encode_packet p = data"
proof -
  have pre: "data = data ! 0 # data ! 1 # take k (drop 2 data) @ drop (2 + k) data"
    if "2 + k \<le> length data" for k
    using that take_drop_nth2 [of 0 data] append_take_drop_id [of k "drop 2 data"]
    by (simp add: add.commute numeral_2_eq_2)
  from assms consider
      (v4) "data ! 0 = 4" "8 \<le> length data"
        "decode_port 4 (data ! 1) (take 4 (drop 2 data)) data 6 = Inr p"
    | (v6) "data ! 0 = 6" "20 \<le> length data"
        "decode_port 6 (data ! 1) (take 16 (drop 2 data)) data 18 = Inr p"
    by (auto simp: Decode_def Let_def split: if_splits)
  then show ?thesis
  proof cases
    case v4
    with decode_port_slices [OF v4(3)] pre [of 4] show ?thesis
      by (simp add: packet_wf_def ip_length_def encode_packet_def)
  next
    case v6
    with decode_port_slices [OF v6(3)] pre [of 16] show ?thesis
      by (simp add: packet_wf_def ip_length_def encode_packet_def)
  qed
qed

definition decode_ok :: "bytes \<Rightarrow> packet option" where
  "decode_ok data = (case Decode data of Inl e \<Rightarrow> None | Inr p \<Rightarrow> Some p)"

interpretation packet_codec: codec encode_packet decode_ok packet_wf
  by unfold_locales (simp add: decode_ok_def decode_encode_packet)

lemma address_nonempty [simp]: "address p \<noteq> []"
  by (simp add: address_def)

lemma address_bracket_iff:
  assumes "packet_wf p"
  shows "hd (address p) = CHR ''['' \<longleftrightarrow> pkt_IPVersion p = 6"
proof (cases "pkt_IPVersion p = 4")
  case True
  with assms obtain a b c d where "pkt_DestIP p = [a, b, c, d]"
    by (auto simp: packet_wf_def ip_length_def numeral_eq_Suc length_Suc_conv)
  moreover have "hd (itoa n) \<noteq> CHR ''[''" for n
    using itoa_digits [of n] by (cases "itoa n") (auto simp: is_digit_def)
  ultimately show ?thesis
    using True by (auto simp: address_def ip_string_def ip_to4_def string4_def)
next
  case False
  with assms show ?thesis by (simp add: address_def packet_wf_def)
qed

section \<open>Properties\<close>

text \<open>
  C6. The wire format, exactly: \<open>Decode\<close> accepts a message if and only if it is the layout of a packet
  with IP version 4 or 6, an address of that version's length and at least two bytes of payload,
  and it returns that packet; so parsing and printing are inverse to each other.
\<close>

theorem packet_format: "Decode data = Inr p \<longleftrightarrow> packet_wf p \<and> encode_packet p = data"
  using decode_wf decode_encode_packet by blast

text \<open>
  Every message that is refused is refused for its first defect: fewer than two bytes, an unknown
  version, too short for the version's address and the port, or no room behind the port.
\<close>

theorem decode_errors:
  "Decode data =
     (if length data < 2 then Inl DataTooShort
      else if data ! 0 \<noteq> 4 \<and> data ! 0 \<noteq> 6 then Inl (UnsupportedIPVersion (data ! 0))
      else if length data < ip_length (data ! 0) + 4
        then Inl (if data ! 0 = 4 then InvalidIPv4Length else InvalidIPv6Length)
      else if length data < ip_length (data ! 0) + 6 then Inl MissingPortFields
      else Inr (the (decode_ok data)))"
  by (auto simp: Decode_def decode_port_def ip_length_def decode_ok_def Let_def)

end
