(* ===== verification/NetConn.thy ===== *)
theory NetConn
  imports Prelude
begin

text \<open>
  The \<open>net.Conn\<close> interface and the copy loops over it. An \<open>io.Reader\<close> returns bytes and
  possibly an error, or blocks; an \<open>io.Writer\<close> returns how much it took and possibly an
  error. What a peer outside the program does is a script held in the connection: the
  results its next reads and writes will have, in order; a read beyond the script blocks.

  \<open>os_conn\<close> is a connection of the operating system (a TCP or UDP socket). The locales
  \<open>conn_reader\<close> and \<open>conn_writer\<close> state what the loops rely on, and the loops of the
  program are proved correct against them once.
\<close>

section \<open>Results\<close>

datatype read_result = ReadRet bytes "go_error option" | ReadBlock

type_synonym write_result = "nat \<times> go_error option"

type_synonym 'c reader = "nat \<Rightarrow> 'c \<Rightarrow> read_result \<times> 'c"
type_synonym 'c writer = "bytes \<Rightarrow> 'c \<Rightarrow> write_result \<times> 'c"

section \<open>A connection of the operating system\<close>

datatype read_event = InData bytes | InErr go_error
datatype write_event = OutAll | OutShort nat | OutErr go_error

record os_conn =
  oc_in :: "read_event list"
  oc_wr :: "write_event list"
  oc_out :: bytes
  oc_closed :: bool

definition os_open :: "read_event list \<Rightarrow> write_event list \<Rightarrow> os_conn" where
  "os_open ins wrs = \<lparr>oc_in = ins, oc_wr = wrs, oc_out = [], oc_closed = False\<rparr>"

definition err_closed :: go_error where
  "err_closed = ErrText ''use of closed network connection''"

text \<open>
  A stream socket hands out at most as many bytes as the buffer holds and keeps the rest. The sockets of
  package \<open>net\<close> report the end of the stream, like every error, in a read of its own without data; a QUIC
  stream may not, and has its own read in theory \<open>QuicStream\<close>.
\<close>

definition os_read :: "os_conn reader" where
  "os_read n c =
     (case oc_in c of
        [] \<Rightarrow> (ReadBlock, c)
      | InErr e # es \<Rightarrow> (ReadRet [] (Some e), c\<lparr>oc_in := es\<rparr>)
      | InData d # es \<Rightarrow>
          (ReadRet (take n d) None,
           c\<lparr>oc_in := (if length d \<le> n then es else InData (drop n d) # es)\<rparr>))"

definition os_write :: "os_conn writer" where
  "os_write p c =
     (case oc_wr c of
        [] \<Rightarrow> ((length p, None), c\<lparr>oc_out := oc_out c @ p\<rparr>)
      | OutAll # ws \<Rightarrow> ((length p, None), c\<lparr>oc_out := oc_out c @ p, oc_wr := ws\<rparr>)
      | OutShort k # ws \<Rightarrow>
          ((min k (length p), None), c\<lparr>oc_out := oc_out c @ take k p, oc_wr := ws\<rparr>)
      | OutErr e # ws \<Rightarrow> ((0, Some e), c\<lparr>oc_wr := ws\<rparr>))"

text \<open>A UDP socket hands out one datagram per read and cuts it at the buffer's end.\<close>

definition udp_read :: "os_conn reader" where
  "udp_read n c =
     (case oc_in c of
        InData d # es \<Rightarrow> (ReadRet (take n d) None, c\<lparr>oc_in := es\<rparr>)
      | _ \<Rightarrow> os_read n c)"

definition os_close :: "os_conn \<Rightarrow> os_conn" where
  "os_close c = c\<lparr>oc_closed := True\<rparr>"

text \<open>The bytes a reader can still get before the first error, and the script's remaining size.\<close>

fun pending_events :: "read_event list \<Rightarrow> bytes" where
  "pending_events [] = []"
| "pending_events (InErr e # es) = []"
| "pending_events (InData d # es) = d @ pending_events es"

definition os_pending :: "os_conn \<Rightarrow> bytes" where
  "os_pending c = pending_events (oc_in c)"

fun event_work :: "read_event \<Rightarrow> nat" where
  "event_work (InErr e) = 1"
| "event_work (InData d) = Suc (length d)"

definition os_work :: "os_conn \<Rightarrow> nat" where
  "os_work c = sum_list (map event_work (oc_in c))"

section \<open>The interfaces\<close>

text \<open>
  A reader: never more bytes than the buffer holds; what it returns is the next part of the
  pending bytes, none skipped; an error or a blocked read means that nothing is pending; and every
  read that returns makes progress. The last four are promised for a buffer that fits the reader
  (\<open>fits n c\<close>): any buffer for a stream, one as large as the longest message for a
  reader that hands out whole messages.
\<close>

locale conn_reader =
  fixes read_op :: "'s reader"
    and pending :: "'s \<Rightarrow> bytes"
    and work :: "'s \<Rightarrow> nat"
    and fits :: "nat \<Rightarrow> 's \<Rightarrow> bool"
  assumes read_bound: "read_op n c = (ReadRet d er, c') \<Longrightarrow> length d \<le> n"
    and read_block: "read_op n c = (ReadBlock, c') \<Longrightarrow> pending c = []"
    and read_pending: "fits n c \<Longrightarrow> read_op n c = (ReadRet d None, c') \<Longrightarrow>
      pending c = d @ pending c'"
    and read_error: "fits n c \<Longrightarrow> read_op n c = (ReadRet d (Some e), c') \<Longrightarrow>
      d = [] \<and> pending c = []"
    and read_work: "fits n c \<Longrightarrow> read_op n c = (ReadRet d er, c') \<Longrightarrow> work c' < work c"
    and read_fits: "fits n c \<Longrightarrow> read_op n c = (ReadRet d er, c') \<Longrightarrow> fits n c'"

text \<open>
  A writer appends a prefix of what it is given, and all of it when it reports no error and
  the full length. The laws hold while the connection is usable (\<open>ok\<close>), which it remains
  as long as its writes succeed; a \<open>reliable\<close> connection accepts everything.
\<close>

locale conn_writer =
  fixes write_op :: "'d writer"
    and sent :: "'d \<Rightarrow> bytes"
    and ok :: "'d \<Rightarrow> bool"
    and reliable :: "'d \<Rightarrow> bool"
  assumes write_sent:
      "ok c \<Longrightarrow> write_op p c = ((length p, None), c') \<Longrightarrow> sent c' = sent c @ p \<and> ok c'"
    and write_prefix: "ok c \<Longrightarrow> write_op p c = ((k, er), c') \<Longrightarrow> \<exists>j. sent c' = sent c @ take j p"
    and write_reliable:
      "ok c \<Longrightarrow> reliable c \<Longrightarrow> \<exists>c'. write_op p c = ((length p, None), c') \<and> reliable c'"

lemma os_read_cases:
  "(oc_in c = [] \<and> os_read n c = (ReadBlock, c)) \<or>
   (\<exists>e es. oc_in c = InErr e # es \<and> os_read n c = (ReadRet [] (Some e), c\<lparr>oc_in := es\<rparr>)) \<or>
   (\<exists>d es. oc_in c = InData d # es \<and> os_read n c = (ReadRet (take n d) None,
           c\<lparr>oc_in := (if length d \<le> n then es else InData (drop n d) # es)\<rparr>))"
  by (cases "oc_in c") (auto simp: os_read_def split: read_event.splits)

interpretation os_reader: conn_reader os_read os_pending os_work "\<lambda>n _. 0 < n"
proof unfold_locales
  fix n c d er c'
  assume r: "os_read n c = (ReadRet d er, c')"
  from r show "length d \<le> n" using os_read_cases [of c n] by auto
  assume "0 < n"
  with r show "os_work c' < os_work c"
    using os_read_cases [of c n] by (auto simp: os_work_def)
next
  fix n c d c'
  assume "0 < n" "os_read n c = (ReadRet d None, c')"
  then show "os_pending c = d @ os_pending c'"
    using os_read_cases [of c n] by (auto simp: os_pending_def)
next
  fix n c d e c'
  assume "0 < n" "os_read n c = (ReadRet d (Some e), c')"
  then show "d = [] \<and> os_pending c = []"
    using os_read_cases [of c n] by (auto simp: os_pending_def)
next
  fix n c c'
  assume "os_read n c = (ReadBlock, c')"
  then show "os_pending c = []"
    using os_read_cases [of c n] by (auto simp: os_pending_def)
qed

lemma os_write_prefix: "os_write p c = ((k, er), c') \<Longrightarrow> \<exists>j. oc_out c' = oc_out c @ take j p"
  by (auto simp: os_write_def intro: exI [of _ "length p"] exI [of _ 0]
      split: list.splits write_event.splits)

interpretation os_writer: conn_writer os_write oc_out "\<lambda>_. True" "\<lambda>c. oc_wr c = []"
proof unfold_locales
  show "oc_out c' = oc_out c @ p \<and> True" if "os_write p c = ((length p, None), c')" for p c c'
    using that by (auto simp: os_write_def min_def split: list.splits write_event.splits if_splits)
  show "\<exists>c'. os_write p c = ((length p, None), c') \<and> oc_wr c' = []" if "oc_wr c = []" for c p
    using that by (simp add: os_write_def)
qed (rule os_write_prefix)

lemma udp_read_os_read:
  "(\<And>d. InData d \<in> set (oc_in c) \<Longrightarrow> length d \<le> n) \<Longrightarrow> udp_read n c = os_read n c"
  by (auto simp: udp_read_def os_read_def split: list.splits read_event.splits)

lemma udp_read_bound: "udp_read n c = (ReadRet d er, c') \<Longrightarrow> length d \<le> n"
  by (auto simp: udp_read_def dest: os_reader.read_bound split: list.splits read_event.splits)

lemma udp_read_block: "udp_read n c = (ReadBlock, c') \<Longrightarrow> os_pending c = []"
  by (auto simp: udp_read_def dest: os_reader.read_block split: list.splits read_event.splits)

lemma os_read_closed: "os_read n c = (res, c') \<Longrightarrow> oc_closed c' = oc_closed c"
  using os_read_cases [of c n] by auto

lemma os_read_fits:
  assumes "os_read n c = (res, c')" "\<And>d. InData d \<in> set (oc_in c) \<Longrightarrow> length d \<le> n"
    "InData d \<in> set (oc_in c')"
  shows "length d \<le> n"
  using assms os_read_cases [of c n] by (auto split: if_splits)

section \<open>The copy loops\<close>

text \<open>
  How a loop stops: it ended (and with which error, if any), or its next read blocks.
\<close>

datatype loop_end = LoopEnded "go_error option" | LoopBlocked

text \<open>
  \<open>io.CopyBuffer(dst, src, buf)\<close> with a buffer of \<open>n\<close> bytes, at most \<open>fuel\<close> rounds. The result is \<open>None\<close>
  only when the fuel ran out; \<open>EOF\<close> ends the loop without an error.
\<close>

fun copy_buffer :: "'d writer \<Rightarrow> 's reader \<Rightarrow> nat \<Rightarrow> nat \<Rightarrow> 'd \<Rightarrow> 's \<Rightarrow> nat
    \<Rightarrow> (loop_end \<times> nat \<times> 'd \<times> 's) option" where
  "copy_buffer wr rd n 0 dst src w = None"
| "copy_buffer wr rd n (Suc fuel) dst src w =
     (case rd n src of
        (ReadBlock, src') \<Rightarrow> Some (LoopBlocked, w, dst, src')
      | (ReadRet d er, src') \<Rightarrow>
          (let after_read = (\<lambda>dst' w'.
                 case er of
                   None \<Rightarrow> copy_buffer wr rd n fuel dst' src' w'
                 | Some e \<Rightarrow> Some (LoopEnded (if e = ErrEOF then None else Some e), w', dst', src'))
           in if d = [] then after_read dst w
              else case wr d dst of
                     ((nw, ew), dst') \<Rightarrow>
                       (let nw' = (if length d < nw then 0 else nw);
                            ew' = (if length d < nw \<and> ew = None
                                   then Some (ErrText ''invalid write result'') else ew)
                        in case ew' of
                             Some e \<Rightarrow> Some (LoopEnded (Some e), w + nw', dst', src')
                           | None \<Rightarrow>
                               if nw' \<noteq> length d
                               then Some (LoopEnded (Some (ErrText ''short write'')), w + nw', dst', src')
                               else after_read dst' (w + nw'))))"

text \<open>
  The hand-written relay loop that the client's TCP tunnel and the server use: read into a buffer of \<open>n\<close>
  bytes, stop on a read error, write what was read, stop on a write error or a short write. \<open>stop\<close> is the
  loop's condition (\<open>t.closed\<close>, \<open>ctx.Done()\<close>), sampled before every round.
\<close>

fun relay :: "'d writer \<Rightarrow> 's reader \<Rightarrow> nat \<Rightarrow> bool list \<Rightarrow> nat \<Rightarrow> 'd \<Rightarrow> 's
    \<Rightarrow> (loop_end \<times> 'd \<times> 's) option" where
  "relay wr rd n stops 0 dst src = None"
| "relay wr rd n stops (Suc fuel) dst src =
     (if stops \<noteq> [] \<and> hd stops then Some (LoopEnded None, dst, src)
      else case rd n src of
             (ReadBlock, src') \<Rightarrow> Some (LoopBlocked, dst, src')
           | (ReadRet d (Some e), src') \<Rightarrow> Some (LoopEnded (Some e), dst, src')
           | (ReadRet d None, src') \<Rightarrow>
               (case wr d dst of
                  ((nw, Some e), dst') \<Rightarrow> Some (LoopEnded (Some e), dst', src')
                | ((nw, None), dst') \<Rightarrow>
                    if nw \<noteq> length d
                    then Some (LoopEnded (Some (ErrText ''short write'')), dst', src')
                    else relay wr rd n (tl stops) fuel dst' src'))"

text \<open>
  A reader and a writer together: what the loops guarantee. What went out is, in order, a prefix
  of what was pending; a loop that no write failed delivered all of it (up to the point where it
  was told to stop); and a loop whose fuel exceeds the reader's remaining work always stops.
\<close>

locale conn_pair =
  conn_reader rd pending work fits + conn_writer wr sent ok reliable
  for rd :: "'s reader" and pending :: "'s \<Rightarrow> bytes" and work :: "'s \<Rightarrow> nat"
    and fits :: "nat \<Rightarrow> 's \<Rightarrow> bool"
    and wr :: "'d writer" and sent :: "'d \<Rightarrow> bytes" and ok :: "'d \<Rightarrow> bool"
    and reliable :: "'d \<Rightarrow> bool"
begin

lemma relay_total: "fits n src \<Longrightarrow> work src < fuel \<Longrightarrow> \<exists>r. relay wr rd n stops fuel dst src = Some r"
proof (induction fuel arbitrary: stops dst src)
  case (Suc fuel)
  show ?case
  proof (cases "rd n src")
    case (Pair r src')
    show ?thesis
    proof (cases r)
      case (ReadRet d er)
      with read_work [OF Suc.prems(1) Pair [unfolded ReadRet]] Suc.prems(2)
      have "work src' < fuel" by simp
      then have "\<exists>r. relay wr rd n st fuel d1 src' = Some r" for st d1
        by (rule Suc.IH [OF read_fits [OF Suc.prems(1) Pair [unfolded ReadRet]]])
      with Pair ReadRet show ?thesis by (simp split: option.split prod.split)
    qed (use Pair in simp)
  qed
qed simp

lemma relay_prefix:
  assumes "fits n src" and "relay wr rd n stops fuel dst src = Some (r, dst', src')" and "ok dst"
  shows "\<exists>d rest. sent dst' = sent dst @ d \<and> pending src = d @ rest"
  using assms
proof (induction fuel arbitrary: stops dst src)
  case (Suc fuel)
  show ?case
  proof (cases "\<exists>d s. rd n src = (ReadRet d None, s) \<and> \<not> (stops \<noteq> [] \<and> hd stops)")
    case True
    then obtain d s where rd: "rd n src = (ReadRet d None, s)"
      and ns: "\<not> (stops \<noteq> [] \<and> hd stops)" by blast
    obtain k er dst1 where w: "wr d dst = ((k, er), dst1)" by (metis prod.exhaust)
    note p = read_pending [OF Suc.prems(1) rd]
    show ?thesis
    proof (cases "er = None \<and> k = length d")
      case True
      with Suc.prems rd ns w have "relay wr rd n (tl stops) fuel dst1 s = Some (r, dst', src')"
        by simp
      moreover from True w have "sent dst1 = sent dst @ d" and "ok dst1"
        using write_sent [OF Suc.prems(3), of d dst1] by simp_all
      ultimately show ?thesis
        using Suc.IH [OF read_fits [OF Suc.prems(1) rd]] p by fastforce
    next
      case False
      with Suc.prems rd ns w have "dst' = dst1" by (auto split: option.splits)
      with write_prefix [OF Suc.prems(3) w] p show ?thesis
        by (metis append.assoc append_take_drop_id)
    qed
  next
    case False
    with Suc.prems have "dst' = dst"
      by (auto split: if_splits prod.splits read_result.splits option.splits)
    then show ?thesis by simp
  qed
qed simp

lemma relay_complete:
  assumes "fits n src" and "relay wr rd n stops fuel dst src = Some (r, dst', src')"
    and "ok dst" and "reliable dst"
  shows "\<exists>d. sent dst' = sent dst @ d \<and>
    pending src = d @ (if r = LoopEnded None then pending src' else [])"
  using assms
proof (induction fuel arbitrary: stops dst src)
  case (Suc fuel)
  show ?case
  proof (cases "stops \<noteq> [] \<and> hd stops")
    case False
    obtain res s where rd: "rd n src = (res, s)" by fastforce
    show ?thesis
    proof (cases res)
      case (ReadRet d er)
      show ?thesis
      proof (cases er)
        case None
        note f = read_fits [OF Suc.prems(1) rd [unfolded ReadRet None]]
        obtain dst1 where w: "wr d dst = ((length d, None), dst1)" and "reliable dst1"
          using write_reliable Suc.prems(3,4) by blast
        with Suc.prems rd ReadRet None False
        have "relay wr rd n (tl stops) fuel dst1 s = Some (r, dst', src')" by simp
        from Suc.IH [OF f this] write_sent [OF Suc.prems(3) w] \<open>reliable dst1\<close>
          read_pending [OF Suc.prems(1) rd [unfolded ReadRet None]]
        show ?thesis by auto
      next
        case (Some e)
        with Suc.prems rd ReadRet False read_error [OF Suc.prems(1)] show ?thesis by auto
      qed
    next
      case ReadBlock
      with Suc.prems rd False read_block [OF rd [unfolded ReadBlock]] show ?thesis by auto
    qed
  qed (use Suc.prems in auto)
qed simp

lemma copy_total:
  "fits n src \<Longrightarrow> work src < fuel \<Longrightarrow> \<exists>r. copy_buffer wr rd n fuel dst src w = Some r"
proof (induction fuel arbitrary: dst src w)
  case (Suc fuel)
  show ?case
  proof (cases "rd n src")
    case (Pair r src')
    show ?thesis
    proof (cases r)
      case (ReadRet d er)
      with read_work [OF Suc.prems(1) Pair [unfolded ReadRet]] Suc.prems(2)
      have "work src' < fuel" by simp
      then have "\<exists>r. copy_buffer wr rd n fuel d1 src' w1 = Some r" for d1 w1
        by (rule Suc.IH [OF read_fits [OF Suc.prems(1) Pair [unfolded ReadRet]]])
      with Pair ReadRet show ?thesis by (simp add: Let_def split: option.split prod.split)
    qed (use Pair in simp)
  qed
qed simp

lemma copy_complete:
  assumes "fits n src" and "copy_buffer wr rd n fuel dst src w = Some (r, w', dst', src')"
    and "ok dst" and "reliable dst"
  shows "sent dst' = sent dst @ pending src \<and> w' = w + length (pending src)"
  using assms
proof (induction fuel arbitrary: dst src w)
  case (Suc fuel)
  obtain res s where rd: "rd n src = (res, s)" by fastforce
  show ?case
  proof (cases res)
    case (ReadRet d er)
    show ?thesis
    proof (cases er)
      case None
      note p = read_pending [OF Suc.prems(1) rd [unfolded ReadRet None]]
      note f = read_fits [OF Suc.prems(1) rd [unfolded ReadRet None]]
      show ?thesis
      proof (cases "d = []")
        case True
        with Suc.prems rd ReadRet None
        have "copy_buffer wr rd n fuel dst s w = Some (r, w', dst', src')" by simp
        from Suc.IH [OF f this] Suc.prems p True show ?thesis by simp
      next
        case False
        obtain dst1 where w: "wr d dst = ((length d, None), dst1)" and "reliable dst1"
          using write_reliable Suc.prems(3,4) by blast
        with Suc.prems rd ReadRet None False
        have "copy_buffer wr rd n fuel dst1 s (w + length d) = Some (r, w', dst', src')" by simp
        from Suc.IH [OF f this] write_sent [OF Suc.prems(3) w] \<open>reliable dst1\<close> p
        show ?thesis by simp
      qed
    next
      case (Some e)
      with Suc.prems rd ReadRet read_error [OF Suc.prems(1) rd [unfolded ReadRet Some]]
      show ?thesis by auto
    qed
  next
    case ReadBlock
    with Suc.prems rd read_block [OF rd [unfolded ReadBlock]] show ?thesis by auto
  qed
qed simp

lemma copy_prefix:
  assumes "fits n src" and "copy_buffer wr rd n fuel dst src w = Some (r, w', dst', src')" and "ok dst"
  shows "\<exists>d rest. sent dst' = sent dst @ d \<and> pending src = d @ rest"
  using assms
proof (induction fuel arbitrary: dst src w)
  case (Suc fuel)
  show ?case
  proof (cases "\<exists>d s. rd n src = (ReadRet d None, s)")
    case True
    then obtain d s where rd: "rd n src = (ReadRet d None, s)" by blast
    note p = read_pending [OF Suc.prems(1) rd]
    obtain k er dst1 where w: "wr d dst = ((k, er), dst1)" by (metis prod.exhaust)
    show ?thesis
    proof (cases "d = [] \<or> er = None \<and> k = length d")
      case True
      then obtain dst2 w2 where
        c: "copy_buffer wr rd n fuel dst2 s w2 = Some (r, w', dst', src')"
        and d2: "sent dst2 = sent dst @ d" "ok dst2"
        using Suc.prems rd w write_sent [of dst d dst1] by (cases "d = []") auto
      from Suc.IH [OF read_fits [OF Suc.prems(1) rd] c] d2 p show ?thesis by auto
    next
      case False
      with Suc.prems rd w have "dst' = dst1"
        by (auto simp: Let_def split: option.splits if_splits)
      with write_prefix [OF Suc.prems(3) w] p show ?thesis by (metis append.assoc append_take_drop_id)
    qed
  next
    case False
    obtain res s where rd: "rd n src = (res, s)" by fastforce
    with False Suc.prems have "dst' = dst"
      using read_error [OF Suc.prems(1), of _ _ s]
      by (cases res) (auto split: option.splits)
    then show ?thesis by simp
  qed
qed simp

end

section \<open>One round of the relay loop\<close>

text \<open>
  The loop's body on its own, for the places where two loops run side by side: \<open>None\<close> goes on with
  the next round.
\<close>

definition relay_iter :: "'d writer \<Rightarrow> 's reader \<Rightarrow> nat \<Rightarrow> bool \<Rightarrow> 'd \<Rightarrow> 's
    \<Rightarrow> loop_end option \<times> 'd \<times> 's" where
  "relay_iter wr rd n stop dst src =
     (if stop then (Some (LoopEnded None), dst, src)
      else case rd n src of
             (ReadBlock, src') \<Rightarrow> (Some LoopBlocked, dst, src')
           | (ReadRet d (Some e), src') \<Rightarrow> (Some (LoopEnded (Some e)), dst, src')
           | (ReadRet d None, src') \<Rightarrow>
               (case wr d dst of
                  ((nw, Some e), dst') \<Rightarrow> (Some (LoopEnded (Some e)), dst', src')
                | ((nw, None), dst') \<Rightarrow>
                    if nw \<noteq> length d
                    then (Some (LoopEnded (Some (ErrText ''short write''))), dst', src')
                    else (None, dst', src')))"

lemma relay_unfold:
  "relay wr rd n stops (Suc fuel) dst src =
     (case relay_iter wr rd n (stops \<noteq> [] \<and> hd stops) dst src of
        (Some r, dst', src') \<Rightarrow> Some (r, dst', src')
      | (None, dst', src') \<Rightarrow> relay wr rd n (tl stops) fuel dst' src')"
  by (simp add: relay_iter_def split: prod.split read_result.split option.split)

lemma relay_no_stop:
  "relay wr rd n [] fuel dst src = Some (res, dst', src') \<Longrightarrow> res \<noteq> LoopEnded None"
proof (induction fuel arbitrary: dst src)
  case (Suc fuel)
  then show ?case
    unfolding relay_unfold
    by (auto simp: relay_iter_def split: prod.splits read_result.splits option.splits if_splits)
qed simp

context conn_pair
begin

lemma iter_continue:
  assumes "fits n src" "ok dst" "relay_iter wr rd n stop dst src = (None, dst', src')"
  shows "\<exists>d. sent dst' = sent dst @ d \<and> pending src = d @ pending src' \<and> ok dst' \<and> fits n src'"
proof -
  from assms(3) obtain d where r: "rd n src = (ReadRet d None, src')"
    and w: "wr d dst = ((length d, None), dst')"
    by (auto simp: relay_iter_def split: if_splits prod.splits read_result.splits option.splits)
  from write_sent [OF assms(2) w] read_pending [OF assms(1) r] read_fits [OF assms(1) r]
  show ?thesis by blast
qed

lemma iter_stop:
  assumes "fits n src" "ok dst" "relay_iter wr rd n stop dst src = (Some r, dst', src')"
  shows "\<exists>d rest. sent dst' = sent dst @ d \<and> pending src = d @ rest"
proof (cases "dst' = dst")
  case False
  with assms(3) obtain d k er where r: "rd n src = (ReadRet d None, src')"
    and w: "wr d dst = ((k, er), dst')"
    by (auto simp: relay_iter_def split: if_splits prod.splits read_result.splits option.splits)
  from write_prefix [OF assms(2) w] read_pending [OF assms(1) r] show ?thesis
    by (metis append.assoc append_take_drop_id)
qed simp

end

text \<open>The same for \<open>io.CopyBuffer\<close>, which has no flag to test; the byte count is left out.\<close>

definition copy_iter :: "'d writer \<Rightarrow> 's reader \<Rightarrow> nat \<Rightarrow> 'd \<Rightarrow> 's \<Rightarrow> loop_end option \<times> 'd \<times> 's" where
  "copy_iter wr rd n dst src =
     (case rd n src of
        (ReadBlock, src') \<Rightarrow> (Some LoopBlocked, dst, src')
      | (ReadRet d er, src') \<Rightarrow>
          (let after_read = (\<lambda>dst'.
                 case er of
                   None \<Rightarrow> (None, dst', src')
                 | Some e \<Rightarrow> (Some (LoopEnded (if e = ErrEOF then None else Some e)), dst', src'))
           in if d = [] then after_read dst
              else case wr d dst of
                     ((nw, ew), dst') \<Rightarrow>
                       (let nw' = (if length d < nw then 0 else nw);
                            ew' = (if length d < nw \<and> ew = None
                                   then Some (ErrText ''invalid write result'') else ew)
                        in case ew' of
                             Some e \<Rightarrow> (Some (LoopEnded (Some e)), dst', src')
                           | None \<Rightarrow>
                               if nw' \<noteq> length d
                               then (Some (LoopEnded (Some (ErrText ''short write''))), dst', src')
                               else after_read dst')))"

lemma copy_unfold:
  "\<exists>w'. copy_buffer wr rd n (Suc fuel) dst src w =
     (case copy_iter wr rd n dst src of
        (Some r, dst', src') \<Rightarrow> Some (r, w', dst', src')
      | (None, dst', src') \<Rightarrow> copy_buffer wr rd n fuel dst' src' w')"
  by (auto simp: copy_iter_def Let_def split: prod.split read_result.split option.split)

context conn_pair
begin

lemma copy_iter_continue:
  assumes "fits n src" "ok dst" "copy_iter wr rd n dst src = (None, dst', src')"
  shows "\<exists>d. sent dst' = sent dst @ d \<and> pending src = d @ pending src' \<and> ok dst' \<and> fits n src'"
proof -
  from assms(3) obtain d where r: "rd n src = (ReadRet d None, src')"
    and w: "d = [] \<and> dst' = dst \<or> wr d dst = ((length d, None), dst')"
    by (auto simp: copy_iter_def Let_def
        split: if_splits prod.splits read_result.splits option.splits)
  from w have "sent dst' = sent dst @ d \<and> ok dst'"
    using write_sent [OF assms(2)] assms(2) by auto
  with read_pending [OF assms(1) r] read_fits [OF assms(1) r] show ?thesis by blast
qed

lemma copy_iter_stop:
  assumes "fits n src" "ok dst" "copy_iter wr rd n dst src = (Some r, dst', src')"
  shows "\<exists>d rest. sent dst' = sent dst @ d \<and> pending src = d @ rest"
proof (cases "dst' = dst")
  case False
  with assms(3) obtain d er k ew where r: "rd n src = (ReadRet d er, src')" "d \<noteq> []"
    and w: "wr d dst = ((k, ew), dst')"
    by (auto simp: copy_iter_def Let_def
        split: if_splits prod.splits read_result.splits option.splits)
  then have "er = None" using read_error [OF assms(1)] by (cases er) auto
  with write_prefix [OF assms(2) w] read_pending [OF assms(1)] r(1) show ?thesis
    by (metis append.assoc append_take_drop_id)
qed simp

end

lemma copy_iter_blocked:
  assumes "copy_iter wr rd n dst src = (Some LoopBlocked, dst', src')"
  shows "\<exists>s. rd n src = (ReadBlock, s)"
  using assms by (auto simp: copy_iter_def Let_def
      split: if_splits prod.splits read_result.splits option.splits)

lemma copy_iter_reads:
  assumes "copy_iter wr rd n dst src = (q, dst', src')"
  shows "\<exists>r. rd n src = (r, src') \<and> (dst' = dst \<or> (\<exists>p r. wr p dst = (r, dst')))"
  using assms by (auto simp: copy_iter_def Let_def
      split: if_splits prod.splits read_result.splits option.splits)

section \<open>Wrappers\<close>

text \<open>
  A wrapper that forwards to an inner connection, seen through the projection \<open>inner_of\<close>, is a
  reader or a writer by the inner connection's laws.
\<close>

locale reader_view = conn_reader rd pending work fits
  for rd :: "'s reader" and pending :: "'s \<Rightarrow> bytes" and work :: "'s \<Rightarrow> nat"
    and fits :: "nat \<Rightarrow> 's \<Rightarrow> bool" +
  fixes outer :: "'o reader" and inner_of :: "'o \<Rightarrow> 's"
  assumes outer_read: "outer n x = (r, y) \<Longrightarrow> rd n (inner_of x) = (r, inner_of y)"

sublocale reader_view \<subseteq> viewed: conn_reader outer "\<lambda>x. pending (inner_of x)"
  "\<lambda>x. work (inner_of x)" "\<lambda>n x. fits n (inner_of x)"
  by unfold_locales
    (blast dest: outer_read read_bound read_block read_pending read_error read_work
      read_fits)+

locale writer_view = conn_writer wr sent ok reliable
  for wr :: "'d writer" and sent :: "'d \<Rightarrow> bytes" and ok :: "'d \<Rightarrow> bool" and reliable :: "'d \<Rightarrow> bool" +
  fixes outer :: "'o writer" and inner_of :: "'o \<Rightarrow> 'd"
  assumes outer_write: "outer p x = (r, y) \<Longrightarrow> wr p (inner_of x) = (r, inner_of y)"
begin

lemma outer_reliable:
  assumes "ok (inner_of x)" "reliable (inner_of x)"
  shows "\<exists>y. outer p x = ((length p, None), y) \<and> reliable (inner_of y)"
  using write_reliable [OF assms, of p] outer_write by (metis prod.exhaust prod.inject)

end

sublocale writer_view \<subseteq> viewed: conn_writer outer "\<lambda>x. sent (inner_of x)"
  "\<lambda>x. ok (inner_of x)" "\<lambda>x. reliable (inner_of x)"
  by unfold_locales (blast dest: outer_write write_sent write_prefix intro: outer_reliable)+

end
