(* ===== verification/WsConn.thy ===== *)
theory WsConn
  imports NetConn
begin

text \<open>
  The two wrappers that turn a message-oriented websocket into an \<open>io.ReadWriter\<close>: \<open>GorillaConn\<close> on the
  client (\<open>src/client/tun/transport/argo/connection.go\<close>) and \<open>Conn\<close> on the server
  (\<open>src/server/cfd/websocket.go\<close>). The websocket libraries are outside the program: the results of their
  calls are scripts in the state, the messages and frames handed to them are recorded.
\<close>

section \<open>GorillaConn\<close>

record gorilla_conn =
  g_in :: "(go_error + bytes) list" \<comment> \<open>results of \<open>ReadMessage\<close>\<close>
  g_wr :: "go_error option list" \<comment> \<open>results of \<open>WriteMessage\<close>; success when exhausted\<close>
  g_msgs :: "bytes list" \<comment> \<open>messages written\<close>
  g_readBuf :: bytes
  g_closed :: bool

definition gorilla_open :: "(go_error + bytes) list \<Rightarrow> go_error option list \<Rightarrow> gorilla_conn" where
  "gorilla_open ins wrs = \<lparr>g_in = ins, g_wr = wrs, g_msgs = [], g_readBuf = [], g_closed = False\<rparr>"

definition GorillaConn_Read :: "gorilla_conn reader" where
  "GorillaConn_Read n c =
     (if g_readBuf c \<noteq> []
      then (ReadRet (take n (g_readBuf c)) None, c\<lparr>g_readBuf := drop n (g_readBuf c)\<rparr>)
      else case g_in c of
             [] \<Rightarrow> (ReadBlock, c)
           | Inl e # es \<Rightarrow> (ReadRet [] (Some e), c\<lparr>g_in := es\<rparr>)
           | Inr message # es \<Rightarrow>
               (let copied = min n (length message)
                in (ReadRet (take copied message) None,
                    c\<lparr>g_in := es, g_readBuf := g_readBuf c @ drop copied message\<rparr>)))"

definition GorillaConn_Write :: "gorilla_conn writer" where
  "GorillaConn_Write p c =
     (case g_wr c of
        Some e # ws \<Rightarrow> ((0, Some e), c\<lparr>g_wr := ws\<rparr>)
      | None # ws \<Rightarrow> ((length p, None), c\<lparr>g_wr := ws, g_msgs := g_msgs c @ [p]\<rparr>)
      | [] \<Rightarrow> ((length p, None), c\<lparr>g_msgs := g_msgs c @ [p]\<rparr>))"

definition GorillaConn_Close :: "gorilla_conn \<Rightarrow> gorilla_conn" where
  "GorillaConn_Close c = c\<lparr>g_closed := True\<rparr>"

text \<open>\<open>SetDeadline\<close> over the library's two setters.\<close>

definition GorillaConn_SetDeadline ::
    "('t \<Rightarrow> 'c \<Rightarrow> go_error option \<times> 'c) \<Rightarrow> ('t \<Rightarrow> 'c \<Rightarrow> go_error option \<times> 'c)
     \<Rightarrow> 't \<Rightarrow> 'c \<Rightarrow> go_error option \<times> 'c" where
  "GorillaConn_SetDeadline set_read set_write t c =
     (case set_read t c of
        (Some e, c') \<Rightarrow> (Some (ErrWrap ''error setting read deadline'' e), c')
      | (None, c') \<Rightarrow>
          (case set_write t c' of
             (Some e, c'') \<Rightarrow> (Some (ErrWrap ''error setting write deadline'' e), c'')
           | (None, c'') \<Rightarrow> (None, c'')))"

fun pending_msgs :: "(go_error + bytes) list \<Rightarrow> bytes" where
  "pending_msgs [] = []"
| "pending_msgs (Inl e # es) = []"
| "pending_msgs (Inr m # es) = m @ pending_msgs es"

definition gorilla_pending :: "gorilla_conn \<Rightarrow> bytes" where
  "gorilla_pending c = g_readBuf c @ pending_msgs (g_in c)"

fun msg_work :: "go_error + bytes \<Rightarrow> nat" where
  "msg_work (Inl e) = 1"
| "msg_work (Inr m) = Suc (length m)"

definition gorilla_work :: "gorilla_conn \<Rightarrow> nat" where
  "gorilla_work c = length (g_readBuf c) + sum_list (map msg_work (g_in c))"

definition gorilla_sent :: "gorilla_conn \<Rightarrow> bytes" where
  "gorilla_sent c = concat (g_msgs c)"

lemma gorilla_read_cases:
  "(g_readBuf c \<noteq> [] \<and> GorillaConn_Read n c =
      (ReadRet (take n (g_readBuf c)) None, c\<lparr>g_readBuf := drop n (g_readBuf c)\<rparr>)) \<or>
   (g_readBuf c = [] \<and> g_in c = [] \<and> GorillaConn_Read n c = (ReadBlock, c)) \<or>
   (\<exists>e es. g_readBuf c = [] \<and> g_in c = Inl e # es \<and>
      GorillaConn_Read n c = (ReadRet [] (Some e), c\<lparr>g_in := es\<rparr>)) \<or>
   (\<exists>m es. g_readBuf c = [] \<and> g_in c = Inr m # es \<and>
      GorillaConn_Read n c = (ReadRet (take n m) None, c\<lparr>g_in := es, g_readBuf := drop n m\<rparr>))"
  by (auto simp: GorillaConn_Read_def min_def split: list.splits sum.splits)

interpretation gorilla_reader: conn_reader GorillaConn_Read gorilla_pending gorilla_work "\<lambda>n _. 0 < n"
proof unfold_locales
  fix n c d er c'
  assume r: "GorillaConn_Read n c = (ReadRet d er, c')"
  from r show "length d \<le> n" using gorilla_read_cases [of c n] by auto
  assume "0 < n"
  with r show "gorilla_work c' < gorilla_work c"
    using gorilla_read_cases [of c n] by (auto simp: gorilla_work_def)
next
  fix n c d c'
  assume "0 < n" "GorillaConn_Read n c = (ReadRet d None, c')"
  then show "gorilla_pending c = d @ gorilla_pending c'"
    using gorilla_read_cases [of c n] by (auto simp: gorilla_pending_def)
next
  fix n c d e c'
  assume "0 < n" "GorillaConn_Read n c = (ReadRet d (Some e), c')"
  then show "d = [] \<and> gorilla_pending c = []"
    using gorilla_read_cases [of c n] by (auto simp: gorilla_pending_def)
next
  fix n c c'
  assume "GorillaConn_Read n c = (ReadBlock, c')"
  then show "gorilla_pending c = []"
    using gorilla_read_cases [of c n] by (auto simp: gorilla_pending_def)
qed

lemma gorilla_write_cases:
  "(\<exists>e ws. GorillaConn_Write p c = ((0, Some e), c\<lparr>g_wr := ws\<rparr>) \<and> g_wr c = Some e # ws) \<or>
   (\<exists>ws. GorillaConn_Write p c = ((length p, None), c\<lparr>g_wr := ws, g_msgs := g_msgs c @ [p]\<rparr>) \<and>
      (g_wr c = [] \<longrightarrow> ws = []))"
  by (auto simp: GorillaConn_Write_def split: list.splits option.splits)

lemma gorilla_write_sent:
  "GorillaConn_Write p c = (r, c') \<Longrightarrow>
    gorilla_sent c' = gorilla_sent c \<and> snd r \<noteq> None \<or>
    gorilla_sent c' = gorilla_sent c @ p \<and> r = (length p, None)"
  using gorilla_write_cases [of p c] by (auto simp: gorilla_sent_def)

interpretation gorilla_writer:
  conn_writer GorillaConn_Write gorilla_sent "\<lambda>_. True" "\<lambda>c. g_wr c = []"
proof unfold_locales
  fix c p c'
  assume "GorillaConn_Write p c = ((length p, None), c')"
  then show "gorilla_sent c' = gorilla_sent c @ p \<and> True"
    using gorilla_write_cases [of p c] by (auto simp: gorilla_sent_def)
next
  fix c p k er c'
  assume "GorillaConn_Write p c = ((k, er), c')"
  then have "gorilla_sent c' = gorilla_sent c @ take 0 p \<or>
      gorilla_sent c' = gorilla_sent c @ take (length p) p"
    using gorilla_write_cases [of p c] by (auto simp: gorilla_sent_def)
  then show "\<exists>j. gorilla_sent c' = gorilla_sent c @ take j p" by blast
next
  fix c :: gorilla_conn and p
  assume "g_wr c = []"
  then show "\<exists>c'. GorillaConn_Write p c = ((length p, None), c') \<and> g_wr c' = []"
    by (simp add: GorillaConn_Write_def)
qed

text \<open>
  The abstract view: a sequence of reads with arbitrary buffer sizes is the byte stream of the
  messages, cut at the sizes asked for.
\<close>

fun read_many :: "'c reader \<Rightarrow> nat list \<Rightarrow> 'c \<Rightarrow> bytes \<times> 'c" where
  "read_many rd [] c = ([], c)"
| "read_many rd (n # ns) c =
     (case rd n c of
        (ReadRet d None, c') \<Rightarrow> (case read_many rd ns c' of (ds, c'') \<Rightarrow> (d @ ds, c''))
      | (_, c') \<Rightarrow> ([], c'))"

section \<open>Conn, the server side\<close>

datatype frame = FramePing | FrameBinary bytes

record ws_conn =
  wc_in :: "(go_error + bytes) list" \<comment> \<open>results of \<open>wsutil.ReadClientBinary\<close>\<close>
  wc_wr :: "go_error option list" \<comment> \<open>results of the frame writers; success when exhausted\<close>
  wc_ctl :: "go_error option list" \<comment> \<open>results of \<open>HandleClientControlMessage\<close>\<close>
  wc_answers :: "bytes list list" \<comment> \<open>control frames each read will answer; none when exhausted\<close>
  wc_frames :: "frame list" \<comment> \<open>frames written\<close>
  wc_replies :: "bytes list" \<comment> \<open>control frames the reader has written\<close>
  wc_done :: bool

text \<open>
  There are two writers of frames. The connection's own \<open>Write\<close> and \<open>ping\<close> hold \<open>writeLock\<close> and obey
  \<open>done\<close>; their frames are \<open>wc_frames\<close>. \<open>ReadClientBinary\<close> is given the stream itself and not only reads:
  it answers pings and close frames of the client on it before it returns, under no lock. What it writes
  is \<open>wc_replies\<close>. How the frames of the two lie in between each other is not recorded; a reply carries no
  data.
\<close>

definition ws_open :: "(go_error + bytes) list \<Rightarrow> go_error option list \<Rightarrow> ws_conn" where
  "ws_open ins wrs = \<lparr>wc_in = ins, wc_wr = wrs, wc_ctl = [], wc_answers = [], wc_frames = [],
     wc_replies = [], wc_done = False\<rparr>"

text \<open>Writing one frame through \<open>wsutil\<close>: the next scripted result.\<close>

definition write_frame :: "frame \<Rightarrow> ws_conn \<Rightarrow> go_error option \<times> ws_conn" where
  "write_frame f c =
     (case wc_wr c of
        Some e # ws \<Rightarrow> (Some e, c\<lparr>wc_wr := ws\<rparr>)
      | None # ws \<Rightarrow> (None, c\<lparr>wc_wr := ws, wc_frames := wc_frames c @ [f]\<rparr>)
      | [] \<Rightarrow> (None, c\<lparr>wc_frames := wc_frames c @ [f]\<rparr>))"

definition handle_control :: "ws_conn \<Rightarrow> go_error option \<times> ws_conn" where
  "handle_control c =
     (case wc_ctl c of [] \<Rightarrow> (None, c) | r # rs \<Rightarrow> (r, c\<lparr>wc_ctl := rs\<rparr>))"

definition Conn_Close :: "ws_conn \<Rightarrow> ws_conn" where
  "Conn_Close c = c\<lparr>wc_done := True\<rparr>"

definition Conn_ping :: "ws_conn \<Rightarrow> (bool \<times> go_error option) \<times> ws_conn" where
  "Conn_ping c =
     (if wc_done c then ((True, None), c)
      else case write_frame FramePing c of (e, c') \<Rightarrow> ((False, e), c'))"

text \<open>What a read answers to the client's control frames while it waits for a message.\<close>

definition answer_control :: "ws_conn \<Rightarrow> ws_conn" where
  "answer_control c =
     (case wc_answers c of
        [] \<Rightarrow> c
      | rs # as \<Rightarrow> c\<lparr>wc_answers := as, wc_replies := wc_replies c @ rs\<rparr>)"

text \<open>
  One message per call, copied into the caller's buffer; what does not fit is dropped. Before it
  returns the call has answered the control frames in front of the message.
\<close>

definition Conn_Read :: "ws_conn reader" where
  "Conn_Read n c =
     (case wc_in c of
        [] \<Rightarrow> (ReadBlock, c)
      | Inl e # es \<Rightarrow> (ReadRet [] (Some e), (answer_control c)\<lparr>wc_in := es\<rparr>)
      | Inr data # es \<Rightarrow> (ReadRet (take n data) None, (answer_control c)\<lparr>wc_in := es\<rparr>))"

definition Conn_Write :: "ws_conn writer" where
  "Conn_Write p c =
     (if wc_done c then ((0, Some (ErrText ''write to closed websocket connection'')), c)
      else case write_frame (FrameBinary p) c of
             (Some e, c') \<Rightarrow> ((0, Some e), c')
           | (None, c') \<Rightarrow> ((length p, None), c'))"

text \<open>Durations are in nanoseconds; the context may carry another period.\<close>

datatype ctx_value = CtxDuration int | CtxOther

definition defaultPongWait :: int where "defaultPongWait = 60 * 1000000000"
definition defaultPingPeriod :: int where "defaultPingPeriod = (defaultPongWait * 9) div 10"

definition Conn_pingPeriod :: "ctx_value option \<Rightarrow> int" where
  "Conn_pingPeriod v =
     (case v of Some (CtxDuration period) \<Rightarrow> period | _ \<Rightarrow> defaultPingPeriod)"

text \<open>
  The pinger goroutine over the sequence of events its \<open>select\<close> sees. It returns whether it has
  returned, the connection, and the diagnostics it printed.
\<close>

datatype pinger_event = Tick | CtxDone

fun Conn_pinger :: "pinger_event list \<Rightarrow> ws_conn \<Rightarrow> bool \<times> ws_conn \<times> string list" where
  "Conn_pinger [] c = (False, c, [])"
| "Conn_pinger (CtxDone # es) c = (True, c, [])"
| "Conn_pinger (Tick # es) c =
     (case Conn_ping c of
        ((True, _), c') \<Rightarrow> (True, c', [])
      | ((False, e), c') \<Rightarrow>
          (case handle_control c' of
             (e2, c'') \<Rightarrow>
               (case Conn_pinger es c'' of
                  (r, c3, out) \<Rightarrow>
                    (r, c3,
                     (if e \<noteq> None then [''failed to write ping message''] else []) @
                     (if e2 \<noteq> None then [''failed to write pong message''] else []) @ out))))"

fun frame_payload :: "frame \<Rightarrow> bytes" where
  "frame_payload FramePing = []"
| "frame_payload (FrameBinary p) = p"

definition ws_sent :: "ws_conn \<Rightarrow> bytes" where
  "ws_sent c = concat (map frame_payload (wc_frames c))"

lemma answer_control_simps [simp]:
  "wc_in (answer_control c) = wc_in c" "wc_wr (answer_control c) = wc_wr c"
  "wc_frames (answer_control c) = wc_frames c" "wc_done (answer_control c) = wc_done c"
  "ws_sent (answer_control c) = ws_sent c"
  "answer_control (c\<lparr>wc_done := d\<rparr>) = (answer_control c)\<lparr>wc_done := d\<rparr>"
  "wc_answers c = [] \<Longrightarrow> answer_control c = c"
  by (simp_all add: answer_control_def ws_sent_def split: list.split)

lemma answer_control_open [simp]: "answer_control (ws_open ins wrs) = ws_open ins wrs"
  by (simp add: answer_control_def ws_open_def)

text \<open>
  The goroutines that share a \<open>Conn\<close>: any of its operations, in any order. A read that has not
  returned yet may have answered control frames already.
\<close>

inductive conn_step :: "ws_conn \<Rightarrow> ws_conn \<Rightarrow> bool" where
  step_read: "conn_step c (snd (Conn_Read n c))"
| step_write: "conn_step c (snd (Conn_Write p c))"
| step_ping: "conn_step c (snd (Conn_ping c))"
| step_control: "conn_step c (snd (handle_control c))"
| step_answer: "conn_step c (answer_control c)"
| step_close: "conn_step c (Conn_Close c)"

inductive_cases conn_stepE: "conn_step c c'"

lemmas conn_defs = Conn_Read_def Conn_Write_def Conn_ping_def handle_control_def Conn_Close_def
  write_frame_def

lemma conn_step_closed:
  "conn_step c c' \<Longrightarrow> wc_done c \<Longrightarrow> wc_done c' \<and> wc_frames c' = wc_frames c"
  by (auto elim!: conn_stepE simp: conn_defs split: list.splits sum.splits option.splits)

lemma conn_step_frames: "conn_step c c' \<Longrightarrow> \<exists>fs. wc_frames c' = wc_frames c @ fs"
  by (auto elim!: conn_stepE simp: conn_defs split: list.splits sum.splits option.splits)

lemma conn_step_replies: "conn_step c c' \<Longrightarrow> \<exists>rs. wc_replies c' = wc_replies c @ rs"
  by (auto elim!: conn_stepE simp: conn_defs answer_control_def split: list.splits sum.splits option.splits)

lemma conn_steps_replies: "conn_step\<^sup>*\<^sup>* c c' \<Longrightarrow> \<exists>rs. wc_replies c' = wc_replies c @ rs"
proof (induction rule: rtranclp_induct)
  case (step x y)
  with conn_step_replies [OF step(2)] show ?case by auto
qed simp

interpretation closed_conn:
  invariant_system "\<lambda>c. wc_done c \<and> wc_frames c = F" conn_step "\<lambda>c. wc_done c \<and> wc_frames c = F"
  for F
  by unfold_locales (auto dest: conn_step_closed)

lemma write_frame_sent:
  "write_frame f c = (None, c') \<Longrightarrow> ws_sent c' = ws_sent c @ frame_payload f \<and> wc_done c' = wc_done c"
  "write_frame f c = (Some e, c') \<Longrightarrow> ws_sent c' = ws_sent c"
  by (auto simp: write_frame_def ws_sent_def split: list.splits option.splits)

interpretation ws_writer:
  conn_writer Conn_Write ws_sent "\<lambda>_. True" "\<lambda>c. \<not> wc_done c \<and> wc_wr c = []"
proof unfold_locales
  fix c p c'
  assume w: "Conn_Write p c = ((length p, None), c')"
  then show "ws_sent c' = ws_sent c @ p \<and> True"
    by (auto simp: Conn_Write_def dest!: write_frame_sent split: if_splits prod.splits option.splits)
next
  fix c p k er c'
  assume "Conn_Write p c = ((k, er), c')"
  then have "ws_sent c' = ws_sent c @ take 0 p \<or> ws_sent c' = ws_sent c @ take (length p) p"
    by (auto simp: Conn_Write_def dest!: write_frame_sent split: if_splits prod.splits option.splits)
  then show "\<exists>j. ws_sent c' = ws_sent c @ take j p" by blast
next
  fix c :: ws_conn and p
  assume "\<not> wc_done c \<and> wc_wr c = []"
  then show "\<exists>c'. Conn_Write p c = ((length p, None), c') \<and> \<not> wc_done c' \<and> wc_wr c' = []"
    by (simp add: Conn_Write_def write_frame_def)
qed


text \<open>
  As a reader, the server's \<open>Conn\<close> satisfies the interface for buffers that hold its longest
  message: the bytes a shorter buffer cuts off are not delivered later.
\<close>

definition ws_pending :: "ws_conn \<Rightarrow> bytes" where
  "ws_pending c = pending_msgs (wc_in c)"

definition ws_work :: "ws_conn \<Rightarrow> nat" where
  "ws_work c = length (wc_in c)"

definition ws_fits :: "nat \<Rightarrow> ws_conn \<Rightarrow> bool" where
  "ws_fits n c \<longleftrightarrow> (\<forall>m. Inr m \<in> set (wc_in c) \<longrightarrow> length m \<le> n)"

lemma Conn_Read_cases:
  "(wc_in c = [] \<and> Conn_Read n c = (ReadBlock, c)) \<or>
   (\<exists>e es. wc_in c = Inl e # es \<and> Conn_Read n c = (ReadRet [] (Some e), (answer_control c)\<lparr>wc_in := es\<rparr>)) \<or>
   (\<exists>m es. wc_in c = Inr m # es \<and> Conn_Read n c = (ReadRet (take n m) None, (answer_control c)\<lparr>wc_in := es\<rparr>))"
  by (auto simp: Conn_Read_def split: list.splits sum.splits)

interpretation ws_reader: conn_reader Conn_Read ws_pending ws_work ws_fits
proof unfold_locales
  fix n c d er c'
  assume r: "Conn_Read n c = (ReadRet d er, c')"
  from r show "length d \<le> n" using Conn_Read_cases [of c n] by auto
  assume "ws_fits n c"
  with r show "ws_work c' < ws_work c" and "ws_fits n c'"
    using Conn_Read_cases [of c n] by (auto simp: ws_work_def ws_fits_def)
next
  fix n c d c'
  assume "ws_fits n c" "Conn_Read n c = (ReadRet d None, c')"
  then show "ws_pending c = d @ ws_pending c'"
    using Conn_Read_cases [of c n] by (auto simp: ws_pending_def ws_fits_def)
next
  fix n c d e c'
  assume "ws_fits n c" "Conn_Read n c = (ReadRet d (Some e), c')"
  then show "d = [] \<and> ws_pending c = []"
    using Conn_Read_cases [of c n] by (auto simp: ws_pending_def)
next
  fix n c c'
  assume "Conn_Read n c = (ReadBlock, c')"
  then show "ws_pending c = []"
    using Conn_Read_cases [of c n] by (auto simp: ws_pending_def)
qed

section \<open>Properties\<close>

lemma read_many_pending:
  assumes "\<forall>n \<in> set ns. 0 < n" "read_many GorillaConn_Read ns c = (d, c')"
  shows "(\<exists>rest. gorilla_pending c = d @ rest) \<and>
    (gorilla_work c \<le> length ns \<longrightarrow> gorilla_pending c = d)"
  using assms
proof (induction ns arbitrary: c d c')
  case Nil
  have z: "(msg_work x = 0) = False" for x by (cases x) simp_all
  from Nil show ?case by (cases "g_in c") (auto simp: gorilla_work_def gorilla_pending_def z)
next
  case (Cons n ns)
  then have n: "0 < n" by simp
  show ?case
  proof (cases "\<exists>e c1. GorillaConn_Read n c = (ReadRet e None, c1)")
    case True
    then obtain e c1 where r: "GorillaConn_Read n c = (ReadRet e None, c1)" by blast
    obtain ds c2 where m: "read_many GorillaConn_Read ns c1 = (ds, c2)" by fastforce
    with Cons.prems r have "d = e @ ds" by simp
    with Cons.IH [OF _ m] Cons.prems(1) gorilla_reader.read_pending [OF n r]
      gorilla_reader.read_work [OF n r] show ?thesis by auto
  next
    case False
    with Cons.prems(2) have "d = []" by (auto split: prod.splits read_result.splits option.splits)
    moreover have "gorilla_pending c = []"
      using False gorilla_read_cases [of c n] by (auto simp: gorilla_pending_def)
    ultimately show ?thesis by simp
  qed
qed

text \<open>
  The client's \<open>GorillaConn\<close> turns messages into a byte stream: however the reader chooses its buffer
  sizes, what the reads return, put together, is a prefix of the messages' bytes up to the first
  error, and after as many reads as there are messages and bytes it is all of them.
\<close>

theorem gorilla_stream:
  assumes "\<forall>n \<in> set ns. 0 < n" and "read_many GorillaConn_Read ns c = (d, c')"
  shows "(\<exists>rest. g_readBuf c @ pending_msgs (g_in c) = d @ rest) \<and>
    (gorilla_work c \<le> length ns \<longrightarrow> g_readBuf c @ pending_msgs (g_in c) = d)"
  using read_many_pending [OF assms] by (auto simp: gorilla_pending_def)

theorem gorilla_stream_witness:
  "read_many GorillaConn_Read [2, 5] (gorilla_open [Inr [1, 2, 3], Inr [4]] []) =
     ([1, 2, 3], snd (read_many GorillaConn_Read [2, 5] (gorilla_open [Inr [1, 2, 3], Inr [4]] []))) \<and>
   (\<exists>rest. [1, 2, 3, 4] = ([1, 2, 3] :: bytes) @ rest)"
proof -
  have r: "fst (read_many GorillaConn_Read [2, 5] (gorilla_open [Inr [1, 2, 3], Inr [4]] [])) = [1, 2, 3]"
    by (simp add: GorillaConn_Read_def gorilla_open_def)
  then have e: "read_many GorillaConn_Read [2, 5] (gorilla_open [Inr [1, 2, 3], Inr [4]] []) =
     ([1, 2, 3], snd (read_many GorillaConn_Read [2, 5] (gorilla_open [Inr [1, 2, 3], Inr [4]] [])))"
    by (metis prod.collapse)
  from gorilla_stream [OF _ e] e show ?thesis by (simp add: gorilla_open_def)
qed

text \<open>
  C28. After \<open>Close\<close> the server's \<open>Conn\<close> sends neither data nor pings any more: whatever its readers,
  writers and the pinger do afterwards, no frame of theirs is added, the pinger stops at its next ping,
  and \<open>Write\<close> reports an error. What \<open>Close\<close> does not stop are the replies of a reader: the library
  answers the client's control frames on the stream itself, outside \<open>writeLock\<close> and without a look at
  \<open>done\<close>, so a read after \<open>Close\<close> still writes them.
\<close>

theorem no_frames_after_close:
  "(conn_step\<^sup>*\<^sup>* (Conn_Close c) c' \<longrightarrow>
     wc_frames c' = wc_frames c \<and> wc_done c' \<and>
     Conn_Write p c' = ((0, Some (ErrText ''write to closed websocket connection'')), c') \<and>
     Conn_pinger (Tick # es) c' = (True, c', []) \<and>
     (\<exists>rs. wc_replies c' = wc_replies c @ rs)) \<and>
   (wc_in c \<noteq> [] \<and> wc_answers c = rs # as \<longrightarrow>
     wc_replies (snd (Conn_Read n (Conn_Close c))) = wc_replies c @ rs)"
proof (intro conjI impI)
  assume steps: "conn_step\<^sup>*\<^sup>* (Conn_Close c) c'"
  then have closed: "wc_done c' \<and> wc_frames c' = wc_frames c"
    using closed_conn.steps_inv by (auto simp: Conn_Close_def)
  then show "wc_frames c' = wc_frames c" "wc_done c'" by simp_all
  from closed show "Conn_Write p c' = ((0, Some (ErrText ''write to closed websocket connection'')), c')"
    "Conn_pinger (Tick # es) c' = (True, c', [])"
    by (simp_all add: Conn_Write_def Conn_ping_def)
  show "\<exists>rs. wc_replies c' = wc_replies c @ rs"
    using conn_steps_replies [OF steps] by (simp add: Conn_Close_def)
next
  assume "wc_in c \<noteq> [] \<and> wc_answers c = rs # as"
  then show "wc_replies (snd (Conn_Read n (Conn_Close c))) = wc_replies c @ rs"
    using Conn_Read_cases [of "Conn_Close c" n] by (auto simp: Conn_Close_def answer_control_def)
qed

text \<open>A client that pings while the connection is being closed gets its pong after \<open>Close\<close>, and no data.\<close>

definition demo_pinged :: ws_conn where
  "demo_pinged = (ws_open [Inr [1]] [])\<lparr>wc_answers := [[[9]]]\<rparr>"

theorem no_frames_after_close_witness:
  "Conn_Write [1] (snd (Conn_Read 8 (Conn_Close demo_pinged))) =
     ((0, Some (ErrText ''write to closed websocket connection'')), snd (Conn_Read 8 (Conn_Close demo_pinged))) \<and>
   wc_frames (snd (Conn_Read 8 (Conn_Close demo_pinged))) = [] \<and>
   wc_replies (snd (Conn_Read 8 (Conn_Close demo_pinged))) = [[9]]"
proof -
  have "conn_step\<^sup>*\<^sup>* (Conn_Close demo_pinged) (snd (Conn_Read 8 (Conn_Close demo_pinged)))"
    by (rule r_into_rtranclp, rule conn_step.step_read)
  moreover have "wc_in demo_pinged \<noteq> [] \<and> wc_answers demo_pinged = [[9]] # []"
    "wc_frames demo_pinged = []" "wc_replies demo_pinged = []"
    by (simp_all add: demo_pinged_def ws_open_def)
  ultimately show ?thesis
    using no_frames_after_close [of demo_pinged "snd (Conn_Read 8 (Conn_Close demo_pinged))" "[1]" "[]" "[[9]]" "[]" 8]
    by simp
qed

end
