(* ===== verification/Base64.thy ===== *)
theory Base64
  imports Prelude
begin

text \<open>
  \<open>encoding/base64\<close>'s \<open>StdEncoding\<close>, as used for the websocket accept key, the tunnel
  token and the tunnel secret: three bytes to four characters with padding, and the decoder, which
  skips newlines and refuses bad characters, bad padding and trailing data.
\<close>

definition b64_alphabet :: string where
  "b64_alphabet = ''ABCDEFGHIJKLMNOPQRSTUVWXYZabcdefghijklmnopqrstuvwxyz0123456789+/''"

definition b64_char :: "nat \<Rightarrow> char" where
  "b64_char n = b64_alphabet ! n"

fun index_from :: "nat \<Rightarrow> string \<Rightarrow> char \<Rightarrow> nat option" where
  "index_from i [] c = None"
| "index_from i (x # xs) c = (if c = x then Some i else index_from (Suc i) xs c)"

definition b64_index :: "char \<Rightarrow> nat option" where
  "b64_index c = index_from 0 b64_alphabet c"

definition enc3 :: "nat \<Rightarrow> nat \<Rightarrow> nat \<Rightarrow> nat list" where
  "enc3 a b c = [a div 4, (a mod 4) * 16 + b div 16, (b mod 16) * 4 + c div 64, c mod 64]"

definition dec4 :: "nat \<Rightarrow> nat \<Rightarrow> nat \<Rightarrow> nat \<Rightarrow> nat list" where
  "dec4 p q r s = [p * 4 + q div 16, (q mod 16) * 16 + r div 4, (r mod 4) * 64 + s]"

fun b64_encode :: "bytes \<Rightarrow> string" where
  "b64_encode [] = []"
| "b64_encode [a] = map b64_char (take 2 (enc3 (unat a) 0 0)) @ ''==''"
| "b64_encode [a, b] = map b64_char (take 3 (enc3 (unat a) (unat b) 0)) @ ''=''"
| "b64_encode (a # b # c # bs) = map b64_char (enc3 (unat a) (unat b) (unat c)) @ b64_encode bs"

fun b64_decode_chars :: "string \<Rightarrow> bytes option" where
  "b64_decode_chars [] = Some []"
| "b64_decode_chars (w # x # y # z # cs) =
     (case (b64_index w, b64_index x) of
        (Some p, Some q) \<Rightarrow>
          if y = CHR ''='' then
            (if z = CHR ''='' \<and> cs = [] then Some (map of_nat (take 1 (dec4 p q 0 0))) else None)
          else
            (case b64_index y of
               None \<Rightarrow> None
             | Some r \<Rightarrow>
                 if z = CHR ''='' then
                   (if cs = [] then Some (map of_nat (take 2 (dec4 p q r 0))) else None)
                 else
                   (case (b64_index z, b64_decode_chars cs) of
                      (Some s, Some bs) \<Rightarrow> Some (map of_nat (dec4 p q r s) @ bs)
                    | _ \<Rightarrow> None))
      | _ \<Rightarrow> None)"
| "b64_decode_chars _ = None"

definition b64_decode :: "string \<Rightarrow> bytes option" where
  "b64_decode s = b64_decode_chars (filter (\<lambda>c. c \<noteq> CHR 0x0A \<and> c \<noteq> CHR 0x0D) s)"

lemma b64_table: "\<forall>n \<in> set [0..<64]. b64_index (b64_char n) = Some n \<and> b64_char n \<noteq> CHR ''='' \<and>
    b64_char n \<noteq> CHR 0x0A \<and> b64_char n \<noteq> CHR 0x0D"
  by code_simp

lemma b64_char_props [simp]:
  assumes "n < 64"
  shows "b64_index (b64_char n) = Some n" "b64_char n \<noteq> CHR ''=''"
    "b64_char n \<noteq> CHR 0x0A" "b64_char n \<noteq> CHR 0x0D"
  using b64_table assms by auto

lemma byte_lt [simp]: "unat (b :: byte) < 256"
  using unsigned_less [of b] by simp

lemma sextet_bounds [simp]:
  "a < 256 \<Longrightarrow> a div 4 < (64::nat)" "b < 256 \<Longrightarrow> (a mod 4) * 16 + b div 16 < (64::nat)"
  "b < 256 \<Longrightarrow> (a mod 16) * 4 + b div 64 < (64::nat)"
  "(a mod 4) * 16 < (64::nat)" "(a mod 16) * 4 < (64::nat)"
  by linarith+

lemma dec4_enc3:
  assumes "a < 256" "b < 256" "c < 256"
  shows "dec4 (a div 4) ((a mod 4) * 16 + b div 16) ((b mod 16) * 4 + c div 64) (c mod 64) = [a, b, c]"
proof -
  have "b div 16 < 16" "c div 64 < 4" using assms by linarith+
  then have "(a mod 4 * 16 + b div 16) div 16 = a mod 4" "(a mod 4 * 16 + b div 16) mod 16 = b div 16"
    "(b mod 16 * 4 + c div 64) div 4 = b mod 16" "(b mod 16 * 4 + c div 64) mod 4 = c div 64"
    by simp_all
  then show ?thesis by (simp add: dec4_def)
qed

lemma b64_newline_free: "filter (\<lambda>c. c \<noteq> CHR 0x0A \<and> c \<noteq> CHR 0x0D) (b64_encode bs) = b64_encode bs"
  by (induction bs rule: b64_encode.induct) (simp_all add: enc3_def)

lemma b64_roundtrip_chars: "b64_decode_chars (b64_encode bs) = Some bs"
proof (induction bs rule: b64_encode.induct)
  case (2 a)
  then show ?case using dec4_enc3 [of "unat a" 0 0] by (simp add: enc3_def)
next
  case (3 a b)
  then show ?case using dec4_enc3 [of "unat a" "unat b" 0] by (simp add: enc3_def)
next
  case (4 a b c bs)
  then show ?case using dec4_enc3 [of "unat a" "unat b" "unat c"] by (simp add: enc3_def)
qed simp

interpretation b64: codec b64_encode b64_decode "\<lambda>_. True"
  by unfold_locales (simp add: b64_decode_def b64_newline_free b64_roundtrip_chars)

lemma length_b64_encode: "length (b64_encode bs) = 4 * ((length bs + 2) div 3)"
proof (induction bs rule: b64_encode.induct)
  case (4 a b c bs)
  have "(5 + length bs) div 3 = Suc (Suc (Suc (length bs)) div 3)" by linarith
  with 4 show ?case by (simp add: enc3_def)
qed (simp_all add: enc3_def)

lemma index_from_Some: "index_from i xs c = Some n \<Longrightarrow> c \<in> set xs"
  by (induction xs arbitrary: i) (auto split: if_splits)

lemma b64_decode_chars_alphabet: "b64_decode_chars s = Some bs \<Longrightarrow> set s \<subseteq> insert CHR ''='' (set b64_alphabet)"
  by (induction s arbitrary: bs rule: b64_decode_chars.induct)
    (auto simp: b64_index_def dest: index_from_Some split: option.splits if_splits)

lemma b64_decode_alphabet:
  "c \<in> set s \<Longrightarrow> c \<notin> set b64_alphabet \<union> {CHR ''='', CHR 0x0A, CHR 0x0D} \<Longrightarrow> b64_decode s = None"
  using b64_decode_chars_alphabet by (fastforce simp: b64_decode_def)

text \<open>
  What \<open>DecodeString\<close> returns beside an error: the bytes of the groups before the bad one, those of a
  padded group included when only what follows it is wrong.
\<close>

fun b64_prefix_chars :: "string \<Rightarrow> bytes" where
  "b64_prefix_chars (w # x # y # z # cs) =
     (case (b64_index w, b64_index x) of
        (Some p, Some q) \<Rightarrow>
          if y = CHR ''='' then (if z = CHR ''='' then map of_nat (take 1 (dec4 p q 0 0)) else [])
          else
            (case b64_index y of
               None \<Rightarrow> []
             | Some r \<Rightarrow>
                 if z = CHR ''='' then map of_nat (take 2 (dec4 p q r 0))
                 else
                   (case b64_index z of
                      None \<Rightarrow> []
                    | Some s \<Rightarrow> map of_nat (dec4 p q r s) @ b64_prefix_chars cs))
      | _ \<Rightarrow> [])"
| "b64_prefix_chars _ = []"

definition b64_decoded :: "string \<Rightarrow> bytes" where
  "b64_decoded s = b64_prefix_chars (filter (\<lambda>c. c \<noteq> CHR 0x0A \<and> c \<noteq> CHR 0x0D) s)"

lemma b64_prefix_of_decode: "b64_decode_chars s = Some bs \<Longrightarrow> b64_prefix_chars s = bs"
  by (induction s arbitrary: bs rule: b64_decode_chars.induct)
    (auto split: option.splits if_splits)

lemma b64_decoded_of_decode: "b64_decode s = Some bs \<Longrightarrow> b64_decoded s = bs"
  by (simp add: b64_decode_def b64_decoded_def b64_prefix_of_decode)

end
