(* ===== verification/Sha1.thy ===== *)
theory Sha1
  imports Base64
begin

text \<open>
  \<open>crypto/sha1\<close>, as used by \<open>RequestServerStream.Accept\<close>: FIPS 180-4 on bytes. The digest is
  what the websocket handshake of RFC 6455 asks the server to prove it read the client's key.
\<close>

type_synonym sha_state = "u32 \<times> u32 \<times> u32 \<times> u32 \<times> u32"

definition sha1_init :: sha_state where
  "sha1_init = (0x67452301, 0xEFCDAB89, 0x98BADCFE, 0x10325476, 0xC3D2E1F0)"

definition be32 :: "bytes \<Rightarrow> u32" where
  "be32 bs = foldl (\<lambda>w b. push_bit 8 w OR ucast b) 0 bs"

definition rotl :: "nat \<Rightarrow> u32 \<Rightarrow> u32" where
  "rotl k w = push_bit k w OR drop_bit (32 - k) w"

definition put_uint32 :: "u32 \<Rightarrow> bytes" where
  "put_uint32 w = map (\<lambda>i. ucast (drop_bit (8 * i) w)) [3, 2, 1, 0]"

definition put_uint64 :: "u64 \<Rightarrow> bytes" where
  "put_uint64 w = map (\<lambda>i. ucast (drop_bit (8 * i) w)) [7, 6, 5, 4, 3, 2, 1, 0]"

text \<open>Padding: a one bit, zeros up to 56 modulo 64, the length in bits.\<close>

definition sha1_pad :: "bytes \<Rightarrow> bytes" where
  "sha1_pad m =
     m @ [0x80] @ replicate ((119 - length m mod 64) mod 64) 0 @ put_uint64 (8 * of_nat (length m))"

fun blocks64 :: "bytes \<Rightarrow> nat \<Rightarrow> bytes list" where
  "blocks64 m 0 = []"
| "blocks64 m (Suc k) = take 64 m # blocks64 (drop 64 m) k"

text \<open>The schedule as a sliding window: the next word of the last sixteen.\<close>

definition next_word :: "u32 list \<Rightarrow> u32" where
  "next_word ws = rotl 1 ((ws ! 13) XOR (ws ! 8) XOR (ws ! 2) XOR (ws ! 0))"

definition sha1_f :: "nat \<Rightarrow> u32 \<Rightarrow> u32 \<Rightarrow> u32 \<Rightarrow> u32" where
  "sha1_f t b c d =
     (if t < 20 then (b AND c) OR (NOT b AND d)
      else if t < 40 then b XOR c XOR d
      else if t < 60 then (b AND c) OR (b AND d) OR (c AND d)
      else b XOR c XOR d)"

definition sha1_k :: "nat \<Rightarrow> u32" where
  "sha1_k t = (if t < 20 then 0x5A827999 else if t < 40 then 0x6ED9EBA1
               else if t < 60 then 0x8F1BBCDC else 0xCA62C1D6)"

fun sha1_rounds :: "nat list \<Rightarrow> u32 list \<Rightarrow> sha_state \<Rightarrow> sha_state" where
  "sha1_rounds [] ws s = s"
| "sha1_rounds (t # ts) ws (a, b, c, d, e) =
     sha1_rounds ts (tl ws @ [next_word ws])
       (rotl 5 a + sha1_f t b c d + e + hd ws + sha1_k t, a, rotl 30 b, c, d)"

fun words_of :: "bytes \<Rightarrow> nat \<Rightarrow> u32 list" where
  "words_of m 0 = []"
| "words_of m (Suc k) = be32 (take 4 m) # words_of (drop 4 m) k"

definition sha1_block :: "sha_state \<Rightarrow> bytes \<Rightarrow> sha_state" where
  "sha1_block s m =
     (case (s, sha1_rounds [0..<80] (words_of m 16) s) of
        ((a, b, c, d, e), (a', b', c', d', e')) \<Rightarrow> (a + a', b + b', c + c', d + d', e + e'))"

definition sha1 :: "bytes \<Rightarrow> bytes" where
  "sha1 m =
     (let p = sha1_pad m in
      case foldl sha1_block sha1_init (blocks64 p (length p div 64)) of
        (a, b, c, d, e) \<Rightarrow> concat (map put_uint32 [a, b, c, d, e]))"

lemma length_sha1: "length (sha1 m) = 20"
  by (simp add: sha1_def Let_def put_uint32_def split: prod.splits)

end
