(* ===== verification/QuicStream.thy ===== *)
theory QuicStream
  imports NetConn Sha1
begin

text \<open>
  \<open>src/server/cfd/stream.go\<close> and \<open>src/server/cfd/protocol.go\<close>: the QUIC stream that carries one websocket.
  \<open>SafeStreamCloser\<close> wraps the stream of the QUIC library, \<open>nopCloserReadWriter\<close> keeps the handler from
  closing it, and \<open>RequestServerStream.Accept\<close> reads the connect request and answers it. Cap'n Proto is
  outside the repository: its entry points are a record of functions.
\<close>

section \<open>SafeStreamCloser\<close>

text \<open>
  A stream of the QUIC library: its bytes, the results its deadline setters and \<open>Close\<close> will have
  (success when exhausted), and the control calls made so far, in order.
\<close>

datatype stream_call =
    CallSetWriteDeadline int
  | CallSetDeadline int
  | CallCancelWrite nat
  | CallCancelRead nat
  | CallClose

text \<open>\<open>qs_fin\<close>: the end of the stream comes in one frame with the last data, and is reported with it.\<close>

record quic_stream =
  qs_conn :: os_conn
  qs_fin :: bool
  qs_dl :: "go_error option list"
  qs_cl :: "go_error option list"
  qs_calls :: "stream_call list"

definition next_result :: "go_error option list \<Rightarrow> go_error option \<times> go_error option list" where
  "next_result rs = (case rs of [] \<Rightarrow> (None, []) | r # rs' \<Rightarrow> (r, rs'))"

definition quic_read :: "quic_stream reader" where
  "quic_read n q =
     (case os_read n (qs_conn q) of
        (ReadRet d None, c) \<Rightarrow>
          (case oc_in c of
             InErr e # es \<Rightarrow>
               if qs_fin q \<and> e = ErrEOF then (ReadRet d (Some ErrEOF), q\<lparr>qs_conn := c\<lparr>oc_in := es\<rparr>\<rparr>)
               else (ReadRet d None, q\<lparr>qs_conn := c\<rparr>)
           | _ \<Rightarrow> (ReadRet d None, q\<lparr>qs_conn := c\<rparr>))
      | (r, c) \<Rightarrow> (r, q\<lparr>qs_conn := c\<rparr>))"

definition qs_call :: "stream_call \<Rightarrow> quic_stream \<Rightarrow> quic_stream" where
  "qs_call k q = q\<lparr>qs_calls := qs_calls q @ [k]\<rparr>"

definition qs_deadline :: "stream_call \<Rightarrow> quic_stream \<Rightarrow> go_error option \<times> quic_stream" where
  "qs_deadline k q =
     (case next_result (qs_dl q) of (r, rs) \<Rightarrow> (r, (qs_call k q)\<lparr>qs_dl := rs\<rparr>))"

definition qs_close :: "quic_stream \<Rightarrow> go_error option \<times> quic_stream" where
  "qs_close q =
     (case next_result (qs_cl q) of (r, rs) \<Rightarrow> (r, (qs_call CallClose q)\<lparr>qs_cl := rs\<rparr>))"

record safe_stream =
  ss_stream :: quic_stream
  ss_writeTimeout :: int
  ss_closing :: bool
  ss_out :: "string list" \<comment> \<open>lines given to \<open>println\<close>\<close>

definition SafeStreamCloser_Read :: "safe_stream reader" where
  "SafeStreamCloser_Read n s =
     (case quic_read n (ss_stream s) of (r, q) \<Rightarrow> (r, s\<lparr>ss_stream := q\<rparr>))"

text \<open>
  \<open>errors.Is(netErr, &idleTimeoutError)\<close> compares with a value of the QUIC library; the outcome of
  that comparison is the parameter \<open>is_idle\<close>.
\<close>

definition handleWriteError :: "(go_error \<Rightarrow> bool) \<Rightarrow> go_error \<Rightarrow> safe_stream \<Rightarrow> safe_stream" where
  "handleWriteError is_idle e s =
     (if ss_closing s then s
      else case errors_as_net e of
             Some True \<Rightarrow>
               (let s1 = (if \<not> is_idle e
                          then s\<lparr>ss_out := ss_out s @ [''Closing quic stream due to timeout while writing'']\<rparr>
                          else s)
                in s1\<lparr>ss_stream := qs_call (CallCancelWrite 0) (ss_stream s1)\<rparr>)
           | _ \<Rightarrow> s)"

definition SafeStreamCloser_Write :: "(go_error \<Rightarrow> bool) \<Rightarrow> int \<Rightarrow> safe_stream writer" where
  "SafeStreamCloser_Write is_idle now p s =
     (let s1 =
        (if ss_writeTimeout s > 0
         then (case qs_deadline (CallSetWriteDeadline (now + ss_writeTimeout s)) (ss_stream s) of
                 (None, q) \<Rightarrow> s\<lparr>ss_stream := q\<rparr>
               | (Some e, q) \<Rightarrow>
                   s\<lparr>ss_stream := q,
                     ss_out := ss_out s @ [''Error setting write deadline for QUIC stream'']\<rparr>)
         else s)
      in case os_write p (qs_conn (ss_stream s1)) of
           ((nBytes, er), c) \<Rightarrow>
             (let s2 = s1\<lparr>ss_stream := (ss_stream s1)\<lparr>qs_conn := c\<rparr>\<rparr> in
              case er of
                None \<Rightarrow> ((nBytes, None), s2)
              | Some e \<Rightarrow> ((nBytes, Some e), handleWriteError is_idle e s2)))"

definition SafeStreamCloser_Close :: "int \<Rightarrow> safe_stream \<Rightarrow> go_error option \<times> safe_stream" where
  "SafeStreamCloser_Close now s =
     (let s1 = s\<lparr>ss_closing := True\<rparr>;
          q1 = snd (qs_deadline (CallSetWriteDeadline now) (ss_stream s1));
          q2 = qs_call (CallCancelRead 0) q1
      in case qs_close q2 of (r, q3) \<Rightarrow> (r, s1\<lparr>ss_stream := q3\<rparr>))"

definition SafeStreamCloser_CloseWrite :: "safe_stream \<Rightarrow> go_error option \<times> safe_stream" where
  "SafeStreamCloser_CloseWrite s =
     (case qs_close (ss_stream s) of (r, q) \<Rightarrow> (r, s\<lparr>ss_stream := q\<rparr>))"

definition SafeStreamCloser_SetDeadline :: "int \<Rightarrow> safe_stream \<Rightarrow> go_error option \<times> safe_stream" where
  "SafeStreamCloser_SetDeadline t s =
     (case qs_deadline (CallSetDeadline t) (ss_stream s) of (r, q) \<Rightarrow> (r, s\<lparr>ss_stream := q\<rparr>))"

section \<open>nopCloserReadWriter\<close>

record nop_stream =
  np_inner :: safe_stream
  np_sawEOF :: bool
  np_closed :: u32

definition nop_Read :: "nop_stream reader" where
  "nop_Read n np =
     (if np_sawEOF np then (ReadRet [] (Some ErrEOF), np)
      else if np_closed np > 0 then (ReadRet [] (Some (ErrText ''closed by handler'')), np)
      else case SafeStreamCloser_Read n (np_inner np) of
             (ReadRet d er, s) \<Rightarrow>
               (ReadRet d er,
                (if er = Some ErrEOF then np\<lparr>np_inner := s, np_sawEOF := True\<rparr> else np\<lparr>np_inner := s\<rparr>))
           | (ReadBlock, s) \<Rightarrow> (ReadBlock, np\<lparr>np_inner := s\<rparr>))"

definition nop_Close :: "nop_stream \<Rightarrow> nop_stream" where
  "nop_Close np = np\<lparr>np_closed := 1\<rparr>"

text \<open>The embedded \<open>ReadWriteCloser\<close> supplies \<open>Write\<close>.\<close>

definition nop_Write :: "(go_error \<Rightarrow> bool) \<Rightarrow> int \<Rightarrow> nop_stream writer" where
  "nop_Write is_idle now p np =
     (case SafeStreamCloser_Write is_idle now p (np_inner np) of (r, s) \<Rightarrow> (r, np\<lparr>np_inner := s\<rparr>))"

section \<open>The stream preamble\<close>

definition dataStreamProtocolSignature :: bytes where
  "dataStreamProtocolSignature = [0x0A, 0x36, 0xCD, 0x12, 0xA1, 0x3E]"

definition protocolV1 :: string where "protocolV1 = ''01''"
definition protocolVersionLength :: nat where "protocolVersionLength = 2"

text \<open>One read into a two-byte buffer; what was not read stays zero. \<open>None\<close>: the read blocks.\<close>

definition readVersion :: "'c reader \<Rightarrow> 'c \<Rightarrow> (bytes \<times> go_error option) option \<times> 'c" where
  "readVersion rd c =
     (case rd 2 c of
        (ReadBlock, c') \<Rightarrow> (None, c')
      | (ReadRet d er, c') \<Rightarrow> (Some (d @ replicate (2 - length d) 0, er), c'))"

definition writeVersion :: "'c writer \<Rightarrow> 'c \<Rightarrow> go_error option \<times> 'c" where
  "writeVersion wr c =
     (case wr (take protocolVersionLength (string_bytes protocolV1)) c of ((n, er), c') \<Rightarrow> (er, c'))"

definition writeSignature :: "'c writer \<Rightarrow> bytes \<Rightarrow> 'c \<Rightarrow> go_error option \<times> 'c" where
  "writeSignature wr signature c = (case wr signature c of ((n, er), c') \<Rightarrow> (er, c'))"

definition writeDataStreamPreamble :: "'c writer \<Rightarrow> 'c \<Rightarrow> go_error option \<times> 'c" where
  "writeDataStreamPreamble wr c =
     (case writeSignature wr dataStreamProtocolSignature c of
        (Some e, c') \<Rightarrow> (Some e, c')
      | (None, c') \<Rightarrow> writeVersion wr c')"

section \<open>Connect request and response\<close>

record stream_metadata =
  sm_Key :: string
  sm_Val :: string

record connect_request =
  cr_Dest :: string
  cr_Type :: u16
  cr_Metadata :: "stream_metadata list"

fun lookup_metadata :: "string \<Rightarrow> stream_metadata list \<Rightarrow> string" where
  "lookup_metadata k [] = []"
| "lookup_metadata k (m # ms) = (if sm_Key m = k then sm_Val m else lookup_metadata k ms)"

definition WebsocketKey :: "connect_request \<Rightarrow> string" where
  "WebsocketKey r = lookup_metadata ''HttpHeader:Sec-Websocket-Key'' (cr_Metadata r)"

definition Network :: "connect_request \<Rightarrow> string" where
  "Network r = lookup_metadata ''HttpHeader:Forward-Proto'' (cr_Metadata r)"

definition Address :: "connect_request \<Rightarrow> string" where
  "Address r = lookup_metadata ''HttpHeader:Forward-Dest'' (cr_Metadata r)"

record connect_response =
  cs_Error :: string
  cs_Metadata :: "stream_metadata list"

text \<open>
  The Cap'n Proto library: \<open>'m\<close> its messages, \<open>'t\<close> its structs, \<open>'c\<close> the stream. \<open>Decode\<close> may block
  (\<open>None\<close>); \<open>Insert\<close> fills the message the root belongs to.
\<close>

record ('c, 'm, 't) capnp_lib =
  cp_Decode :: "'c \<Rightarrow> (go_error + 'm) option \<times> 'c"
  cp_RootPtr :: "'m \<Rightarrow> 't \<times> go_error option"
  cp_Extract :: "nat \<Rightarrow> 't \<Rightarrow> go_error + connect_request"
  cp_NewMessage :: "go_error + 'm"
  cp_NewRootStruct :: "'m \<Rightarrow> nat \<Rightarrow> nat \<Rightarrow> 't \<times> go_error option"
  cp_Insert :: "nat \<Rightarrow> 't \<Rightarrow> connect_response \<Rightarrow> 'm \<Rightarrow> go_error + 'm"
  cp_Encode :: "'m \<Rightarrow> 'c \<Rightarrow> go_error option \<times> 'c"

definition FromPogs :: "('c, 'm, 't) capnp_lib \<Rightarrow> 'm \<Rightarrow> go_error + connect_request" where
  "FromPogs lib msg =
     (case cp_RootPtr lib msg of
        (root, Some e) \<Rightarrow> Inl e
      | (root, None) \<Rightarrow> cp_Extract lib 0xc47116a1045e4061 root)"

definition ToPogs :: "('c, 'm, 't) capnp_lib \<Rightarrow> connect_response \<Rightarrow> go_error + 'm" where
  "ToPogs lib r =
     (case cp_NewMessage lib of
        Inl e \<Rightarrow> Inl e
      | Inr msg \<Rightarrow>
          (case cp_NewRootStruct lib msg 0 2 of
             (root, Some e) \<Rightarrow> Inl e
           | (root, None) \<Rightarrow> cp_Insert lib 0xb1032ec91cef8727 root r msg))"

definition ReadConnectRequestData ::
    "'c reader \<Rightarrow> ('c, 'm, 't) capnp_lib \<Rightarrow> 'c \<Rightarrow> (go_error + connect_request) option \<times> 'c" where
  "ReadConnectRequestData rd lib c =
     (case readVersion rd c of
        (None, c1) \<Rightarrow> (None, c1)
      | (Some (v, Some e), c1) \<Rightarrow> (Some (Inl e), c1)
      | (Some (v, None), c1) \<Rightarrow>
          (case cp_Decode lib c1 of
             (None, c2) \<Rightarrow> (None, c2)
           | (Some (Inl e), c2) \<Rightarrow> (Some (Inl e), c2)
           | (Some (Inr msg), c2) \<Rightarrow> (Some (FromPogs lib msg), c2)))"

definition WriteConnectResponseData ::
    "'c writer \<Rightarrow> ('c, 'm, 't) capnp_lib \<Rightarrow> stream_metadata list \<Rightarrow> 'c \<Rightarrow> go_error option \<times> 'c" where
  "WriteConnectResponseData wr lib md c =
     (case ToPogs lib \<lparr>cs_Error = [], cs_Metadata = md\<rparr> of
        Inl e \<Rightarrow> (Some e, c)
      | Inr msg \<Rightarrow>
          (case writeDataStreamPreamble wr c of
             (Some e, c1) \<Rightarrow> (Some e, c1)
           | (None, c1) \<Rightarrow> cp_Encode lib msg c1))"

definition websocket_guid :: string where
  "websocket_guid = ''258EAFA5-E914-47DA-95CA-C5AB0DC85B11''"

definition ws_accept :: "string \<Rightarrow> string" where
  "ws_accept key = b64_encode (sha1 (string_bytes key @ string_bytes websocket_guid))"

definition accept_metadata :: "connect_request \<Rightarrow> stream_metadata list" where
  "accept_metadata r =
     [\<lparr>sm_Key = ''HttpStatus'', sm_Val = ''101''\<rparr>,
      \<lparr>sm_Key = ''HttpHeader:Connection'', sm_Val = ''Upgrade''\<rparr>,
      \<lparr>sm_Key = ''HttpHeader:Sec-Websocket-Accept'', sm_Val = ws_accept (WebsocketKey r)\<rparr>,
      \<lparr>sm_Key = ''HttpHeader:Upgrade'', sm_Val = ''websocket''\<rparr>]"

text \<open>\<open>Accept\<close> returns the network, the address and the error; the outer \<open>None\<close>: still waiting.\<close>

definition Accept ::
    "'c reader \<Rightarrow> 'c writer \<Rightarrow> ('c, 'm, 't) capnp_lib \<Rightarrow> 'c
     \<Rightarrow> (string \<times> string \<times> go_error option) option \<times> 'c" where
  "Accept rd wr lib c =
     (case ReadConnectRequestData rd lib c of
        (None, c1) \<Rightarrow> (None, c1)
      | (Some (Inl e), c1) \<Rightarrow> (Some ([], [], Some e), c1)
      | (Some (Inr request), c1) \<Rightarrow>
          (case WriteConnectResponseData wr lib (accept_metadata request) c1 of
             (None, c2) \<Rightarrow> (Some (Network request, Address request, None), c2)
           | (Some e, c2) \<Rightarrow> (Some ([], [], Some e), c2)))"

section \<open>The wrappers as connections\<close>

lemma qs_simps [simp]:
  "qs_conn (qs_call k q) = qs_conn q" "qs_conn (snd (qs_deadline k q)) = qs_conn q"
  "qs_conn (snd (qs_close q)) = qs_conn q"
  by (simp_all add: qs_call_def qs_deadline_def qs_close_def split: prod.split)

lemma qs_deadline_conn: "qs_deadline k q = (r, q') \<Longrightarrow> qs_conn q' = qs_conn q"
  by (metis qs_simps(2) snd_conv)

definition ss_conn :: "safe_stream \<Rightarrow> os_conn" where
  "ss_conn s = qs_conn (ss_stream s)"

definition np_conn :: "nop_stream \<Rightarrow> os_conn" where
  "np_conn np = ss_conn (np_inner np)"

lemma handleWriteError_conn [simp]: "ss_conn (handleWriteError i e s) = ss_conn s"
  by (simp add: handleWriteError_def ss_conn_def Let_def split: option.split bool.split)

lemma safe_write_conn:
  "SafeStreamCloser_Write i now p s = (r, s') \<Longrightarrow> os_write p (ss_conn s) = (r, ss_conn s')"
  by (auto simp: SafeStreamCloser_Write_def Let_def ss_conn_def handleWriteError_conn [unfolded ss_conn_def]
      dest: qs_deadline_conn split: if_splits prod.splits option.splits)

text \<open>
  A read hands out the next of the pending bytes, also when it reports the end with them; it makes no
  call on the stream's control side.
\<close>

lemma quic_read_calls: "qs_calls (snd (quic_read n q)) = qs_calls q"
  by (simp add: quic_read_def split: prod.split read_result.split option.split list.split read_event.split)

lemma safe_read_pending:
  assumes "0 < n" "SafeStreamCloser_Read n s = (ReadRet d er, s')"
  shows "(er = None \<or> er = Some ErrEOF \<longrightarrow> os_pending (ss_conn s) = d @ (if er = None then os_pending (ss_conn s') else []))"
proof -
  obtain res c where r: "os_read n (qs_conn (ss_stream s)) = (res, c)" by fastforce
  show ?thesis
  proof (cases res)
    case (ReadRet d1 er1)
    show ?thesis
    proof (cases er1)
      case None
      note p = os_reader.read_pending [OF assms(1) r [unfolded ReadRet None]]
      show ?thesis
        using assms(2) r ReadRet None p
        by (auto simp: SafeStreamCloser_Read_def quic_read_def ss_conn_def os_pending_def
            split: list.splits read_event.splits if_splits)
    next
      case (Some e)
      note p = os_reader.read_error [OF assms(1) r [unfolded ReadRet Some]]
      show ?thesis
        using assms(2) r ReadRet Some p by (auto simp: SafeStreamCloser_Read_def quic_read_def ss_conn_def)
    qed
  qed (use assms(2) r in \<open>simp add: SafeStreamCloser_Read_def quic_read_def\<close>)
qed

interpretation safe_writer:
  writer_view os_write oc_out "\<lambda>_. True" "\<lambda>c. oc_wr c = []" "SafeStreamCloser_Write i now" ss_conn
  for i now
  by unfold_locales (rule safe_write_conn)

interpretation nop_writer:
  writer_view os_write oc_out "\<lambda>_. True" "\<lambda>c. oc_wr c = []" "nop_Write i now" np_conn
  for i now
  by unfold_locales (auto simp: nop_Write_def np_conn_def dest!: safe_write_conn split: prod.splits)

section \<open>Facts on the operations\<close>

lemma nop_read_eof:
  assumes "nop_Read n np = (ReadRet d (Some ErrEOF), np')"
  shows "nop_Read k np' = (ReadRet [] (Some ErrEOF), np')"
  using assms by (auto simp: nop_Read_def split: if_splits prod.splits read_result.splits)

lemma preamble_reliable:
  assumes "oc_wr (np_conn np) = []"
  shows "\<exists>np'. writeDataStreamPreamble (nop_Write i now) np = (None, np') \<and>
    oc_out (np_conn np') = oc_out (np_conn np) @ dataStreamProtocolSignature @ string_bytes protocolV1 \<and>
    oc_wr (np_conn np') = []"
proof -
  let ?v = "take protocolVersionLength (string_bytes protocolV1)"
  obtain np1 where w1: "nop_Write i now dataStreamProtocolSignature np =
      ((length dataStreamProtocolSignature, None), np1)" and r1: "oc_wr (np_conn np1) = []"
    using nop_writer.outer_reliable assms by blast
  obtain np2 where w2: "nop_Write i now ?v np1 = ((length ?v, None), np2)"
    and r2: "oc_wr (np_conn np2) = []"
    using nop_writer.outer_reliable r1 by blast
  have "?v = string_bytes protocolV1" by (simp add: protocolVersionLength_def protocolV1_def string_bytes_def)
  with w1 w2 r2 nop_writer.viewed.write_sent [OF _ w1] nop_writer.viewed.write_sent [OF _ w2]
  show ?thesis by (simp add: writeDataStreamPreamble_def writeSignature_def writeVersion_def)
qed

lemma lookup_metadata_append:
  "lookup_metadata k (xs @ ys) =
     (if \<exists>m \<in> set xs. sm_Key m = k then lookup_metadata k xs else lookup_metadata k ys)"
  by (induction xs) auto

lemma length_ws_accept: "length (ws_accept k) = 28"
  by (simp add: ws_accept_def length_b64_encode length_sha1)

text \<open>What a write leaves of the control calls: its deadline, and a \<open>CancelWrite\<close> after a timeout.\<close>

definition cancels :: "safe_stream \<Rightarrow> nat" where
  "cancels s = length (filter (\<lambda>k. case k of CallCancelWrite _ \<Rightarrow> True | _ \<Rightarrow> False) (qs_calls (ss_stream s)))"

lemma qs_deadline_calls: "qs_deadline k q = (r, q') \<Longrightarrow> qs_calls q' = qs_calls q @ [k]"
  by (auto simp: qs_deadline_def qs_call_def split: prod.splits)

lemma handleWriteError_cancels:
  "cancels (handleWriteError i e s) =
     cancels s + (if \<not> ss_closing s \<and> errors_as_net e = Some True then 1 else 0)"
  "ss_closing (handleWriteError i e s) = ss_closing s"
  by (simp_all add: handleWriteError_def cancels_def qs_call_def Let_def split: option.split bool.split)

lemma safe_write_cancels:
  assumes "SafeStreamCloser_Write i now p s = ((k, er), s')"
  shows "cancels s' = cancels s +
      (if \<not> ss_closing s \<and> (\<exists>e. er = Some e \<and> errors_as_net e = Some True) then 1 else 0) \<and>
    ss_closing s' = ss_closing s"
proof -
  define s1 where "s1 = (if ss_writeTimeout s > 0
         then (case qs_deadline (CallSetWriteDeadline (now + ss_writeTimeout s)) (ss_stream s) of
                 (None, q) \<Rightarrow> s\<lparr>ss_stream := q\<rparr>
               | (Some e, q) \<Rightarrow>
                   s\<lparr>ss_stream := q,
                     ss_out := ss_out s @ [''Error setting write deadline for QUIC stream'']\<rparr>)
         else s)"
  have s1: "cancels s1 = cancels s" "ss_closing s1 = ss_closing s"
    by (auto simp: s1_def cancels_def split: prod.splits option.splits dest: qs_deadline_calls)
  obtain c where "s' = (case er of None \<Rightarrow> s1\<lparr>ss_stream := (ss_stream s1)\<lparr>qs_conn := c\<rparr>\<rparr>
      | Some e \<Rightarrow> handleWriteError i e (s1\<lparr>ss_stream := (ss_stream s1)\<lparr>qs_conn := c\<rparr>\<rparr>))"
    using assms unfolding SafeStreamCloser_Write_def s1_def [symmetric]
    by (auto simp: Let_def split: prod.splits option.splits)
  moreover have "cancels (s1\<lparr>ss_stream := (ss_stream s1)\<lparr>qs_conn := c\<rparr>\<rparr>) = cancels s1"
    by (simp add: cancels_def)
  ultimately show ?thesis
    using s1 by (auto simp: handleWriteError_cancels split: option.splits)
qed

text \<open>Everything the goroutines of one stream may do with it, in any order.\<close>

inductive safe_step :: "safe_stream \<Rightarrow> safe_stream \<Rightarrow> bool" where
  sread: "safe_step s (snd (SafeStreamCloser_Read n s))"
| swrite: "safe_step s (snd (SafeStreamCloser_Write i now p s))"
| sclose: "safe_step s (snd (SafeStreamCloser_Close now s))"
| sclosew: "safe_step s (snd (SafeStreamCloser_CloseWrite s))"
| sdeadline: "safe_step s (snd (SafeStreamCloser_SetDeadline t s))"

inductive_cases safe_stepE: "safe_step s s'"

lemma close_calls:
  "SafeStreamCloser_Close now s = (r, s') \<Longrightarrow>
    qs_calls (ss_stream s') =
      qs_calls (ss_stream s) @ [CallSetWriteDeadline now, CallCancelRead 0, CallClose] \<and> ss_closing s'"
  by (auto simp: SafeStreamCloser_Close_def qs_close_def qs_deadline_def qs_call_def Let_def
      split: prod.splits)

lemma safe_step_closing:
  assumes "safe_step s s'" "ss_closing s"
  shows "ss_closing s' \<and> cancels s' = cancels s"
  using assms(1)
proof cases
  case (swrite i now p)
  obtain k er s1 where w: "SafeStreamCloser_Write i now p s = ((k, er), s1)" by (metis prod.exhaust)
  with safe_write_cancels [OF w] assms(2) swrite show ?thesis by simp
next
  case (sclose now)
  then show ?thesis
    using close_calls [of now s] by (simp add: cancels_def prod_eq_iff)
next
  case (sread n)
  have "qs_calls q = qs_calls (ss_stream s)" if "quic_read n (ss_stream s) = (r, q)" for r q
    using quic_read_calls [of n "ss_stream s"] that by simp
  then show ?thesis using sread assms(2) by (auto simp: SafeStreamCloser_Read_def cancels_def split: prod.splits)
qed (use assms(2) in \<open>auto simp: SafeStreamCloser_CloseWrite_def
      SafeStreamCloser_SetDeadline_def cancels_def qs_close_def qs_call_def
      dest: qs_deadline_calls split: prod.splits\<close>)

interpretation closing_stream:
  invariant_system "\<lambda>s. ss_closing s \<and> cancels s = k" safe_step "\<lambda>s. ss_closing s \<and> cancels s = k"
  for k
  by unfold_locales (auto dest: safe_step_closing)

section \<open>Properties\<close>

text \<open>The documented behaviour of the Cap'n Proto encoder: on a stream that takes what it is
  given, it appends the message's serialisation.\<close>

definition capnp_appends :: "(nop_stream, 'm, 't) capnp_lib \<Rightarrow> ('m \<Rightarrow> bytes) \<Rightarrow> bool" where
  "capnp_appends lib ser \<longleftrightarrow>
     (\<forall>m c. oc_wr (np_conn c) = [] \<longrightarrow>
        (\<exists>c'. cp_Encode lib m c = (None, c') \<and> oc_out (np_conn c') = oc_out (np_conn c) @ ser m))"

text \<open>
  C9. The handshake: when the request can be read and the stream takes the answer, \<open>Accept\<close> answers
  with the data-stream signature, the version and one response that carries status 101 and the
  websocket accept key of the client's key, and returns the network and the address of the request's
  first \<open>Forward-Proto\<close> and \<open>Forward-Dest\<close> headers.
\<close>

theorem accept_handshake:
  assumes "readVersion nop_Read np = (Some (v, None), np1)"
    and "cp_Decode lib np1 = (Some (Inr msg), np2)" and "FromPogs lib msg = Inr req"
    and "ToPogs lib \<lparr>cs_Error = [], cs_Metadata = accept_metadata req\<rparr> = Inr out"
    and "oc_wr (np_conn np2) = []" and "capnp_appends lib ser"
  shows "\<exists>np'. Accept nop_Read (nop_Write i now) lib np =
      (Some (Network req, Address req, None), np') \<and>
    oc_out (np_conn np') = oc_out (np_conn np2) @
      dataStreamProtocolSignature @ string_bytes ''01'' @ ser out \<and>
    lookup_metadata ''HttpStatus'' (accept_metadata req) = ''101'' \<and>
    lookup_metadata ''HttpHeader:Sec-Websocket-Accept'' (accept_metadata req) =
      b64_encode (sha1 (string_bytes (WebsocketKey req @ websocket_guid)))"
proof -
  obtain np3 where p: "writeDataStreamPreamble (nop_Write i now) np2 = (None, np3)"
    "oc_out (np_conn np3) = oc_out (np_conn np2) @ dataStreamProtocolSignature @ string_bytes protocolV1"
    "oc_wr (np_conn np3) = []"
    using preamble_reliable assms(5) by blast
  obtain np4 where "cp_Encode lib out np3 = (None, np4)"
    "oc_out (np_conn np4) = oc_out (np_conn np3) @ ser out"
    using assms(6) p(3) unfolding capnp_appends_def by blast
  with assms p show ?thesis
    by (simp add: Accept_def ReadConnectRequestData_def WriteConnectResponseData_def protocolV1_def
        accept_metadata_def ws_accept_def string_bytes_def)
qed

definition demo_request :: connect_request where
  "demo_request = \<lparr>cr_Dest = [], cr_Type = 1, cr_Metadata =
     [\<lparr>sm_Key = ''HttpHeader:Forward-Dest'', sm_Val = ''1.2.3.4:80''\<rparr>,
      \<lparr>sm_Key = ''HttpHeader:Forward-Proto'', sm_Val = ''tcp''\<rparr>]\<rparr>"

definition demo_stream :: nop_stream where
  "demo_stream = \<lparr>np_inner = \<lparr>ss_stream = \<lparr>qs_conn = os_open [InData [48, 49]] [], qs_fin = False, qs_dl = [], qs_cl = [],
     qs_calls = []\<rparr>, ss_writeTimeout = 0, ss_closing = False, ss_out = []\<rparr>,
     np_sawEOF = False, np_closed = 0\<rparr>"

definition np_append :: "bytes \<Rightarrow> nop_stream \<Rightarrow> nop_stream" where
  "np_append d np =
     (let s = np_inner np; q = ss_stream s; c = qs_conn q
      in np\<lparr>np_inner := s\<lparr>ss_stream := q\<lparr>qs_conn := c\<lparr>oc_out := oc_out c @ d\<rparr>\<rparr>\<rparr>\<rparr>)"

definition demo_capnp :: "(nop_stream, bytes, bytes) capnp_lib" where
  "demo_capnp = \<lparr>cp_Decode = (\<lambda>c. (Some (Inr [1]), c)), cp_RootPtr = (\<lambda>m. (m, None)),
     cp_Extract = (\<lambda>_ _. Inr demo_request), cp_NewMessage = Inr [], cp_NewRootStruct = (\<lambda>m _ _. (m, None)),
     cp_Insert = (\<lambda>_ _ r _. Inr [of_nat (length (cs_Metadata r))]),
     cp_Encode = (\<lambda>m c. (None, np_append m c))\<rparr>"

lemma demo_capnp_appends: "capnp_appends demo_capnp (\<lambda>m. m)"
  by (simp add: capnp_appends_def demo_capnp_def np_append_def np_conn_def ss_conn_def Let_def)

theorem accept_handshake_witness:
  "\<exists>np'. Accept nop_Read (nop_Write (\<lambda>_. False) 0) demo_capnp demo_stream =
      (Some (''tcp'', ''1.2.3.4:80'', None), np') \<and>
    oc_out (np_conn np') = [0x0A, 0x36, 0xCD, 0x12, 0xA1, 0x3E, 0x30, 0x31, 4]"
proof -
  let ?np1 = "snd (nop_Read 2 demo_stream)"
  note d = demo_capnp_def demo_stream_def os_open_def nop_Read_def SafeStreamCloser_Read_def
    quic_read_def os_read_def np_conn_def ss_conn_def
  have 1: "readVersion nop_Read demo_stream = (Some ([48, 49], None), ?np1)"
    by (simp add: readVersion_def d)
  have 2: "cp_Decode demo_capnp ?np1 = (Some (Inr [1]), ?np1)" by (simp add: demo_capnp_def)
  have 3: "FromPogs demo_capnp [1] = Inr demo_request" by (simp add: FromPogs_def demo_capnp_def)
  have 4: "ToPogs demo_capnp \<lparr>cs_Error = [], cs_Metadata = accept_metadata demo_request\<rparr> = Inr [4]"
    by (simp add: ToPogs_def demo_capnp_def accept_metadata_def)
  have 5: "oc_wr (np_conn ?np1) = []" "oc_out (np_conn ?np1) = []" by (simp_all add: d)
  have n: "Network demo_request = ''tcp''" "Address demo_request = ''1.2.3.4:80''"
    by (simp_all add: Network_def Address_def demo_request_def)
  have b: "string_bytes ''01'' = [0x30, 0x31]" by code_simp
  from accept_handshake [OF 1 2 3 4 5(1) demo_capnp_appends, of "\<lambda>_. False" 0] show ?thesis
    unfolding n b 5(2) by (auto simp: dataStreamProtocolSignature_def)
qed

text \<open>
  C30. A failed write cancels the write side exactly when the stream is not being closed and the
  error is a timeout of the network, wrapped or not; and once \<open>Close\<close> has begun, no later operation
  cancels a write, whatever the other goroutines do.
\<close>

theorem safe_stream_cancel:
  "(\<forall>k er s'. SafeStreamCloser_Write i now p s = ((k, er), s') \<longrightarrow>
      cancels s' = cancels s +
        (if \<not> ss_closing s \<and> (\<exists>e. er = Some e \<and> errors_as_net e = Some True) then 1 else 0)) \<and>
   (\<forall>t. safe_step\<^sup>*\<^sup>* (snd (SafeStreamCloser_Close now s)) t \<longrightarrow>
      ss_closing t \<and> cancels t = cancels s)"
proof -
  have "ss_closing (snd (SafeStreamCloser_Close now s))"
    and "cancels (snd (SafeStreamCloser_Close now s)) = cancels s"
    using close_calls [of now s] by (simp_all add: cancels_def prod_eq_iff)
  then show ?thesis
    using safe_write_cancels [of i now p s] closing_stream.steps_inv by blast
qed

definition demo_failing :: safe_stream where
  "demo_failing = \<lparr>ss_stream = \<lparr>qs_conn = os_open [] [OutErr (ErrWrap ''w'' (ErrNet True ''timeout''))],
     qs_fin = False, qs_dl = [], qs_cl = [], qs_calls = []\<rparr>, ss_writeTimeout = 0, ss_closing = False, ss_out = []\<rparr>"

theorem safe_stream_cancel_witness:
  "\<exists>s'. SafeStreamCloser_Write (\<lambda>_. False) 0 [1] demo_failing =
      ((0, Some (ErrWrap ''w'' (ErrNet True ''timeout''))), s') \<and> cancels s' = 1"
proof -
  let ?r = "SafeStreamCloser_Write (\<lambda>_. False) 0 [1] demo_failing"
  have "fst ?r = (0, Some (ErrWrap ''w'' (ErrNet True ''timeout'')))"
    by (simp add: SafeStreamCloser_Write_def demo_failing_def os_open_def os_write_def)
  then have r: "?r = ((0, Some (ErrWrap ''w'' (ErrNet True ''timeout''))), snd ?r)"
    by (metis prod.collapse)
  with safe_stream_cancel [of "\<lambda>_. False" 0 "[1]" demo_failing]
  have "cancels (snd ?r) = cancels demo_failing + (if \<not> ss_closing demo_failing \<and>
      (\<exists>e. Some (ErrWrap ''w'' (ErrNet True ''timeout'')) = Some e \<and> errors_as_net e = Some True) then 1 else 0)"
    by blast
  then show ?thesis using r by (auto simp: demo_failing_def cancels_def)
qed

end
