(* ===== verification/Register.thy ===== *)
theory Register
  imports Prelude
begin

text \<open>
  \<open>src/server/cfd/token.go\<close> and \<open>src/server/cfd/register.go\<close> on the wire: the credentials of a tunnel, the
  parameters \<open>RegisterConnection\<close> writes into its Cap'n Proto call, and the three answers it
  distinguishes. A Cap'n Proto struct is its data bytes and its pointers; allocating one, setting a
  pointer and the call itself can fail, and what the library answers there is an argument.
\<close>

section \<open>Credentials\<close>

text \<open>A secret is nil or a byte slice.\<close>

record tunnel_token =
  tt_AccountTag :: string
  tt_TunnelSecret :: "bytes option"
  tt_TunnelID :: bytes

record credentials =
  cr_AccountTag :: string
  cr_TunnelSecret :: "bytes option"
  cr_TunnelID :: bytes

record tunnel_auth =
  ta_AccountTag :: string
  ta_TunnelSecret :: "bytes option"

definition Credentials_Auth :: "credentials \<Rightarrow> tunnel_auth" where
  "Credentials_Auth c = \<lparr>ta_AccountTag = cr_AccountTag c, ta_TunnelSecret = cr_TunnelSecret c\<rparr>"

definition token_Credentials :: "tunnel_token \<Rightarrow> credentials" where
  "token_Credentials t =
     \<lparr>cr_AccountTag = tt_AccountTag t, cr_TunnelSecret = tt_TunnelSecret t, cr_TunnelID = tt_TunnelID t\<rparr>"

record client_info =
  ci_ClientID :: bytes
  ci_Features :: "string list"
  ci_Version :: string
  ci_Arch :: string

record connection_options =
  co_Client :: client_info
  co_ReplaceExisting :: bool

record connection_details =
  cd_UUID :: bytes
  cd_Location :: string
  cd_RemotelyManaged :: bool

section \<open>Cap'n Proto structs\<close>

text \<open>A pointer is null, a text, data or another struct. Bit \<open>i\<close> of the data section is bit
  \<open>i mod 8\<close> of byte \<open>i div 8\<close>.\<close>

datatype capnp_ptr = PtrNull | PtrText string | PtrData bytes | PtrStruct bytes "capnp_ptr list"

type_synonym capnp_struct = "bytes \<times> capnp_ptr list"

definition new_struct :: "nat \<Rightarrow> nat \<Rightarrow> capnp_struct" where
  "new_struct words ptrs = (replicate (8 * words) 0, replicate ptrs PtrNull)"

definition set_ptr :: "nat \<Rightarrow> capnp_ptr \<Rightarrow> capnp_struct \<Rightarrow> capnp_struct" where
  "set_ptr i p s = (fst s, (snd s)[i := p])"

definition set_uint8 :: "nat \<Rightarrow> byte \<Rightarrow> capnp_struct \<Rightarrow> capnp_struct" where
  "set_uint8 i b s = ((fst s)[i := b], snd s)"

definition set_bit_at :: "nat \<Rightarrow> bool \<Rightarrow> capnp_struct \<Rightarrow> capnp_struct" where
  "set_bit_at i v s =
     ((fst s)[i div 8 := (if v then set_bit (i mod 8) (fst s ! (i div 8))
                          else unset_bit (i mod 8) (fst s ! (i div 8)))], snd s)"

text \<open>The library's setters write a null pointer for an empty text and for nil data.\<close>

definition text_ptr :: "string \<Rightarrow> capnp_ptr" where
  "text_ptr t = (if t = [] then PtrNull else PtrText t)"

definition data_ptr :: "bytes option \<Rightarrow> capnp_ptr" where
  "data_ptr v = (case v of None \<Rightarrow> PtrNull | Some b \<Rightarrow> PtrData b)"

definition to_ptr :: "capnp_struct \<Rightarrow> capnp_ptr" where
  "to_ptr s = PtrStruct (fst s) (snd s)"

section \<open>The parameters of the call\<close>

text \<open>
  \<open>ParamsFunc\<close> on the parameter struct, and its error. The errors it looks at are those of the first
  allocation, of the two setters behind it and of the last one: \<open>lib_err\<close> gives the results of these four
  calls. The other results are dropped by the source.
\<close>

definition register_params :: "(nat \<Rightarrow> go_error option) \<Rightarrow> byte \<Rightarrow> credentials \<Rightarrow> connection_options
    \<Rightarrow> capnp_struct \<Rightarrow> go_error option \<times> capnp_struct" where
  "register_params lib_err connIndex cred opts s =
     (case lib_err 0 of
        Some e \<Rightarrow> (Some e, s)
      | None \<Rightarrow>
          let auth = Credentials_Auth cred;
              authStruct = set_ptr 1 (data_ptr (ta_TunnelSecret auth))
                (set_ptr 0 (text_ptr (ta_AccountTag auth)) (new_struct 0 2)) in
          (case lib_err 1 of
             Some e \<Rightarrow> (Some e, s)
           | None \<Rightarrow>
               let s1 = set_ptr 0 (to_ptr authStruct) s in
               (case lib_err 2 of
                  Some e \<Rightarrow> (Some e, s1)
                | None \<Rightarrow>
                    let s2 = set_uint8 0 connIndex (set_ptr 1 (data_ptr (Some (cr_TunnelID cred))) s1);
                        c = co_Client opts;
                        clientStruct = set_ptr 3 (text_ptr (ci_Arch c)) (set_ptr 2 (text_ptr (ci_Version c))
                          (set_ptr 0 (data_ptr (Some (ci_ClientID c))) (new_struct 0 4)));
                        optionsStruct = set_bit_at 1 (co_ReplaceExisting opts)
                          (set_ptr 0 (to_ptr clientStruct) (new_struct 1 2)) in
                    (case lib_err 3 of
                       Some e \<Rightarrow> (Some e, s2)
                     | None \<Rightarrow> (None, set_ptr 2 (to_ptr optionsStruct) s2)))))"

section \<open>The answer\<close>

text \<open>
  What the library gives for the answer's struct: its tag, and the result of reading its first
  pointer, a text or a struct with its own reads.
\<close>

record detail_struct =
  ds_uuidPtr :: "go_error + bytes"
  ds_locPtr :: "go_error + string"
  ds_managed :: bool

record response_struct =
  rs_tag :: u16
  rs_ptr :: "go_error option"
  rs_text :: string
  rs_details :: detail_struct

text \<open>\<open>uuid.FromBytes\<close> accepts sixteen bytes.\<close>

definition uuid_FromBytes :: "bytes \<Rightarrow> go_error + bytes" where
  "uuid_FromBytes b = (if length b = 16 then Inr b else Inl (ErrText ''invalid UUID (got bytes)''))"

definition UnmarshalCapnproto :: "detail_struct \<Rightarrow> go_error + connection_details" where
  "UnmarshalCapnproto s =
     (case ds_uuidPtr s of
        Inl e \<Rightarrow> Inl e
      | Inr b \<Rightarrow>
          (case uuid_FromBytes b of
             Inl e \<Rightarrow> Inl e
           | Inr u \<Rightarrow>
               (case ds_locPtr s of
                  Inl e \<Rightarrow> Inl e
                | Inr l \<Rightarrow> Inr \<lparr>cd_UUID = u, cd_Location = l, cd_RemotelyManaged = ds_managed s\<rparr>)))"

text \<open>
  \<open>RegisterConnection\<close>: the call's answer, from a server that is given the index, the credentials and
  the options in the layout above.
\<close>

definition RegisterConnection ::
    "(nat \<Rightarrow> go_error option) \<Rightarrow> (capnp_struct \<Rightarrow> go_error + response_struct) \<Rightarrow> byte \<Rightarrow> credentials \<Rightarrow> connection_options
     \<Rightarrow> go_error + connection_details" where
  "RegisterConnection lib_err edge connIndex cred opts =
     (case register_params lib_err connIndex cred opts (new_struct 1 3) of
        (Some e, _) \<Rightarrow> Inl e
      | (None, params) \<Rightarrow>
          (case edge params of
             Inl e \<Rightarrow> Inl e
           | Inr resp \<Rightarrow>
               (case rs_ptr resp of
                  Some e \<Rightarrow> Inl e
                | None \<Rightarrow>
                    if rs_tag resp = 1 then UnmarshalCapnproto (rs_details resp)
                    else if rs_tag resp = 0 then Inl (ErrText (rs_text resp))
                    else Inl (ErrText (''unknown result tag: '' @ itoa (unat (rs_tag resp)))))))"

section \<open>The message of the call\<close>

text \<open>
  What \<open>ParamsFunc\<close> fills in, pointer by pointer: one data word with the connection index in its first
  byte, and three pointers. The first is the struct of the account and the secret, the second the
  tunnel's ID, the third the options: one data word with the flag in its bit 1 and the client's
  struct, whose second pointer (the features) stays null.
\<close>

definition auth_ptr :: "credentials \<Rightarrow> capnp_ptr" where
  "auth_ptr cred = PtrStruct [] [text_ptr (cr_AccountTag cred), data_ptr (cr_TunnelSecret cred)]"

definition options_ptr :: "connection_options \<Rightarrow> capnp_ptr" where
  "options_ptr opts =
     PtrStruct [if co_ReplaceExisting opts then 2 else 0, 0, 0, 0, 0, 0, 0, 0]
       [PtrStruct [] [PtrData (ci_ClientID (co_Client opts)), PtrNull,
          text_ptr (ci_Version (co_Client opts)), text_ptr (ci_Arch (co_Client opts))], PtrNull]"

definition call_params :: "byte \<Rightarrow> credentials \<Rightarrow> connection_options \<Rightarrow> capnp_struct" where
  "call_params k cred opts =
     ([k, 0, 0, 0, 0, 0, 0, 0], [auth_ptr cred, PtrData (cr_TunnelID cred), options_ptr opts])"

text \<open>The first of the four results that \<open>ParamsFunc\<close> looks at and that is an error.\<close>

definition first_error :: "(nat \<Rightarrow> go_error option) \<Rightarrow> go_error option" where
  "first_error lib_err = List.find (\<lambda>_. True) (List.map_filter lib_err [0, 1, 2, 3])"

lemma replicate_4_8: "replicate 4 x = [x, x, x, x]" "replicate 8 x = [x, x, x, x, x, x, x, x]"
  by (simp_all add: numeral_eq_Suc)

lemma register_params_layout:
  "first_error lib_err = None \<Longrightarrow>
   register_params lib_err k cred opts (new_struct 1 3) = (None, call_params k cred opts)"
  by (simp add: register_params_def new_struct_def set_ptr_def set_uint8_def set_bit_at_def to_ptr_def
      call_params_def auth_ptr_def options_ptr_def data_ptr_def first_error_def Credentials_Auth_def
      numeral_2_eq_2 numeral_3_eq_3 replicate_4_8 Let_def List.map_filter_simps split: option.splits)

lemma register_params_error:
  "first_error lib_err = Some e \<Longrightarrow> fst (register_params lib_err k cred opts s) = Some e"
  by (simp add: register_params_def first_error_def Let_def List.map_filter_simps split: option.splits)

section \<open>Properties\<close>


definition demo_options :: connection_options where
  "demo_options = \<lparr>co_Client = \<lparr>ci_ClientID = [7], ci_Features = [], ci_Version = ''2025.4.1'', ci_Arch = ''amd64''\<rparr>,
     co_ReplaceExisting = True\<rparr>"

definition demo_credentials :: credentials where
  "demo_credentials = \<lparr>cr_AccountTag = ''acc'', cr_TunnelSecret = Some [1, 2], cr_TunnelID = replicate 16 3\<rparr>"

text \<open>An edge that answers one message only.\<close>

definition demo_edge :: "capnp_struct \<Rightarrow> go_error + response_struct" where
  "demo_edge p =
     (if p = ([2, 0, 0, 0, 0, 0, 0, 0],
          [PtrStruct [] [PtrText ''acc'', PtrData [1, 2]], PtrData (replicate 16 3),
           PtrStruct [2, 0, 0, 0, 0, 0, 0, 0]
             [PtrStruct [] [PtrData [7], PtrNull, PtrText ''2025.4.1'', PtrText ''amd64''], PtrNull]])
      then Inr \<lparr>rs_tag = 1, rs_ptr = None, rs_text = [],
        rs_details = \<lparr>ds_uuidPtr = Inr (replicate 16 9), ds_locPtr = Inr ''fra01'', ds_managed = True\<rparr>\<rparr>
      else Inl ErrEOF)"


end
