(* ===== verification/Connection.thy ===== *)
theory Connection
  imports Packet WsConn QuicStream Register
begin

text \<open>
  \<open>src/server/cfd/connection.go\<close>: the server end of a tunnel connection. Each QUIC stream carries one
  websocket; its handler dials the destination (from the request's headers or from the first
  message) and relays in both directions. Two goroutines share the websocket and the remote
  connection, so the relay is a step relation.
\<close>

section \<open>Dialling\<close>

text \<open>A dialer may answer each attempt differently: its first argument counts the attempts.\<close>

type_synonym 'r dialer = "nat \<Rightarrow> string \<Rightarrow> string \<Rightarrow> go_error + 'r"

record 'r proxy =
  px_DialFunc :: "'r dialer"
  px_Proxy4 :: bool
  px_Proxy6 :: bool

text \<open>\<open>address[0]\<close> panics on the empty string: \<open>None\<close>. \<open>net_Dial\<close> is the operating system's.\<close>

definition Proxy_Dial :: "'r dialer \<Rightarrow> 'r proxy \<Rightarrow> nat \<Rightarrow> string \<Rightarrow> string \<Rightarrow> (go_error + 'r) option" where
  "Proxy_Dial net_Dial d i network dest =
     (case dest of
        [] \<Rightarrow> None
      | c # _ \<Rightarrow>
          (let isIPv6 = (c = CHR ''['') in
           if isIPv6 \<and> px_Proxy6 d \<or> \<not> isIPv6 \<and> px_Proxy4 d
           then Some (px_DialFunc d i network dest)
           else Some (net_Dial i network dest)))"

definition isRetryableError :: "go_error \<Rightarrow> bool" where
  "isRetryableError e = (case as_net_direct e of Some t \<Rightarrow> t | None \<Rightarrow> False)"

text \<open>
  The loop of \<open>DialWithRetry\<close> at attempt \<open>i\<close> with the last error: the result, and how many times it slept.
\<close>

function retry_loop :: "'r dialer \<Rightarrow> 'r proxy \<Rightarrow> string \<Rightarrow> string \<Rightarrow> nat \<Rightarrow> nat \<Rightarrow> go_error option
    \<Rightarrow> (go_error + 'r) option \<times> nat" where
  "retry_loop net_Dial d network dest maxRetries i err =
     (if i < maxRetries then
        (case Proxy_Dial net_Dial d i network dest of
           None \<Rightarrow> (None, 0)
         | Some (Inr conn) \<Rightarrow> (Some (Inr conn), 0)
         | Some (Inl e) \<Rightarrow>
             if \<not> isRetryableError e then (Some (Inl (ErrWrap ''non-retryable error'' e)), 0)
             else (case retry_loop net_Dial d network dest maxRetries (i + 1) (Some e) of
                     (r, sleeps) \<Rightarrow> (r, sleeps + 1)))
      else
        (let what = ''after '' @ itoa maxRetries @ '' retries'' in
         (Some (Inl (case err of Some e \<Rightarrow> ErrWrap what e
                     | None \<Rightarrow> ErrText (what @ '': %!w(<nil>)''))), 0)))"
  by pat_completeness auto
termination
  by (relation "measure (\<lambda>(nd, d, nw, ad, m, i, e). m - i)") auto

declare retry_loop.simps [simp del]

definition DialWithRetry :: "'r dialer \<Rightarrow> 'r proxy \<Rightarrow> string \<Rightarrow> string \<Rightarrow> nat
    \<Rightarrow> (go_error + 'r) option \<times> nat" where
  "DialWithRetry net_Dial d network dest maxRetries =
     retry_loop net_Dial d network dest maxRetries 0 None"

section \<open>The remote connection\<close>

text \<open>
  A TCP or UDP socket; for UDP the remote port is kept. A closed socket refuses every call. A UDP
  read takes one datagram and cuts it at the buffer's end. The read timeouts set are logged.
\<close>

record remote_conn =
  rc_conn :: os_conn
  rc_udp :: "nat option"
  rc_timeouts :: "int list"

definition remote_write :: "remote_conn writer" where
  "remote_write p r =
     (if oc_closed (rc_conn r) then ((0, Some err_closed), r)
      else case os_write p (rc_conn r) of (res, c) \<Rightarrow> (res, r\<lparr>rc_conn := c\<rparr>))"

definition remote_read :: "remote_conn reader" where
  "remote_read n r =
     (if oc_closed (rc_conn r) then (ReadRet [] (Some err_closed), r)
      else case (if rc_udp r = None then os_read n (rc_conn r) else udp_read n (rc_conn r)) of
             (res, c) \<Rightarrow> (res, r\<lparr>rc_conn := c\<rparr>))"

definition remote_close :: "remote_conn \<Rightarrow> remote_conn" where
  "remote_close r = r\<lparr>rc_conn := os_close (rc_conn r)\<rparr>"

text \<open>
  \<open>handleRemoteConn\<close> sets a read deadline before every read of a UDP socket: one second for DNS, a
  minute otherwise (in seconds here).
\<close>

definition udp_timeout :: "nat \<Rightarrow> int" where
  "udp_timeout port = (if port = 53 then 1 else 60)"

definition setReadDeadline :: "remote_conn \<Rightarrow> go_error option \<times> remote_conn" where
  "setReadDeadline r =
     (case rc_udp r of
        None \<Rightarrow> (None, r)
      | Some port \<Rightarrow>
          if oc_closed (rc_conn r) then (Some err_closed, r)
          else (None, r\<lparr>rc_timeouts := rc_timeouts r @ [udp_timeout port]\<rparr>))"

definition deadline_read :: "remote_conn reader" where
  "deadline_read n r =
     (case setReadDeadline r of
        (Some e, r') \<Rightarrow> (ReadRet [] (Some e), r')
      | (None, r') \<Rightarrow> remote_read n r')"

section \<open>The handlers\<close>

definition relay_buf :: nat where "relay_buf = 32 * 1024"

text \<open>
  \<open>handleConn\<close> before its loop: with no remote connection yet the first message says where to go.
  \<open>SetupEnded r\<close>: it returned, leaving \<open>r\<close> behind if it had been dialled.
\<close>

datatype conn_setup =
    SetupWaits
  | SetupPanic
  | SetupEnded "remote_conn option"
  | SetupReady remote_conn

definition handleConn_setup :: "remote_conn dialer \<Rightarrow> remote_conn proxy \<Rightarrow> ws_conn \<Rightarrow> remote_conn option
    \<Rightarrow> conn_setup \<times> ws_conn" where
  "handleConn_setup net_Dial px ws remoteConn =
     (case remoteConn of
        Some r \<Rightarrow> (SetupReady r, ws)
      | None \<Rightarrow>
          (case Conn_Read relay_buf ws of
             (ReadBlock, ws') \<Rightarrow> (SetupWaits, ws')
           | (ReadRet d (Some e), ws') \<Rightarrow> (SetupEnded None, ws')
           | (ReadRet d None, ws') \<Rightarrow>
               (case Decode d of
                  Inl e \<Rightarrow> (SetupEnded None, ws')
                | Inr packet \<Rightarrow>
                    (case fst (DialWithRetry net_Dial px (protocol packet) (address packet) 3) of
                       None \<Rightarrow> (SetupPanic, ws')
                     | Some (Inl e) \<Rightarrow> (SetupEnded None, ws')
                     | Some (Inr r) \<Rightarrow>
                         (case remote_write (pkt_Payload packet) r of
                            ((nw, Some e), r') \<Rightarrow> (SetupEnded (Some r'), ws')
                          | ((nw, None), r') \<Rightarrow>
                              if nw \<noteq> length (pkt_Payload packet) then (SetupEnded (Some r'), ws')
                              else (SetupReady r', ws'))))))"

text \<open>
  The state the two loops share. \<open>sn_ctx\<close>: the stream's context is done; \<open>sn_up\<close> and \<open>sn_down\<close>: the loop
  from the websocket to the remote side, and back, is still running.
\<close>

record session =
  sn_ws :: ws_conn
  sn_remote :: remote_conn
  sn_ctx :: bool
  sn_up :: bool
  sn_down :: bool

text \<open>
  The first loop, in \<open>handleConn\<close>. When it returns, the deferred calls of \<open>handleQuicStream\<close> close the
  websocket and the stream, which ends the stream's context. A round that would block is no step.
\<close>

definition handleConn_round :: "session \<Rightarrow> session option" where
  "handleConn_round s =
     (case relay_iter remote_write Conn_Read relay_buf (sn_ctx s) (sn_remote s) (sn_ws s) of
        (Some LoopBlocked, _, _) \<Rightarrow> None
      | (None, r, w) \<Rightarrow> Some (s\<lparr>sn_ws := w, sn_remote := r\<rparr>)
      | (Some (LoopEnded e), r, w) \<Rightarrow>
          Some (s\<lparr>sn_ws := Conn_Close w, sn_remote := r, sn_ctx := True, sn_up := False\<rparr>))"

text \<open>The second loop, with its deferred \<open>wsConn.Close\<close> and \<open>remoteConn.Close\<close>.\<close>

definition handleRemoteConn_round :: "session \<Rightarrow> session option" where
  "handleRemoteConn_round s =
     (case relay_iter Conn_Write deadline_read relay_buf (sn_ctx s) (sn_ws s) (sn_remote s) of
        (Some LoopBlocked, _, _) \<Rightarrow> None
      | (None, w, r) \<Rightarrow> Some (s\<lparr>sn_ws := w, sn_remote := r\<rparr>)
      | (Some (LoopEnded e), w, r) \<Rightarrow>
          Some (s\<lparr>sn_ws := Conn_Close w, sn_remote := remote_close r, sn_down := False\<rparr>))"

text \<open>
  One round of a loop, the read together with the write of what it returned, is one step: between the two
  the loop has the data in its own buffer, and of the other goroutines' doings in between only their
  order relative to the round is kept. The pinger, the end of the context and the replies of a read that
  is still waiting are steps of their own.
\<close>

inductive session_step :: "session \<Rightarrow> session \<Rightarrow> bool" where
  up: "sn_up s \<Longrightarrow> handleConn_round s = Some s' \<Longrightarrow> session_step s s'"
| down: "sn_down s \<Longrightarrow> handleRemoteConn_round s = Some s' \<Longrightarrow> session_step s s'"
| ctx_done: "session_step s (s\<lparr>sn_ctx := True\<rparr>)"
| ping: "session_step s (s\<lparr>sn_ws := snd (Conn_ping (sn_ws s))\<rparr>)"
| control: "session_step s (s\<lparr>sn_ws := snd (handle_control (sn_ws s))\<rparr>)"
| answer: "sn_up s \<Longrightarrow> session_step s (s\<lparr>sn_ws := answer_control (sn_ws s)\<rparr>)"

inductive_cases session_stepE: "session_step s s'"

definition start_session :: "ws_conn \<Rightarrow> remote_conn \<Rightarrow> session" where
  "start_session w r = \<lparr>sn_ws = w, sn_remote = r, sn_ctx = False, sn_up = True, sn_down = True\<rparr>"

text \<open>
  The stream handler up to the start of the loops. \<open>frames\<close> stands for the websocket library on the
  stream: the results its readers and writers will have. Every return runs the deferred
  \<open>stream.Close\<close>. When the first read gives fewer than six bytes without an error, the handler
  calls \<open>Error\<close> on a nil error and panics.
\<close>

datatype stream_end =
    StreamPanic
  | StreamWaits
  | StreamReturned "remote_conn option"
  | StreamServing session

definition close_stream :: "int \<Rightarrow> nop_stream \<Rightarrow> nop_stream" where
  "close_stream now np = np\<lparr>np_inner := snd (SafeStreamCloser_Close now (np_inner np))\<rparr>"

definition new_stream :: "quic_stream \<Rightarrow> nop_stream" where
  "new_stream q =
     \<lparr>np_inner = \<lparr>ss_stream = q, ss_writeTimeout = 0, ss_closing = False, ss_out = []\<rparr>,
      np_sawEOF = False, np_closed = 0\<rparr>"

definition serve_ws :: "remote_conn dialer \<Rightarrow> remote_conn proxy \<Rightarrow> int \<Rightarrow> (nop_stream \<Rightarrow> ws_conn)
    \<Rightarrow> remote_conn option \<Rightarrow> nop_stream \<Rightarrow> stream_end \<times> nop_stream" where
  "serve_ws net_Dial px now frames remoteConn np =
     (case handleConn_setup net_Dial px (frames np) remoteConn of
        (SetupWaits, w) \<Rightarrow> (StreamWaits, np)
      | (SetupPanic, w) \<Rightarrow> (StreamPanic, close_stream now np)
      | (SetupEnded r, w) \<Rightarrow> (StreamReturned r, close_stream now np)
      | (SetupReady r, w) \<Rightarrow> (StreamServing (start_session w r), np))"

definition handleQuicStream :: "(go_error \<Rightarrow> bool) \<Rightarrow> int \<Rightarrow> (nop_stream, 'm, 't) capnp_lib
    \<Rightarrow> remote_conn dialer \<Rightarrow> remote_conn proxy \<Rightarrow> (nop_stream \<Rightarrow> ws_conn) \<Rightarrow> quic_stream
    \<Rightarrow> stream_end \<times> nop_stream" where
  "handleQuicStream is_idle now lib net_Dial px frames q =
     (case nop_Read 6 (new_stream q) of
        (ReadBlock, np) \<Rightarrow> (StreamWaits, np)
      | (ReadRet d (Some e), np) \<Rightarrow> (StreamReturned None, close_stream now np)
      | (ReadRet d None, np) \<Rightarrow>
          if length d \<noteq> 6 then (StreamPanic, close_stream now np)
          else
            (case Accept nop_Read (nop_Write is_idle now) lib np of
               (None, np1) \<Rightarrow> (StreamWaits, np1)
             | (Some (network, dest, Some e), np1) \<Rightarrow> (StreamReturned None, close_stream now np1)
             | (Some (network, dest, None), np1) \<Rightarrow>
                 if network \<noteq> [] \<and> dest \<noteq> [] then
                   (case fst (DialWithRetry net_Dial px network dest 3) of
                      None \<Rightarrow> (StreamPanic, close_stream now np1)
                    | Some (Inl e) \<Rightarrow> (StreamReturned None, close_stream now np1)
                    | Some (Inr r) \<Rightarrow> serve_ws net_Dial px now frames (Some r) np1)
                 else serve_ws net_Dial px now frames None np1))"

section \<open>Accepting streams\<close>

text \<open>
  \<open>acceptStream\<close> over the results \<open>AcceptStream\<close> will have: the streams given to a handler, and what it
  returned; \<open>None\<close> while it waits for the next stream. \<open>Serve\<close> first registers the connection until the
  edge reports it as remotely managed; it never gives up.
\<close>

fun acceptStream :: "(go_error + 'q) list \<Rightarrow> 'q list \<times> go_error option option" where
  "acceptStream [] = ([], None)"
| "acceptStream (Inl e # rs) =
     ([], Some (if errors_is e ErrCanceled then None
                else Some (ErrWrap ''failed to accept QUIC stream'' e)))"
| "acceptStream (Inr q # rs) = (case acceptStream rs of (qs, r) \<Rightarrow> (q # qs, r))"

fun register_loop :: "(connection_details option \<times> go_error option) list \<Rightarrow> string list
    \<Rightarrow> (string \<times> nat) option" where
  "register_loop [] logged = None"
| "register_loop ((detail, err) # rs) logged =
     (let logged' = logged @ (case err of Some e \<Rightarrow> [''registration failed''] | None \<Rightarrow> []) in
      case detail of
        Some d \<Rightarrow> if cd_RemotelyManaged d then Some (cd_Location d, length logged')
                  else register_loop rs logged'
      | None \<Rightarrow> register_loop rs logged')"

text \<open>The result of \<open>Serve\<close>: whether it closed the connection, the streams handled, its return.\<close>

definition Connection_Serve :: "go_error option \<Rightarrow> (connection_details option \<times> go_error option) list
    \<Rightarrow> (go_error + 'q) list \<Rightarrow> bool \<times> 'q list \<times> go_error option option" where
  "Connection_Serve open_err regs accepts =
     (case open_err of
        Some e \<Rightarrow> (False, [], Some (Some (ErrWrap ''failed to open a registration control stream'' e)))
      | None \<Rightarrow>
          (case register_loop regs [] of
             None \<Rightarrow> (False, [], None)
           | Some _ \<Rightarrow>
               (case acceptStream accepts of (qs, r) \<Rightarrow> (r \<noteq> None, qs, r))))"

section \<open>The remote connection as a connection\<close>

definition remote_pending :: "remote_conn \<Rightarrow> bytes" where
  "remote_pending r = (if oc_closed (rc_conn r) then [] else os_pending (rc_conn r))"

definition remote_fits :: "nat \<Rightarrow> remote_conn \<Rightarrow> bool" where
  "remote_fits n r \<longleftrightarrow>
     0 < n \<and> \<not> oc_closed (rc_conn r) \<and>
     (rc_udp r \<noteq> None \<longrightarrow> (\<forall>d. InData d \<in> set (oc_in (rc_conn r)) \<longrightarrow> length d \<le> n))"

lemma deadline_read_bound: "deadline_read n r = (ReadRet d er, r') \<Longrightarrow> length d \<le> n"
  by (auto simp: deadline_read_def setReadDeadline_def remote_read_def
      dest: os_reader.read_bound udp_read_bound split: option.splits prod.splits if_splits)

lemma deadline_read_fits:
  assumes "remote_fits n r" "deadline_read n r = (res, r')"
  shows "\<exists>c ts. os_read n (rc_conn r) = (res, c) \<and> r' = r\<lparr>rc_conn := c, rc_timeouts := ts\<rparr>"
proof -
  have "deadline_read n r = (case os_read n (rc_conn r) of (res, c) \<Rightarrow>
      (res, r\<lparr>rc_conn := c, rc_timeouts := (case rc_udp r of None \<Rightarrow> rc_timeouts r
        | Some p \<Rightarrow> rc_timeouts r @ [udp_timeout p])\<rparr>))"
    using assms(1) udp_read_os_read [of "rc_conn r" n]
    by (cases r) (auto simp: deadline_read_def setReadDeadline_def remote_read_def remote_fits_def
        split: option.splits prod.splits)
  with assms(2) show ?thesis by (auto split: prod.splits)
qed

lemma deadline_read_block:
  "deadline_read n r = (ReadBlock, r') \<Longrightarrow> remote_pending r = []"
  by (auto simp: deadline_read_def setReadDeadline_def remote_read_def remote_pending_def
      dest: os_reader.read_block udp_read_block split: option.splits prod.splits if_splits)

interpretation remote_reader:
  conn_reader deadline_read remote_pending "\<lambda>r. os_work (rc_conn r)" remote_fits
proof unfold_locales
  fix n r d er r'
  assume d: "deadline_read n r = (ReadRet d er, r')"
  from d show "length d \<le> n" by (rule deadline_read_bound)
  assume f: "remote_fits n r"
  then have n: "0 < n" by (simp add: remote_fits_def)
  obtain c ts where c: "os_read n (rc_conn r) = (ReadRet d er, c)"
    and r': "r' = r\<lparr>rc_conn := c, rc_timeouts := ts\<rparr>"
    using deadline_read_fits [OF f d] by blast
  show "os_work (rc_conn r') < os_work (rc_conn r)"
    using os_reader.read_work [OF n c] r' by simp
  show "remote_fits n r'"
    using f r' os_read_closed [OF c] os_read_fits [OF c] by (auto simp: remote_fits_def)
next
  fix n r d r'
  assume f: "remote_fits n r" and d: "deadline_read n r = (ReadRet d None, r')"
  then show "remote_pending r = d @ remote_pending r'"
    using deadline_read_fits [OF f d] os_read_closed [of n "rc_conn r"]
      os_reader.read_pending [of n "rc_conn r" d]
    by (auto simp: remote_pending_def remote_fits_def)
next
  fix n r d e r'
  assume f: "remote_fits n r" and d: "deadline_read n r = (ReadRet d (Some e), r')"
  then show "d = [] \<and> remote_pending r = []"
    using deadline_read_fits [OF f d] os_reader.read_error [of n "rc_conn r" d e]
    by (auto simp: remote_pending_def remote_fits_def)
qed (rule deadline_read_block)

interpretation remote_writer:
  conn_writer remote_write "\<lambda>r. oc_out (rc_conn r)" "\<lambda>_. True"
    "\<lambda>r. \<not> oc_closed (rc_conn r) \<and> oc_wr (rc_conn r) = []"
proof unfold_locales
  fix r p r'
  assume "remote_write p r = ((length p, None), r')"
  then show "oc_out (rc_conn r') = oc_out (rc_conn r) @ p \<and> True"
    using os_writer.write_sent [of p "rc_conn r" "rc_conn r'"]
    by (auto simp: remote_write_def split: if_splits prod.splits)
next
  fix r p k er r'
  assume "remote_write p r = ((k, er), r')"
  then show "\<exists>j. oc_out (rc_conn r') = oc_out (rc_conn r) @ take j p"
    using os_write_prefix [of p "rc_conn r" k er "rc_conn r'"]
    by (auto simp: remote_write_def intro: exI [of _ 0] split: if_splits prod.splits)
next
  fix r :: remote_conn and p
  assume "\<not> oc_closed (rc_conn r) \<and> oc_wr (rc_conn r) = []"
  then show "\<exists>r'. remote_write p r = ((length p, None), r') \<and>
      \<not> oc_closed (rc_conn r') \<and> oc_wr (rc_conn r') = []"
    by (simp add: remote_write_def os_write_def)
qed

text \<open>The two directions of a session.\<close>

interpretation upward:
  conn_pair Conn_Read ws_pending ws_work ws_fits
    remote_write "\<lambda>r. oc_out (rc_conn r)" "\<lambda>_. True" "\<lambda>r. \<not> oc_closed (rc_conn r) \<and> oc_wr (rc_conn r) = []"
  ..

interpretation downward:
  conn_pair deadline_read remote_pending "\<lambda>r. os_work (rc_conn r)" remote_fits
    Conn_Write ws_sent "\<lambda>_. True" "\<lambda>c. \<not> wc_done c \<and> wc_wr c = []"
  ..

section \<open>The session invariant\<close>

text \<open>
  Relative to the bytes of both directions, \<open>U\<close> from the client and \<open>D\<close> from the remote side: a running
  loop has lost nothing, a stopped one has delivered a prefix, and a stopped second loop has closed the
  remote connection. \<open>U\<close> and \<open>D\<close> include what was delivered before.
\<close>

definition session_inv :: "bytes \<Rightarrow> bytes \<Rightarrow> session \<Rightarrow> bool" where
  "session_inv U D s \<longleftrightarrow>
     ws_fits relay_buf (sn_ws s) \<and>
     (\<exists>rest. oc_out (rc_conn (sn_remote s)) @ rest = U) \<and>
     (sn_up s \<longrightarrow> oc_out (rc_conn (sn_remote s)) @ ws_pending (sn_ws s) = U) \<and>
     (\<not> sn_up s \<longrightarrow> wc_done (sn_ws s) \<and> sn_ctx s) \<and>
     (\<exists>rest. ws_sent (sn_ws s) @ rest = D) \<and>
     (if sn_down s
      then remote_fits relay_buf (sn_remote s) \<and>
           ws_sent (sn_ws s) @ remote_pending (sn_remote s) = D
      else oc_closed (rc_conn (sn_remote s)) \<and> wc_done (sn_ws s))"

text \<open>What each side's operations leave alone on the other side's half.\<close>

lemma remote_write_frame:
  assumes "remote_write p r = (res, r')"
  shows "remote_pending r' = remote_pending r \<and> remote_fits n r' = remote_fits n r \<and>
    oc_closed (rc_conn r') = oc_closed (rc_conn r)"
  using assms
  by (auto simp: remote_write_def os_write_def remote_pending_def remote_fits_def os_pending_def
      split: if_splits prod.splits list.splits write_event.splits)

lemma deadline_read_frame:
  assumes "deadline_read n r = (res, r')"
  shows "oc_out (rc_conn r') = oc_out (rc_conn r) \<and> oc_closed (rc_conn r') = oc_closed (rc_conn r)"
  using assms
  by (auto simp: deadline_read_def setReadDeadline_def remote_read_def udp_read_def os_read_def
      split: if_splits prod.splits list.splits read_event.splits option.splits)

lemma Conn_Read_frame:
  assumes "Conn_Read n w = (res, w')"
  shows "ws_sent w' = ws_sent w \<and> wc_done w' = wc_done w \<and> (ws_fits k w \<longrightarrow> ws_fits k w')"
proof -
  have s: "ws_sent (c\<lparr>wc_in := es\<rparr>) = ws_sent c" for c es by (simp add: ws_sent_def)
  show ?thesis using assms Conn_Read_cases [of w n] by (auto simp: s ws_fits_def)
qed

lemma write_frame_frame:
  "write_frame f w = (res, w') \<Longrightarrow> wc_in w' = wc_in w \<and> wc_done w' = wc_done w"
  by (auto simp: write_frame_def split: list.splits option.splits)

lemma Conn_Write_frame:
  assumes "Conn_Write p w = (res, w')"
  shows "ws_pending w' = ws_pending w \<and> ws_fits k w' = ws_fits k w \<and> wc_done w' = wc_done w"
  using assms
  by (auto simp: Conn_Write_def ws_pending_def ws_fits_def dest!: write_frame_frame
      split: if_splits prod.splits option.splits)

lemma iter_frame:
  assumes "relay_iter wr rd n stop dst src = (res, dst', src')"
    and "\<And>p c r c'. wr p c = (r, c') \<Longrightarrow> P c c'" and "\<And>c r c'. rd n c = (r, c') \<Longrightarrow> Q c c'"
    and "P dst dst" and "Q src src"
  shows "P dst dst' \<and> Q src src'"
  using assms
  by (auto simp: relay_iter_def split: if_splits prod.splits read_result.splits option.splits)

lemma up_iter_frame:
  assumes "relay_iter remote_write Conn_Read n stop r w = (res, r', w')"
  shows "remote_pending r' = remote_pending r" "remote_fits k r' = remote_fits k r"
    "oc_closed (rc_conn r') = oc_closed (rc_conn r)" "ws_sent w' = ws_sent w"
    "wc_done w' = wc_done w" "ws_fits k w \<Longrightarrow> ws_fits k w'"
  using iter_frame [OF assms,
      where P = "\<lambda>r r'. remote_pending r' = remote_pending r \<and> remote_fits k r' = remote_fits k r \<and>
        oc_closed (rc_conn r') = oc_closed (rc_conn r)"
      and Q = "\<lambda>w w'. ws_sent w' = ws_sent w \<and> wc_done w' = wc_done w \<and> (ws_fits k w \<longrightarrow> ws_fits k w')"]
    remote_write_frame Conn_Read_frame by blast+

lemma down_iter_frame:
  assumes "relay_iter Conn_Write deadline_read n stop w r = (res, w', r')"
  shows "oc_out (rc_conn r') = oc_out (rc_conn r)" "oc_closed (rc_conn r') = oc_closed (rc_conn r)"
    "ws_pending w' = ws_pending w" "ws_fits k w' = ws_fits k w" "wc_done w' = wc_done w"
  using iter_frame [OF assms,
      where Q = "\<lambda>r r'. oc_out (rc_conn r') = oc_out (rc_conn r) \<and>
        oc_closed (rc_conn r') = oc_closed (rc_conn r)"
      and P = "\<lambda>w w'. ws_pending w' = ws_pending w \<and> ws_fits k w' = ws_fits k w \<and> wc_done w' = wc_done w"]
    deadline_read_frame Conn_Write_frame by blast+

lemma Conn_Close_simps [simp]:
  "ws_pending (Conn_Close w) = ws_pending w" "ws_fits k (Conn_Close w) = ws_fits k w"
  "ws_sent (Conn_Close w) = ws_sent w" "wc_done (Conn_Close w)"
  by (simp_all add: Conn_Close_def ws_pending_def ws_fits_def ws_sent_def)

lemma remote_close_simps [simp]:
  "oc_out (rc_conn (remote_close r)) = oc_out (rc_conn r)" "oc_closed (rc_conn (remote_close r))"
  by (simp_all add: remote_close_def os_close_def)

lemma up_preserves:
  assumes "session_inv U D s" "sn_up s" "handleConn_round s = Some s'"
  shows "session_inv U D s'"
proof -
  obtain res r w where it: "relay_iter remote_write Conn_Read relay_buf (sn_ctx s) (sn_remote s) (sn_ws s)
      = (res, r, w)" by (metis prod.exhaust)
  note f = up_iter_frame [OF it]
  have fits: "ws_fits relay_buf (sn_ws s)" using assms(1) by (simp add: session_inv_def)
  show ?thesis
  proof (cases res)
    case None
    with it assms(3) have s': "s' = s\<lparr>sn_ws := w, sn_remote := r\<rparr>" by (simp add: handleConn_round_def)
    from upward.iter_continue [OF fits _ it [unfolded None]] s' f assms(1,2)
    show ?thesis by (auto simp: session_inv_def)
  next
    case (Some e)
    with it assms(3) have s': "s' = s\<lparr>sn_ws := Conn_Close w, sn_remote := r, sn_ctx := True, sn_up := False\<rparr>"
      by (auto simp: handleConn_round_def split: loop_end.splits)
    from upward.iter_stop [OF fits _ it [unfolded Some]] obtain d rest where
      "oc_out (rc_conn r) = oc_out (rc_conn (sn_remote s)) @ d" "ws_pending (sn_ws s) = d @ rest"
      by blast
    with s' f assms(1,2) show ?thesis by (auto simp: session_inv_def)
  qed
qed

lemma down_preserves:
  assumes "session_inv U D s" "sn_down s" "handleRemoteConn_round s = Some s'"
  shows "session_inv U D s'"
proof -
  obtain res r w where it: "relay_iter Conn_Write deadline_read relay_buf (sn_ctx s) (sn_ws s) (sn_remote s)
      = (res, w, r)" by (metis prod.exhaust)
  note f = down_iter_frame [OF it]
  have fits: "remote_fits relay_buf (sn_remote s)" using assms(1,2) by (simp add: session_inv_def)
  show ?thesis
  proof (cases res)
    case None
    with it assms(3) have s': "s' = s\<lparr>sn_ws := w, sn_remote := r\<rparr>"
      by (simp add: handleRemoteConn_round_def)
    from downward.iter_continue [OF fits _ it [unfolded None]] s' f assms(1,2)
    show ?thesis by (auto simp: session_inv_def)
  next
    case (Some e)
    with it assms(3) have s': "s' = s\<lparr>sn_ws := Conn_Close w, sn_remote := remote_close r, sn_down := False\<rparr>"
      by (auto simp: handleRemoteConn_round_def split: loop_end.splits)
    from downward.iter_stop [OF fits _ it [unfolded Some]] obtain d rest where
      "ws_sent w = ws_sent (sn_ws s) @ d" "remote_pending (sn_remote s) = d @ rest" by blast
    with s' f assms(1,2) show ?thesis by (auto simp: session_inv_def)
  qed
qed

lemma ping_frame:
  assumes "Conn_ping w = (r, w')"
  shows "wc_in w' = wc_in w \<and> wc_done w' = wc_done w \<and> ws_sent w' = ws_sent w"
proof (cases "wc_done w")
  case False
  with assms obtain e where f: "write_frame FramePing w = (e, w')"
    by (auto simp: Conn_ping_def split: prod.splits)
  have "ws_sent w' = ws_sent w"
  proof (cases e)
    case None
    with write_frame_sent(1) [OF f [unfolded None]] show ?thesis by simp
  next
    case (Some x)
    with write_frame_sent(2) [OF f [unfolded Some]] show ?thesis by simp
  qed
  with write_frame_frame [OF f] show ?thesis by simp
qed (use assms in \<open>simp add: Conn_ping_def\<close>)

lemma session_inv_step:
  assumes "session_inv U D s" "session_step s s'"
  shows "session_inv U D s'"
  using assms(2)
proof cases
  case ping
  obtain r w where "Conn_ping (sn_ws s) = (r, w)" by fastforce
  with ping_frame [OF this] ping assms(1) show ?thesis
    by (auto simp: session_inv_def ws_pending_def ws_fits_def)
next
  case control
  with assms(1) show ?thesis
    by (auto simp: session_inv_def handle_control_def ws_pending_def ws_fits_def ws_sent_def
        split: list.splits)
next
  case up
  then show ?thesis using up_preserves [OF assms(1)] by blast
next
  case down
  then show ?thesis using down_preserves [OF assms(1)] by blast
next
  case ctx_done
  with assms(1) show ?thesis by (auto simp: session_inv_def)
next
  case answer
  with assms(1) show ?thesis by (auto simp: session_inv_def ws_pending_def ws_fits_def)
qed

interpretation relay_session:
  invariant_system "\<lambda>s. \<exists>w r. s = start_session w r \<and> ws_fits relay_buf w \<and> remote_fits relay_buf r \<and>
      U = oc_out (rc_conn r) @ ws_pending w \<and> D = ws_sent w @ remote_pending r"
    session_step "session_inv U D"
  for U D
proof unfold_locales
  fix s
  assume "\<exists>w r. s = start_session w r \<and> ws_fits relay_buf w \<and> remote_fits relay_buf r \<and>
      U = oc_out (rc_conn r) @ ws_pending w \<and> D = ws_sent w @ remote_pending r"
  then show "session_inv U D s" by (auto simp: session_inv_def start_session_def)
qed (rule session_inv_step)

section \<open>The upward loop comes to its end\<close>

text \<open>
  Steps of a session that nobody else ends: while the upward loop runs, the downward loop runs and the
  context is not done. Under these \<open>U\<close> is delivered in full, in at most \<open>k\<close> rounds.
\<close>

definition quiet_step :: "session \<Rightarrow> session \<Rightarrow> bool" where
  "quiet_step s s' \<longleftrightarrow> session_step s s' \<and> (sn_up s' \<longrightarrow> sn_down s' \<and> \<not> sn_ctx s')"

definition upload_inv :: "bytes \<Rightarrow> nat \<Rightarrow> session \<Rightarrow> bool" where
  "upload_inv U k s \<longleftrightarrow>
     (if sn_up s
      then sn_down s \<and> \<not> sn_ctx s \<and> ws_fits relay_buf (sn_ws s) \<and> (\<exists>e. Inl e \<in> set (wc_in (sn_ws s))) \<and>
           \<not> oc_closed (rc_conn (sn_remote s)) \<and> oc_wr (rc_conn (sn_remote s)) = [] \<and>
           oc_out (rc_conn (sn_remote s)) @ ws_pending (sn_ws s) = U \<and> ws_work (sn_ws s) \<le> k
      else oc_out (rc_conn (sn_remote s)) = U)"

lemma remote_write_open:
  "\<lbrakk>\<not> oc_closed (rc_conn r); oc_wr (rc_conn r) = []\<rbrakk> \<Longrightarrow>
   remote_write p r = ((length p, None), r\<lparr>rc_conn := (rc_conn r)\<lparr>oc_out := oc_out (rc_conn r) @ p\<rparr>\<rparr>)"
  by (simp add: remote_write_def os_write_def)

lemma upload_round:
  assumes inv: "upload_inv U k s" and up: "sn_up s"
  shows "\<exists>s'. handleConn_round s = Some s' \<and> ws_work (sn_ws s') < ws_work (sn_ws s) \<and> upload_inv U k s' \<and>
    quiet_step s s'"
proof -
  from inv up have c: "\<not> sn_ctx s" "sn_down s" "ws_fits relay_buf (sn_ws s)" "\<exists>e. Inl e \<in> set (wc_in (sn_ws s))"
    "\<not> oc_closed (rc_conn (sn_remote s))" "oc_wr (rc_conn (sn_remote s)) = []"
    "oc_out (rc_conn (sn_remote s)) @ ws_pending (sn_ws s) = U" "ws_work (sn_ws s) \<le> k"
    by (simp_all add: upload_inv_def)
  from c(4) obtain x es where x: "wc_in (sn_ws s) = x # es" by (cases "wc_in (sn_ws s)") auto
  let ?w = "(answer_control (sn_ws s))\<lparr>wc_in := es\<rparr>"
  have "\<exists>s'. handleConn_round s = Some s' \<and> ws_work (sn_ws s') < ws_work (sn_ws s) \<and> upload_inv U k s' \<and>
      (sn_up s' \<longrightarrow> sn_down s' \<and> \<not> sn_ctx s')"
  proof (cases x)
    case (Inl e)
    with x c have "handleConn_round s =
        Some (s\<lparr>sn_ws := Conn_Close ?w, sn_remote := sn_remote s, sn_ctx := True, sn_up := False\<rparr>)"
      by (simp add: handleConn_round_def relay_iter_def Conn_Read_def)
    moreover have "ws_pending (sn_ws s) = []" using x Inl by (simp add: ws_pending_def)
    ultimately show ?thesis using c x by (simp add: upload_inv_def ws_work_def Conn_Close_def)
  next
    case (Inr m)
    have m: "take relay_buf m = m" using c(3) x Inr by (simp add: ws_fits_def)
    let ?r = "(sn_remote s)\<lparr>rc_conn := (rc_conn (sn_remote s))\<lparr>oc_out := oc_out (rc_conn (sn_remote s)) @ m\<rparr>\<rparr>"
    have "handleConn_round s = Some (s\<lparr>sn_ws := ?w, sn_remote := ?r\<rparr>)"
      using x Inr c m
      by (simp add: handleConn_round_def relay_iter_def Conn_Read_def remote_write_open)
    moreover have "upload_inv U k (s\<lparr>sn_ws := ?w, sn_remote := ?r\<rparr>)"
      using c x Inr up by (auto simp: upload_inv_def ws_fits_def ws_pending_def ws_work_def)
    ultimately show ?thesis using c x by (simp add: ws_work_def)
  qed
  then show ?thesis using session_step.up [OF up] by (auto simp: quiet_step_def)
qed

lemma deadline_read_writes:
  "deadline_read n r = (res, r') \<Longrightarrow> oc_wr (rc_conn r') = oc_wr (rc_conn r)"
  by (auto simp: deadline_read_def setReadDeadline_def remote_read_def udp_read_def os_read_def
      split: if_splits prod.splits list.splits read_event.splits option.splits)

lemma Conn_Write_in: "Conn_Write p w = (res, w') \<Longrightarrow> wc_in w' = wc_in w"
  by (auto simp: Conn_Write_def dest!: write_frame_frame split: if_splits prod.splits option.splits)

lemma upload_down:
  assumes inv: "upload_inv U k s" and s': "handleRemoteConn_round s = Some s'" and q: "sn_up s' \<longrightarrow> sn_down s'"
  shows "upload_inv U k s'"
proof -
  obtain res r w where it: "relay_iter Conn_Write deadline_read relay_buf (sn_ctx s) (sn_ws s) (sn_remote s)
      = (res, w, r)" by (metis prod.exhaust)
  from iter_frame [OF it, where P = "\<lambda>w w'. wc_in w' = wc_in w" and
      Q = "\<lambda>r r'. oc_wr (rc_conn r') = oc_wr (rc_conn r)"] Conn_Write_in deadline_read_writes
  have f: "wc_in w = wc_in (sn_ws s)" "oc_wr (rc_conn r) = oc_wr (rc_conn (sn_remote s))" by blast+
  note g = down_iter_frame [OF it]
  show ?thesis
  proof (cases res)
    case None
    with it s' have "s' = s\<lparr>sn_ws := w, sn_remote := r\<rparr>" by (simp add: handleRemoteConn_round_def)
    with f g inv show ?thesis by (auto simp: upload_inv_def ws_work_def)
  next
    case (Some e)
    with it s' have e: "s' = s\<lparr>sn_ws := Conn_Close w, sn_remote := remote_close r, sn_down := False\<rparr>"
      by (auto simp: handleRemoteConn_round_def split: loop_end.splits)
    with q have "\<not> sn_up s" by simp
    with e g inv show ?thesis by (simp add: upload_inv_def)
  qed
qed

lemma upload_step:
  assumes inv: "upload_inv U k s" and st: "quiet_step s s'"
  shows "upload_inv U k s'"
proof -
  from st have q: "sn_up s' \<longrightarrow> sn_down s' \<and> \<not> sn_ctx s'" and "session_step s s'" by (simp_all add: quiet_step_def)
  from this(2) show ?thesis
  proof cases
    case up
    with upload_round [OF inv] show ?thesis by auto
  next
    case down
    with upload_down [OF inv] q show ?thesis by blast
  next
    case ctx_done
    with q inv show ?thesis by (auto simp: upload_inv_def)
  next
    case ping
    obtain res w where "Conn_ping (sn_ws s) = (res, w)" by fastforce
    with ping_frame [OF this] ping inv show ?thesis
      by (auto simp: upload_inv_def ws_pending_def ws_fits_def ws_work_def)
  next
    case control
    with inv show ?thesis
      by (auto simp: upload_inv_def handle_control_def ws_pending_def ws_fits_def ws_work_def split: list.splits)
  next
    case answer
    with inv show ?thesis by (auto simp: upload_inv_def ws_pending_def ws_fits_def ws_work_def)
  qed
qed

interpretation uploading:
  invariant_system "\<lambda>s. \<exists>w r. s = start_session w r \<and> ws_fits relay_buf w \<and> \<not> oc_closed (rc_conn r) \<and>
      oc_wr (rc_conn r) = [] \<and> (\<exists>e. Inl e \<in> set (wc_in w)) \<and>
      U = oc_out (rc_conn r) @ ws_pending w \<and> k = ws_work w"
    quiet_step "upload_inv U k"
  for U k
proof unfold_locales
  fix s
  assume "\<exists>w r. s = start_session w r \<and> ws_fits relay_buf w \<and> \<not> oc_closed (rc_conn r) \<and>
      oc_wr (rc_conn r) = [] \<and> (\<exists>e. Inl e \<in> set (wc_in w)) \<and>
      U = oc_out (rc_conn r) @ ws_pending w \<and> k = ws_work w"
  then show "upload_inv U k s" by (auto simp: upload_inv_def start_session_def)
qed (rule upload_step)

lemma upload_finishes:
  "upload_inv U k s \<Longrightarrow> \<exists>t. quiet_step\<^sup>*\<^sup>* s t \<and> \<not> sn_up t \<and> oc_out (rc_conn (sn_remote t)) = U"
proof (induction "ws_work (sn_ws s)" arbitrary: s rule: less_induct)
  case less
  show ?case
  proof (cases "sn_up s")
    case True
    from upload_round [OF less.prems True] obtain s' where s': "ws_work (sn_ws s') < ws_work (sn_ws s)"
      "upload_inv U k s'" "quiet_step s s'" by blast
    from less.hyps [OF s'(1,2)] obtain t where t: "quiet_step\<^sup>*\<^sup>* s' t" "\<not> sn_up t"
      "oc_out (rc_conn (sn_remote t)) = U" by blast
    from converse_rtranclp_into_rtranclp [of quiet_step, OF s'(3) t(1)] t(2,3) show ?thesis by blast
  next
    case False
    with less.prems show ?thesis by (auto simp: upload_inv_def)
  qed
qed

section \<open>Facts on dialling and on the handlers\<close>

lemma Proxy_Dial_total: "dest \<noteq> [] \<Longrightarrow> \<exists>r. Proxy_Dial net_Dial d i network dest = Some r"
  by (cases dest) (simp_all add: Proxy_Dial_def Let_def)

text \<open>The outcome of the retry loop from attempt \<open>i\<close>, which stops at attempt \<open>i + sleeps\<close>.\<close>

definition retry_spec :: "(nat \<Rightarrow> go_error + 'r) \<Rightarrow> nat \<Rightarrow> nat \<Rightarrow> go_error + 'r \<Rightarrow> nat \<Rightarrow> bool" where
  "retry_spec dial m i res k \<longleftrightarrow>
     i + k \<le> m \<and>
     (\<forall>j. i \<le> j \<and> j < i + k \<longrightarrow> (\<exists>e. dial j = Inl e \<and> isRetryableError e)) \<and>
     (case res of
        Inr c \<Rightarrow> i + k < m \<and> dial (i + k) = Inr c
      | Inl e \<Rightarrow>
          (i + k < m \<and> (\<exists>e'. dial (i + k) = Inl e' \<and> \<not> isRetryableError e' \<and>
             e = ErrWrap ''non-retryable error'' e')) \<or>
          (i + k = m \<and> (0 < k \<longrightarrow> (\<exists>e'. dial (m - 1) = Inl e' \<and>
             e = ErrWrap (''after '' @ itoa m @ '' retries'') e'))))"

lemma retry_loop_spec:
  assumes dial: "\<And>j. Proxy_Dial net_Dial d j network dest = Some (dial j)"
    and "i \<le> m" and "0 < i \<longrightarrow> (\<exists>e. err = Some e \<and> dial (i - 1) = Inl e)"
  shows "\<exists>res k. retry_loop net_Dial d network dest m i err = (Some res, k) \<and>
    retry_spec dial m i res k \<and>
    (k = 0 \<and> i = m \<and> 0 < i \<longrightarrow> (\<exists>e'. dial (m - 1) = Inl e' \<and>
       res = Inl (ErrWrap (''after '' @ itoa m @ '' retries'') e')))"
  using assms(2,3)
proof (induction "m - i" arbitrary: i err)
  case 0
  then show ?case
    by (subst retry_loop.simps) (auto simp: retry_spec_def Let_def split: option.splits)
next
  case (Suc x)
  then have lt: "i < m" by simp
  show ?case
  proof (cases "dial i")
    case (Inr c)
    with lt show ?thesis by (subst retry_loop.simps) (auto simp: dial retry_spec_def)
  next
    case (Inl e)
    show ?thesis
    proof (cases "isRetryableError e")
      case False
      with lt Inl show ?thesis by (subst retry_loop.simps) (auto simp: dial retry_spec_def)
    next
      case True
      have "x = m - Suc i" using Suc.hyps(2) by simp
      from Suc.hyps(1) [OF this, of "Some e"] lt Inl obtain res k where
        rec: "retry_loop net_Dial d network dest m (Suc i) (Some e) = (Some res, k)"
        and sp: "retry_spec dial m (Suc i) res k"
        and last: "k = 0 \<and> Suc i = m \<longrightarrow> (\<exists>e'. dial (m - 1) = Inl e' \<and>
           res = Inl (ErrWrap (''after '' @ itoa m @ '' retries'') e'))"
        by auto
      have "retry_loop net_Dial d network dest m i err = (Some res, Suc k)"
        using lt Inl True rec by (subst retry_loop.simps) (simp add: dial)
      moreover have "retry_spec dial m i res (Suc k)"
      proof -
        have "\<forall>j. i \<le> j \<and> j < i + Suc k \<longrightarrow> (\<exists>e. dial j = Inl e \<and> isRetryableError e)"
          using sp Inl True by (metis (no_types, lifting) Suc_leI add_Suc add_Suc_right le_neq_implies_less retry_spec_def)
        with sp last show ?thesis
          by (cases res) (auto simp: retry_spec_def)
      qed
      ultimately show ?thesis using lt by auto
    qed
  qed
qed

lemma DialWithRetry_total:
  assumes "dest \<noteq> []"
  shows "fst (DialWithRetry net_Dial d network dest m) \<noteq> None"
proof -
  have "\<And>j. Proxy_Dial net_Dial d j network dest = Some (the (Proxy_Dial net_Dial d j network dest))"
    using Proxy_Dial_total [OF assms] by (metis option.sel)
  from retry_loop_spec [OF this, of 0 m None] show ?thesis
    by (auto simp: DialWithRetry_def)
qed

lemma dial_packet_total [simp]: "(fst (DialWithRetry net_Dial d network (address p) m) = None) = False"
  using DialWithRetry_total [OF address_nonempty] by blast

lemma serve_ws_no_panic: "fst (serve_ws net_Dial px now frames r np) \<noteq> StreamPanic"
  by (auto simp: serve_ws_def handleConn_setup_def
      split: option.splits prod.splits read_result.splits sum.splits if_splits)

definition stream_closed :: "nop_stream \<Rightarrow> bool" where
  "stream_closed np \<longleftrightarrow>
     ss_closing (np_inner np) \<and> qs_calls (ss_stream (np_inner np)) \<noteq> [] \<and>
     last (qs_calls (ss_stream (np_inner np))) = CallClose"

lemma close_stream_closed [simp]: "stream_closed (close_stream now np)"
  using close_calls [of now "np_inner np"]
  by (simp add: stream_closed_def close_stream_def prod_eq_iff)

lemma serve_ws_closes:
  "serve_ws net_Dial px now frames r np = (StreamReturned l, np') \<Longrightarrow> stream_closed np'"
  by (auto simp: serve_ws_def split: conn_setup.splits prod.splits)

section \<open>Properties\<close>

definition demo_remote :: remote_conn where
  "demo_remote = \<lparr>rc_conn = os_open [InData [9, 8]] [], rc_udp = Some 53, rc_timeouts = []\<rparr>"

definition demo_proxy :: "remote_conn proxy" where
  "demo_proxy = \<lparr>px_DialFunc = (\<lambda>i _ _. if i = 0 then Inl (ErrNet True ''t'') else Inr demo_remote),
     px_Proxy4 = True, px_Proxy6 = False\<rparr>"

text \<open>
  C3. Both directions of a session, under every interleaving of its two relay loops, the pinger and
  the end of the stream's context: when no message of the client and no datagram exceeds the 32 KiB
  buffer, what the remote side received is a prefix of what the client sent, what the client received
  is a prefix of what the remote side sent, and nothing is lost by a loop that is still running. A
  stopped second loop has closed the remote connection, and any stopped loop the websocket.
\<close>

theorem session_relays_in_order:
  assumes "ws_fits relay_buf w" and "remote_fits relay_buf r" and "session_step\<^sup>*\<^sup>* (start_session w r) s"
  shows "(\<exists>rest. oc_out (rc_conn (sn_remote s)) @ rest = oc_out (rc_conn r) @ ws_pending w) \<and>
    (\<exists>rest. ws_sent (sn_ws s) @ rest = ws_sent w @ remote_pending r) \<and>
    (sn_up s \<longrightarrow>
      oc_out (rc_conn (sn_remote s)) @ ws_pending (sn_ws s) = oc_out (rc_conn r) @ ws_pending w) \<and>
    (sn_down s \<longrightarrow>
      ws_sent (sn_ws s) @ remote_pending (sn_remote s) = ws_sent w @ remote_pending r) \<and>
    (\<not> sn_down s \<longrightarrow> oc_closed (rc_conn (sn_remote s)) \<and> wc_done (sn_ws s)) \<and>
    (\<not> sn_up s \<longrightarrow> wc_done (sn_ws s) \<and> sn_ctx s)"
proof -
  have "session_inv (oc_out (rc_conn r) @ ws_pending w) (ws_sent w @ remote_pending r) s"
    using relay_session.reachable_inv [OF _ assms(3)] assms(1,2) by blast
  then show ?thesis by (auto simp: session_inv_def split: if_splits)
qed

definition demo_session :: session where
  "demo_session = start_session (ws_open [Inr [1, 2]] []) demo_remote"

lemma demo_session_fits: "ws_fits relay_buf (ws_open [Inr [1, 2]] [])" "remote_fits relay_buf demo_remote"
  by (simp_all add: ws_fits_def relay_buf_def ws_open_def remote_fits_def demo_remote_def os_open_def)

lemma demo_session_step: "session_step demo_session (the (handleConn_round demo_session))"
proof (rule session_step.up)
  show "sn_up demo_session" by (simp add: demo_session_def start_session_def)
  show "handleConn_round demo_session = Some (the (handleConn_round demo_session))"
    by (simp add: demo_session_def start_session_def handleConn_round_def relay_iter_def Conn_Read_def
        ws_open_def relay_buf_def remote_write_def demo_remote_def os_open_def os_write_def)
qed

theorem session_relays_in_order_witness:
  "session_step demo_session (the (handleConn_round demo_session)) \<and>
   oc_out (rc_conn (sn_remote (the (handleConn_round demo_session)))) = [1, 2] \<and>
   (\<exists>rest. oc_out (rc_conn (sn_remote (the (handleConn_round demo_session)))) @ rest = [1, 2])"
proof -
  have "oc_out (rc_conn (sn_remote (the (handleConn_round demo_session)))) = [1, 2]"
    by (simp add: demo_session_def start_session_def handleConn_round_def relay_iter_def Conn_Read_def
        ws_open_def relay_buf_def remote_write_def demo_remote_def os_open_def os_write_def)
  moreover have "\<exists>rest. oc_out (rc_conn (sn_remote (the (handleConn_round demo_session)))) @ rest =
      oc_out (rc_conn demo_remote) @ ws_pending (ws_open [Inr [1, 2]] [])"
    using session_relays_in_order [OF demo_session_fits
        r_into_rtranclp [of session_step, OF demo_session_step [unfolded demo_session_def]]]
    by (simp add: demo_session_def)
  ultimately show ?thesis
    using demo_session_step by (simp add: demo_remote_def os_open_def ws_pending_def ws_open_def)
qed

text \<open>
  C21. The client's data arrives. Take any interleaving of the two loops, the pinger and the replies in
  which, as long as the upward loop runs, the downward loop runs too and the stream's context is not done,
  with a remote side whose writes succeed, messages that fit the 32 KiB buffer, and a client whose
  connection ends at some point. Then no round of the upward loop blocks and each uses up one of the
  client's messages, so the loop ends after at most as many rounds as there are results to read, whatever
  the others do; when it has ended, every byte up to the end of the client's connection is written to the
  remote side; and from every state the loop's own rounds lead there.
\<close>

theorem server_upload_complete:
  assumes "ws_fits relay_buf w" and "\<not> oc_closed (rc_conn r)" and "oc_wr (rc_conn r) = []"
    and "\<exists>e. Inl e \<in> set (wc_in w)"
    and "quiet_step\<^sup>*\<^sup>* (start_session w r) s"
  shows "(sn_up s \<longrightarrow> ws_work (sn_ws s) \<le> ws_work w \<and>
      (\<exists>s'. handleConn_round s = Some s' \<and> ws_work (sn_ws s') < ws_work (sn_ws s))) \<and>
    (\<not> sn_up s \<longrightarrow> oc_out (rc_conn (sn_remote s)) = oc_out (rc_conn r) @ ws_pending w) \<and>
    (\<exists>t. quiet_step\<^sup>*\<^sup>* s t \<and> \<not> sn_up t \<and>
      oc_out (rc_conn (sn_remote t)) = oc_out (rc_conn r) @ ws_pending w)"
proof -
  let ?U = "oc_out (rc_conn r) @ ws_pending w"
  have inv: "upload_inv ?U (ws_work w) s"
    using uploading.reachable_inv [OF _ assms(5), of ?U "ws_work w"] assms(1-4) by blast
  moreover have "\<exists>t. quiet_step\<^sup>*\<^sup>* s t \<and> \<not> sn_up t \<and> oc_out (rc_conn (sn_remote t)) = ?U"
    using upload_finishes [OF inv] .
  ultimately show ?thesis using upload_round [OF inv] by (auto simp: upload_inv_def)
qed

definition demo_upload :: ws_conn where
  "demo_upload = ws_open [Inr [1, 2], Inr [3], Inl ErrEOF] []"

theorem server_upload_complete_witness:
  "\<exists>t. quiet_step\<^sup>*\<^sup>* (start_session demo_upload demo_remote) t \<and> \<not> sn_up t \<and>
     oc_out (rc_conn (sn_remote t)) = [1, 2, 3]"
  using server_upload_complete [of demo_upload demo_remote, OF _ _ _ _ rtranclp.rtrancl_refl]
  by (simp add: demo_upload_def ws_open_def ws_fits_def ws_pending_def relay_buf_def demo_remote_def os_open_def)

text \<open>
  C18. Dialling with retries: with a nonempty address there is no panic; every attempt before the last
  one timed out; a connection is returned exactly from the last attempt; an error is the
  first one that is not a timeout, or the last timeout after all attempts, and keeps the original.
\<close>

theorem dial_with_retry_outcome:
  assumes "dest \<noteq> []"
  shows "\<exists>res k. DialWithRetry net_Dial d network dest m = (Some res, k) \<and> k \<le> m \<and>
    (\<forall>j < k. \<exists>e. Proxy_Dial net_Dial d j network dest = Some (Inl e) \<and> isRetryableError e) \<and>
    (case res of
       Inr c \<Rightarrow> k < m \<and> Proxy_Dial net_Dial d k network dest = Some (Inr c)
     | Inl e \<Rightarrow>
         (k < m \<and> (\<exists>e'. Proxy_Dial net_Dial d k network dest = Some (Inl e') \<and>
            \<not> isRetryableError e' \<and> e = ErrWrap ''non-retryable error'' e')) \<or>
         (k = m \<and> (0 < m \<longrightarrow> (\<exists>e'. Proxy_Dial net_Dial d (m - 1) network dest = Some (Inl e') \<and>
            e = ErrWrap (''after '' @ itoa m @ '' retries'') e'))))"
proof -
  define dial where "dial j = the (Proxy_Dial net_Dial d j network dest)" for j
  have dial: "Proxy_Dial net_Dial d j network dest = Some (dial j)" for j
    using Proxy_Dial_total [OF assms] by (metis dial_def option.sel)
  from retry_loop_spec [OF this, of 0 m None] obtain res k where
    "retry_loop net_Dial d network dest m 0 None = (Some res, k)" "retry_spec dial m 0 res k"
    by auto
  then show ?thesis
    by (auto simp: DialWithRetry_def retry_spec_def dial split: sum.splits)
qed

theorem dial_with_retry_outcome_witness:
  "\<exists>res k. DialWithRetry (\<lambda>_ _ _. Inl ErrEOF) demo_proxy ''tcp'' ''1.2.3.4:5'' 3 = (Some res, k) \<and> k \<le> 3"
  using dial_with_retry_outcome [of "''1.2.3.4:5''" "\<lambda>_ _ _. Inl ErrEOF" demo_proxy "''tcp''" 3] by auto

text \<open>
  Which dialer is used for a decoded first message: the WARP dialer exactly when it is enabled
  for the packet's IP version, the operating system's otherwise.
\<close>

theorem proxy_by_ip_version:
  assumes "Decode data = Inr p"
  shows "Proxy_Dial net_Dial d i (protocol p) (address p) =
    Some (if (if pkt_IPVersion p = 6 then px_Proxy6 d else px_Proxy4 d)
          then px_DialFunc d i (protocol p) (address p) else net_Dial i (protocol p) (address p))"
proof -
  have "packet_wf p" using decode_wf [OF assms] by blast
  note b = address_bracket_iff [OF this]
  obtain c cs where "address p = c # cs" using address_nonempty by (metis list.exhaust)
  with b show ?thesis by (auto simp: Proxy_Dial_def Let_def)
qed

theorem proxy_by_ip_version_witness:
  "\<exists>p. Decode [4, 6, 1, 2, 3, 4, 0, 80, 9, 9] = Inr p \<and>
     Proxy_Dial (\<lambda>_ _ _. Inl ErrEOF) demo_proxy 1 (protocol p) (address p) = Some (Inr demo_remote)"
proof -
  have d: "Decode [4, 6, 1, 2, 3, 4, 0, 80, 9, 9] =
      Inr \<lparr>pkt_IPVersion = 4, pkt_Protocol = 6, pkt_DestIP = [1, 2, 3, 4], pkt_DestPort = 80,
           pkt_Payload = [9, 9]\<rparr>"
    by (simp add: Decode_def decode_port_def get_uint16_def Let_def)
  from proxy_by_ip_version [OF d, of "\<lambda>_ _ _. Inl ErrEOF" demo_proxy 1] d show ?thesis
    by (simp add: demo_proxy_def)
qed

text \<open>
  C29. The stream handler panics exactly when the first read returns without an error but with other
  than six bytes: neither an empty address nor a malformed message makes it panic, and whenever it
  returns the stream has been closed.
\<close>

theorem stream_handler_safe:
  "(fst (handleQuicStream is_idle now lib net_Dial px frames q) = StreamPanic \<longleftrightarrow>
     (\<exists>d np. nop_Read 6 (new_stream q) = (ReadRet d None, np) \<and> length d \<noteq> 6)) \<and>
   (\<forall>r np. handleQuicStream is_idle now lib net_Dial px frames q = (StreamReturned r, np) \<longrightarrow>
     stream_closed np)"
proof
  have np: "fst (DialWithRetry net_Dial px nw ad 3) = None \<longleftrightarrow> False" if "ad \<noteq> []" for nw ad
    using DialWithRetry_total [OF that] by blast
  show "fst (handleQuicStream is_idle now lib net_Dial px frames q) = StreamPanic \<longleftrightarrow>
     (\<exists>d np. nop_Read 6 (new_stream q) = (ReadRet d None, np) \<and> length d \<noteq> 6)"
    using serve_ws_no_panic
    by (auto simp: handleQuicStream_def np
        split: prod.splits read_result.splits option.splits if_splits sum.splits)
  show "\<forall>r np. handleQuicStream is_idle now lib net_Dial px frames q = (StreamReturned r, np) \<longrightarrow>
     stream_closed np"
    by (auto simp: handleQuicStream_def dest: serve_ws_closes
        split: prod.splits read_result.splits option.splits if_splits sum.splits)
qed

definition demo_short :: quic_stream where
  "demo_short = \<lparr>qs_conn = os_open [InErr ErrEOF] [], qs_fin = False, qs_dl = [], qs_cl = [], qs_calls = []\<rparr>"

theorem stream_handler_safe_witness:
  "\<exists>np. handleQuicStream (\<lambda>_. False) 0 demo_capnp (\<lambda>_ _ _. Inl ErrEOF) demo_proxy
      (\<lambda>_. ws_open [] []) demo_short = (StreamReturned None, np) \<and> stream_closed np"
proof -
  let ?h = "handleQuicStream (\<lambda>_. False) 0 demo_capnp (\<lambda>_ _ _. Inl ErrEOF) demo_proxy
      (\<lambda>_. ws_open [] []) demo_short"
  have "fst ?h = StreamReturned None"
    by (simp add: handleQuicStream_def demo_short_def new_stream_def nop_Read_def
        SafeStreamCloser_Read_def quic_read_def os_read_def os_open_def)
  then have "?h = (StreamReturned None, snd ?h)" by (metis prod.collapse)
  moreover from this have "stream_closed (snd ?h)"
    using stream_handler_safe [of "\<lambda>_. False" 0 demo_capnp "\<lambda>_ _ _. Inl ErrEOF" demo_proxy
      "\<lambda>_. ws_open [] []" demo_short] by blast
  ultimately show ?thesis by blast
qed

text \<open>
  \<open>acceptStream\<close> gives every stream before the first error to a handler, in order, and returns at
  that error: without an error of its own when the context was cancelled, with the wrapped error
  otherwise.
\<close>

theorem accept_stream_all:
  "acceptStream (map Inr qs @ Inl e # rest) =
     (qs, Some (if errors_is e ErrCanceled then None
                else Some (ErrWrap ''failed to accept QUIC stream'' e))) \<and>
   acceptStream (map Inr qs) = (qs, None)"
  by (induction qs) auto

end
