(* ===== verification/Duplex.thy ===== *)
theory Duplex
  imports NetConn
begin

text \<open>
  Two connections joined by two copy loops that run in their own goroutines: \<open>a\<close> to \<open>b\<close> and back. The
  port-forwarding TCP connector and the TUN device's \<open>pipe\<close> are of this shape; they differ in the loop
  body and in what a loop does when it ends. The interface \<open>duplex_laws\<close> says what they have to provide;
  that nothing is lost, reordered or invented follows once for both.
\<close>

section \<open>Sockets that can be closed\<close>

definition sock_read :: "os_conn reader" where
  "sock_read n c = (if oc_closed c then (ReadRet [] (Some err_closed), c) else os_read n c)"

definition sock_write :: "os_conn writer" where
  "sock_write p c = (if oc_closed c then ((0, Some err_closed), c) else os_write p c)"

interpretation sock_reader: conn_reader sock_read
  "\<lambda>c. if oc_closed c then [] else os_pending c" os_work "\<lambda>n c. 0 < n \<and> \<not> oc_closed c"
proof unfold_locales
  fix n c d er c'
  assume r: "sock_read n c = (ReadRet d er, c')"
  then show "length d \<le> n"
    using os_reader.read_bound [of n c] by (auto simp: sock_read_def split: if_splits)
  assume "0 < n \<and> \<not> oc_closed c"
  with r show "os_work c' < os_work c" "0 < n \<and> \<not> oc_closed c'"
    using os_reader.read_work [of n c] os_read_cases [of c n]
    by (auto simp: sock_read_def split: if_splits)
next
  fix n c d c'
  assume "0 < n \<and> \<not> oc_closed c" "sock_read n c = (ReadRet d None, c')"
  then show "(if oc_closed c then [] else os_pending c) =
      d @ (if oc_closed c' then [] else os_pending c')"
    using os_reader.read_pending [of n c d c'] os_read_cases [of c n]
    by (auto simp: sock_read_def split: if_splits)
next
  fix n c d e c'
  assume "0 < n \<and> \<not> oc_closed c" "sock_read n c = (ReadRet d (Some e), c')"
  then show "d = [] \<and> (if oc_closed c then [] else os_pending c) = []"
    using os_reader.read_error [of n c d e c'] by (simp add: sock_read_def)
next
  fix n c c'
  assume "sock_read n c = (ReadBlock, c')"
  then show "(if oc_closed c then [] else os_pending c) = []"
    using os_reader.read_block [of n c c'] by (auto simp: sock_read_def split: if_splits)
qed

interpretation sock_writer: conn_writer sock_write oc_out "\<lambda>_. True" "\<lambda>c. \<not> oc_closed c \<and> oc_wr c = []"
proof unfold_locales
  show "oc_out c' = oc_out c @ p \<and> True" if "sock_write p c = ((length p, None), c')" for p c c'
    using that os_writer.write_sent [of p c c'] by (auto simp: sock_write_def split: if_splits)
  show "\<exists>j. oc_out c' = oc_out c @ take j p" if "sock_write p c = ((k, er), c')" for p c k er c'
    using that os_write_prefix [of p c k er c']
    by (auto simp: sock_write_def intro: exI [of _ 0] split: if_splits)
  show "\<exists>c'. sock_write p c = ((length p, None), c') \<and> \<not> oc_closed c' \<and> oc_wr c' = []"
    if "\<not> oc_closed c \<and> oc_wr c = []" for c p
    using that by (simp add: sock_write_def os_write_def)
qed

lemma sock_read_frame: "sock_read n c = (r, c') \<Longrightarrow>
    oc_out c' = oc_out c \<and> oc_wr c' = oc_wr c \<and> oc_closed c' = oc_closed c"
  using os_read_cases [of c n] by (auto simp: sock_read_def split: if_splits)

lemma sock_write_frame: "sock_write p c = (r, c') \<Longrightarrow>
    oc_in c' = oc_in c \<and> oc_closed c' = oc_closed c"
  by (auto simp: sock_write_def os_write_def split: if_splits list.splits write_event.splits)

section \<open>The two loops\<close>

record ('a, 'b) duplex =
  dx_a :: 'a
  dx_b :: 'b
  dx_stop :: bool \<comment> \<open>the flag both loops test\<close>
  dx_ab :: bool \<comment> \<open>the loop from \<open>a\<close> to \<open>b\<close> is running\<close>
  dx_ba :: bool

type_synonym ('d, 's) iteration = "bool \<Rightarrow> 'd \<Rightarrow> 's \<Rightarrow> loop_end option \<times> 'd \<times> 's"

text \<open>
  One round of either loop, for given bodies and deferred actions; a round that blocks is no step.
\<close>

inductive duplex_step :: "('b, 'a) iteration \<Rightarrow> ('a, 'b) iteration \<Rightarrow>
    (('a, 'b) duplex \<Rightarrow> ('a, 'b) duplex) \<Rightarrow> (('a, 'b) duplex \<Rightarrow> ('a, 'b) duplex) \<Rightarrow>
    ('a, 'b) duplex \<Rightarrow> ('a, 'b) duplex \<Rightarrow> bool"
  for iter_ab iter_ba end_ab end_ba where
  ab_go: "dx_ab s \<Longrightarrow> iter_ab (dx_stop s) (dx_b s) (dx_a s) = (None, b, a) \<Longrightarrow>
    duplex_step iter_ab iter_ba end_ab end_ba s (s\<lparr>dx_a := a, dx_b := b\<rparr>)"
| ab_end: "dx_ab s \<Longrightarrow> iter_ab (dx_stop s) (dx_b s) (dx_a s) = (Some (LoopEnded e), b, a) \<Longrightarrow>
    duplex_step iter_ab iter_ba end_ab end_ba s (end_ab (s\<lparr>dx_a := a, dx_b := b, dx_ab := False\<rparr>))"
| ba_go: "dx_ba s \<Longrightarrow> iter_ba (dx_stop s) (dx_a s) (dx_b s) = (None, a, b) \<Longrightarrow>
    duplex_step iter_ab iter_ba end_ab end_ba s (s\<lparr>dx_a := a, dx_b := b\<rparr>)"
| ba_end: "dx_ba s \<Longrightarrow> iter_ba (dx_stop s) (dx_a s) (dx_b s) = (Some (LoopEnded e), a, b) \<Longrightarrow>
    duplex_step iter_ab iter_ba end_ab end_ba s (end_ba (s\<lparr>dx_a := a, dx_b := b, dx_ba := False\<rparr>))"

definition duplex_start :: "'a \<Rightarrow> 'b \<Rightarrow> ('a, 'b) duplex" where
  "duplex_start a b = \<lparr>dx_a = a, dx_b = b, dx_stop = False, dx_ab = True, dx_ba = True\<rparr>"

section \<open>What holds of every such pair\<close>

text \<open>One direction: a running loop has lost nothing, a stopped one delivered a prefix.\<close>

definition dir_inv :: "bool \<Rightarrow> bytes \<Rightarrow> bytes \<Rightarrow> bool \<Rightarrow> bytes \<Rightarrow> bool" where
  "dir_inv running sent pend ok whole \<longleftrightarrow>
     (if running then sent @ pend = whole \<and> ok else \<exists>rest. sent @ rest = whole)"

text \<open>
  The laws. A round of a loop moves a part of the source's pending bytes to the destination (all of
  what it read when it goes on), reports a block only with nothing pending, and leaves the other
  direction alone; a deferred action changes neither the bytes sent nor those pending.
\<close>

locale direction =
  fixes iter :: "('d, 's) iteration"
    and sent_s :: "'s \<Rightarrow> bytes" and pend_s :: "'s \<Rightarrow> bytes" and ok_s :: "'s \<Rightarrow> bool" and rd_s :: "'s \<Rightarrow> bool"
    and sent_d :: "'d \<Rightarrow> bytes" and pend_d :: "'d \<Rightarrow> bytes" and ok_d :: "'d \<Rightarrow> bool" and rd_d :: "'d \<Rightarrow> bool"
  assumes go_on: "rd_s x \<Longrightarrow> ok_d y \<Longrightarrow> iter st y x = (None, y', x') \<Longrightarrow>
      \<exists>d. sent_d y' = sent_d y @ d \<and> pend_s x = d @ pend_s x' \<and> ok_d y'"
    and stop: "rd_s x \<Longrightarrow> ok_d y \<Longrightarrow> iter st y x = (Some r, y', x') \<Longrightarrow>
      \<exists>d rest. sent_d y' = sent_d y @ d \<and> pend_s x = d @ rest"
    and block: "iter st y x = (Some LoopBlocked, y', x') \<Longrightarrow> pend_s x = []"
    and frame: "iter st y x = (q, y', x') \<Longrightarrow>
      sent_s x' = sent_s x \<and> ok_s x' = ok_s x \<and> pend_d y' = pend_d y \<and> (rd_s x \<longrightarrow> rd_s x') \<and> rd_d y' = rd_d y"

text \<open>Both directions, and what the loops do when they end.\<close>

locale duplex_laws =
  ab: direction iter_ab sent_a pend_a ok_a rd_a sent_b pend_b ok_b rd_b +
  ba: direction iter_ba sent_b pend_b ok_b rd_b sent_a pend_a ok_a rd_a
  for iter_ab :: "('b, 'a) iteration" and iter_ba :: "('a, 'b) iteration"
    and end_ab :: "('a, 'b) duplex \<Rightarrow> ('a, 'b) duplex" and end_ba :: "('a, 'b) duplex \<Rightarrow> ('a, 'b) duplex"
    and sent_a :: "'a \<Rightarrow> bytes" and pend_a :: "'a \<Rightarrow> bytes" and ok_a :: "'a \<Rightarrow> bool" and rd_a :: "'a \<Rightarrow> bool"
    and sent_b :: "'b \<Rightarrow> bytes" and pend_b :: "'b \<Rightarrow> bytes" and ok_b :: "'b \<Rightarrow> bool" and rd_b :: "'b \<Rightarrow> bool" +
  assumes end_ab_frame: "dx_ab (end_ab s) = dx_ab s \<and> dx_ba (end_ab s) = dx_ba s \<and>
      sent_a (dx_a (end_ab s)) = sent_a (dx_a s) \<and> pend_a (dx_a (end_ab s)) = pend_a (dx_a s) \<and>
      sent_b (dx_b (end_ab s)) = sent_b (dx_b s) \<and> pend_b (dx_b (end_ab s)) = pend_b (dx_b s) \<and>
      ok_a (dx_a (end_ab s)) = ok_a (dx_a s) \<and> ok_b (dx_b (end_ab s)) = ok_b (dx_b s) \<and>
      rd_a (dx_a (end_ab s)) = rd_a (dx_a s) \<and> rd_b (dx_b (end_ab s)) = rd_b (dx_b s)"
    and end_ba_frame: "dx_ab (end_ba s) = dx_ab s \<and> dx_ba (end_ba s) = dx_ba s \<and>
      sent_a (dx_a (end_ba s)) = sent_a (dx_a s) \<and> pend_a (dx_a (end_ba s)) = pend_a (dx_a s) \<and>
      sent_b (dx_b (end_ba s)) = sent_b (dx_b s) \<and> pend_b (dx_b (end_ba s)) = pend_b (dx_b s) \<and>
      ok_a (dx_a (end_ba s)) = ok_a (dx_a s) \<and> ok_b (dx_b (end_ba s)) = ok_b (dx_b s) \<and>
      rd_a (dx_a (end_ba s)) = rd_a (dx_a s) \<and> rd_b (dx_b (end_ba s)) = rd_b (dx_b s)"
begin

definition dx_inv :: "bytes \<Rightarrow> bytes \<Rightarrow> ('a, 'b) duplex \<Rightarrow> bool" where
  "dx_inv U D s \<longleftrightarrow>
     rd_a (dx_a s) \<and> rd_b (dx_b s) \<and>
     dir_inv (dx_ab s) (sent_b (dx_b s)) (pend_a (dx_a s)) (ok_b (dx_b s)) U \<and>
     dir_inv (dx_ba s) (sent_a (dx_a s)) (pend_b (dx_b s)) (ok_a (dx_a s)) D"

lemma dx_inv_step:
  assumes "dx_inv U D s" "duplex_step iter_ab iter_ba end_ab end_ba s s'"
  shows "dx_inv U D s'"
  using assms(2)
proof cases
  case (ab_go b a)
  with assms(1) have r: "rd_a (dx_a s)" and w: "ok_b (dx_b s)" by (simp_all add: dx_inv_def dir_inv_def)
  from ab.go_on [OF r w ab_go(3)] ab.frame [OF ab_go(3)] assms(1) ab_go(1,2) show ?thesis
    by (auto simp: dx_inv_def dir_inv_def split: if_splits)
next
  case (ab_end e b a)
  with assms(1) have r: "rd_a (dx_a s)" and w: "ok_b (dx_b s)" by (simp_all add: dx_inv_def dir_inv_def)
  from ab.stop [OF r w ab_end(3)] ab.frame [OF ab_end(3)] assms(1) ab_end(1,2) show ?thesis
    by (auto simp: dx_inv_def dir_inv_def end_ab_frame split: if_splits)
next
  case (ba_go a b)
  with assms(1) have r: "rd_b (dx_b s)" and w: "ok_a (dx_a s)" by (simp_all add: dx_inv_def dir_inv_def)
  from ba.go_on [OF r w ba_go(3)] ba.frame [OF ba_go(3)] assms(1) ba_go(1,2) show ?thesis
    by (auto simp: dx_inv_def dir_inv_def split: if_splits)
next
  case (ba_end e a b)
  with assms(1) have r: "rd_b (dx_b s)" and w: "ok_a (dx_a s)" by (simp_all add: dx_inv_def dir_inv_def)
  from ba.stop [OF r w ba_end(3)] ba.frame [OF ba_end(3)] assms(1) ba_end(1,2) show ?thesis
    by (auto simp: dx_inv_def dir_inv_def end_ba_frame split: if_splits)
qed

lemma dx_reachable:
  assumes "(duplex_step iter_ab iter_ba end_ab end_ba)\<^sup>*\<^sup>* (duplex_start a b) s" "ok_a a" "ok_b b" "rd_a a" "rd_b b"
  shows "dx_inv (sent_b b @ pend_a a) (sent_a a @ pend_b b) s"
  using assms(1)
proof (induction rule: rtranclp_induct)
  case base
  show ?case using assms(2-5) by (simp add: dx_inv_def dir_inv_def duplex_start_def)
qed (rule dx_inv_step)

text \<open>
  In every reachable state each side has received a prefix of the other side's bytes, and a running
  loop that has nothing to read has delivered all of them.
\<close>

lemma duplex_safe:
  assumes "(duplex_step iter_ab iter_ba end_ab end_ba)\<^sup>*\<^sup>* (duplex_start a b) s" "ok_a a" "ok_b b" "rd_a a" "rd_b b"
  shows "\<exists>rest. sent_b (dx_b s) @ rest = sent_b b @ pend_a a"
    and "\<exists>rest. sent_a (dx_a s) @ rest = sent_a a @ pend_b b"
    and "dx_ab s \<Longrightarrow> sent_b (dx_b s) @ pend_a (dx_a s) = sent_b b @ pend_a a"
    and "dx_ba s \<Longrightarrow> sent_a (dx_a s) @ pend_b (dx_b s) = sent_a a @ pend_b b"
  using dx_reachable [OF assms] by (auto simp: dx_inv_def dir_inv_def split: if_splits)

lemma duplex_delivered:
  assumes "(duplex_step iter_ab iter_ba end_ab end_ba)\<^sup>*\<^sup>* (duplex_start a b) s" "ok_a a" "ok_b b" "rd_a a" "rd_b b"
  shows "dx_ab s \<Longrightarrow> iter_ab (dx_stop s) (dx_b s) (dx_a s) = (Some LoopBlocked, b', a') \<Longrightarrow>
      sent_b (dx_b s) = sent_b b @ pend_a a"
    and "dx_ba s \<Longrightarrow> iter_ba (dx_stop s) (dx_a s) (dx_b s) = (Some LoopBlocked, a', b') \<Longrightarrow>
      sent_a (dx_a s) = sent_a a @ pend_b b"
  using duplex_safe(3,4) [OF assms] ab.block ba.block by fastforce+

end

end
