(* ===== verification/Metadata.thy ===== *)
theory Metadata
  imports Netip
begin

text \<open>
  \<open>src/client/tun/metadata\<close>: the description of one transport session that the TUN side
  hands to the proxy, and the protocol numbers both ends share.
\<close>

definition network_String :: "byte \<Rightarrow> string" where
  "network_String n =
     (if n = 1 then ''icmp''
      else if n = 6 then ''tcp''
      else if n = 17 then ''udp''
      else ''network('' @ itoa (unat n) @ '')'')"

definition network_MarshalText :: "byte \<Rightarrow> bytes" where
  "network_MarshalText n = string_bytes (network_String n)"

record metadata =
  md_Network :: byte
  md_IPVersion :: byte
  md_SrcIP :: addr
  md_DstIP :: addr
  md_SrcPort :: u16
  md_DstPort :: u16

definition DestinationAddrPort :: "metadata \<Rightarrow> addr \<times> u16" where
  "DestinationAddrPort m = (md_DstIP m, md_DstPort m)"

definition DestinationAddress :: "metadata \<Rightarrow> string" where
  "DestinationAddress m = (case DestinationAddrPort m of (a, p) \<Rightarrow> addr_port_string a p)"

definition SourceAddrPort :: "metadata \<Rightarrow> addr \<times> u16" where
  "SourceAddrPort m = (md_SrcIP m, md_SrcPort m)"

definition SourceAddress :: "metadata \<Rightarrow> string" where
  "SourceAddress m = (case SourceAddrPort m of (a, p) \<Rightarrow> addr_port_string a p)"

text \<open>
  \<open>net.TCPAddr\<close> and \<open>net.UDPAddr\<close> as built by \<open>TCPAddrFromAddrPort\<close> and
  \<open>UDPAddrFromAddrPort\<close>: the address bytes, the zone and the port.
\<close>

record sock_addr =
  sa_IP :: bytes
  sa_Port :: nat
  sa_Zone :: string

definition sock_addr_from :: "addr \<times> u16 \<Rightarrow> sock_addr" where
  "sock_addr_from ap =
     \<lparr>sa_IP = as_slice (fst ap), sa_Port = unat (snd ap), sa_Zone = addr_zone (fst ap)\<rparr>"

definition TCPAddr :: "metadata \<Rightarrow> sock_addr option" where
  "TCPAddr m =
     (if md_Network m \<noteq> 6 \<or> \<not> addr_is_valid (md_DstIP m) then None
      else Some (sock_addr_from (DestinationAddrPort m)))"

definition UDPAddr :: "metadata \<Rightarrow> sock_addr option" where
  "UDPAddr m =
     (if md_Network m \<noteq> 17 \<or> \<not> addr_is_valid (md_DstIP m) then None
      else Some (sock_addr_from (DestinationAddrPort m)))"

definition SourceUDPAddr :: "metadata \<Rightarrow> sock_addr option" where
  "SourceUDPAddr m =
     (if md_Network m \<noteq> 17 \<or> \<not> addr_is_valid (md_SrcIP m) then None
      else Some (sock_addr_from (SourceAddrPort m)))"

text \<open>\<open>Addr\<close>, the \<open>net.Addr\<close> view of a session: its network name and its destination.\<close>

record session_addr =
  ad_metadata :: metadata

definition Metadata_Addr :: "metadata \<Rightarrow> session_addr" where
  "Metadata_Addr m = \<lparr>ad_metadata = m\<rparr>"

definition addr_Metadata :: "session_addr \<Rightarrow> metadata" where
  "addr_Metadata a = ad_metadata a"

definition addr_Network :: "session_addr \<Rightarrow> string" where
  "addr_Network a = network_String (md_Network (ad_metadata a))"

definition addr_String :: "session_addr \<Rightarrow> string" where
  "addr_String a = DestinationAddress (ad_metadata a)"

text \<open>What the TUN side establishes for every session: a usable destination without a zone,
  an IP version that agrees with it.\<close>

definition metadata_wf :: "metadata \<Rightarrow> bool" where
  "metadata_wf m \<longleftrightarrow>
     addr_is_valid (md_DstIP m) \<and> addr_zone (md_DstIP m) = [] \<and>
     md_IPVersion m = (if addr_is4 (md_DstIP m) then 4 else 6)"

lemma network_String_inj: "network_String a = network_String b \<Longrightarrow> a = b"
  by (auto simp: network_String_def word_unat_eq_iff split: if_splits)

end
