(* ===== verification/ArgoProxy.thy ===== *)
theory ArgoProxy
  imports WsConn Metadata
begin

text \<open>
  \<open>src/client/tun/proxy/argo.go\<close>: a session of the TUN device gets a websocket from the
  transport. A websocket dialled for the session carries the destination in its HTTP headers; one
  taken from the pool was dialled without a destination, and \<open>argoConn\<close> puts a binary header
  in front of the first write instead.
\<close>

section \<open>Model\<close>

text \<open>Go's \<open>copy(dst[pos:], src)\<close>: the updated slice and the number of bytes copied.\<close>

definition go_copy :: "bytes \<Rightarrow> nat \<Rightarrow> bytes \<Rightarrow> bytes \<times> nat" where
  "go_copy dst pos src =
     (let n = min (length src) (length dst - pos)
      in (take pos dst @ take n src @ drop (pos + n) dst, n))"

record 'c argo_conn =
  ac_Conn :: 'c
  ac_header :: bytes
  ac_hdrLen :: nat
  ac_headerSent :: bool

definition new_argo_conn :: "'c \<Rightarrow> 'c argo_conn" where
  "new_argo_conn c = \<lparr>ac_Conn = c, ac_header = [], ac_hdrLen = 0, ac_headerSent = False\<rparr>"

text \<open>\<open>PutUint16\<close> panics when fewer than two bytes are left; \<open>None\<close> is that panic.\<close>

definition argo_parseHeader :: "metadata \<Rightarrow> 'c argo_conn \<Rightarrow> 'c argo_conn option" where
  "argo_parseHeader m w =
     (let hdrLen = (if addr_is6 (md_DstIP m) then 20 else 8);
          header0 = replicate hdrLen 0;
          header1 = header0[0 := md_IPVersion m];
          header2 = header1[1 := md_Network m];
          (header3, copied) = go_copy header2 2 (as_slice (md_DstIP m));
          pos = 2 + copied
      in if length header3 < pos + 2 then None
         else Some (w\<lparr>ac_header := fst (go_copy header3 pos (put_uint16 (md_DstPort m))),
                     ac_hdrLen := hdrLen\<rparr>))"

definition argo_addHeader :: "'c argo_conn \<Rightarrow> bytes \<Rightarrow> bytes" where
  "argo_addHeader w p =
     (let buf0 = replicate (length p + ac_hdrLen w) 0;
          buf1 = fst (go_copy buf0 0 (ac_header w))
      in fst (go_copy buf1 (ac_hdrLen w) p))"

definition argo_Read :: "'c reader \<Rightarrow> 'c argo_conn reader" where
  "argo_Read rd n w =
     (case rd n (ac_Conn w) of
        (ReadBlock, c) \<Rightarrow> (ReadBlock, w\<lparr>ac_Conn := c\<rparr>)
      | (ReadRet d (Some e), c) \<Rightarrow> (ReadRet [] (Some e), w\<lparr>ac_Conn := c\<rparr>)
      | (ReadRet d None, c) \<Rightarrow> (ReadRet d None, w\<lparr>ac_Conn := c\<rparr>))"

definition argo_Write :: "'c writer \<Rightarrow> 'c argo_conn writer" where
  "argo_Write wr p w =
     (if ac_headerSent w
      then (case wr p (ac_Conn w) of (r, c) \<Rightarrow> (r, w\<lparr>ac_Conn := c\<rparr>))
      else
        let w1 = w\<lparr>ac_headerSent := True\<rparr>; payload = argo_addHeader w1 p in
        case wr payload (ac_Conn w1) of
          ((n, Some e), c) \<Rightarrow> ((0, Some e), w1\<lparr>ac_Conn := c\<rparr>)
        | ((n, None), c) \<Rightarrow> ((length p, None), w1\<lparr>ac_Conn := c\<rparr>))"

text \<open>
  \<open>Argo.Dial\<close> on the result of the transport's \<open>Dial\<close>: an error, or a connection and whether
  the destination was already sent in the headers. The outer \<open>None\<close> is a panic.
\<close>

datatype 'c proxied = Plain 'c | Wrapped "'c argo_conn"

definition Argo_Dial ::
    "go_error + ('c \<times> bool) \<Rightarrow> metadata \<Rightarrow> (go_error + 'c proxied) option" where
  "Argo_Dial res m =
     (case res of
        Inl e \<Rightarrow> Some (Inl e)
      | Inr (c, headerSent) \<Rightarrow>
          if headerSent then Some (Inr (Plain c))
          else map_option (\<lambda>w. Inr (Wrapped w)) (argo_parseHeader m (new_argo_conn c)))"

section \<open>The header\<close>

text \<open>The header as one list: what \<open>parseHeader\<close> assembles in place.\<close>

definition session_header :: "metadata \<Rightarrow> bytes" where
  "session_header m =
     [md_IPVersion m, md_Network m] @ as_slice (md_DstIP m) @ put_uint16 (md_DstPort m)"

lemma go_copy_fill:
  "length src = length dst - pos \<Longrightarrow> pos \<le> length dst \<Longrightarrow>
    go_copy dst pos src = (take pos dst @ src, length src)"
  by (simp add: go_copy_def)

lemma list_update_head2:
  "2 \<le> k \<Longrightarrow> (replicate k 0)[0 := a, Suc 0 := b] = [a, b] @ replicate (k - 2) 0"
  by (cases k; cases "k - 1") auto

lemma parseHeader_valid:
  assumes "addr_is_valid (md_DstIP m)"
  shows "argo_parseHeader m w =
    Some (w\<lparr>ac_header := session_header m, ac_hdrLen := length (session_header m)\<rparr>)"
proof -
  let ?s = "as_slice (md_DstIP m)"
  let ?k = "if addr_is6 (md_DstIP m) then 20 else 8"
  have len: "length ?s = ?k - 4"
    using assms by (cases "md_DstIP m") (auto simp: put_uint16_def)
  have h3: "go_copy ([md_IPVersion m, md_Network m] @ replicate (?k - 2) 0) 2 ?s =
      ([md_IPVersion m, md_Network m] @ ?s @ [0, 0], ?k - 4)"
    using len by (auto simp: go_copy_def numeral_eq_Suc)
  have h4: "go_copy ([md_IPVersion m, md_Network m] @ ?s @ [0, 0]) (2 + (?k - 4))
      (put_uint16 (md_DstPort m)) = (session_header m, 2)"
    using len by (subst go_copy_fill) (auto simp: session_header_def)
  have k: "length (session_header m) = ?k"
    using len by (auto simp: session_header_def)
  have u: "(replicate ?k 0)[0 := md_IPVersion m, 1 := md_Network m] =
      [md_IPVersion m, md_Network m] @ replicate (?k - 2) 0"
    unfolding One_nat_def by (rule list_update_head2) simp
  show ?thesis
    unfolding argo_parseHeader_def Let_def u h3 prod.case h4 fst_conv k
    using len by simp
qed

lemma parseHeader_never_panics: "argo_parseHeader m w \<noteq> None"
proof (cases "md_DstIP m")
  case AddrZero
  then show ?thesis by (simp add: argo_parseHeader_def go_copy_def)
qed (simp_all add: parseHeader_valid)

lemma addHeader_append:
  assumes "ac_hdrLen w = length (ac_header w)"
  shows "argo_addHeader w p = ac_header w @ p"
  using assms by (simp add: argo_addHeader_def go_copy_def)

section \<open>argoConn over a websocket\<close>

text \<open>
  The bytes of the session itself, without the header; and when the connection is usable: no write
  has failed, so the header, if sent, stands at the front.
\<close>

definition argo_sent :: "gorilla_conn argo_conn \<Rightarrow> bytes" where
  "argo_sent w =
     (if ac_headerSent w then drop (length (ac_header w)) (gorilla_sent (ac_Conn w)) else [])"

definition argo_ok :: "gorilla_conn argo_conn \<Rightarrow> bool" where
  "argo_ok w \<longleftrightarrow>
     ac_hdrLen w = length (ac_header w) \<and>
     (if ac_headerSent w
      then take (length (ac_header w)) (gorilla_sent (ac_Conn w)) = ac_header w
      else gorilla_sent (ac_Conn w) = [])"

lemma argo_ok_split:
  "argo_ok w \<Longrightarrow> ac_headerSent w \<Longrightarrow> gorilla_sent (ac_Conn w) = ac_header w @ argo_sent w"
  by (metis append_take_drop_id argo_ok_def argo_sent_def)

lemma argo_write_later:
  assumes "argo_ok w" "ac_headerSent w" "gorilla_sent c = gorilla_sent (ac_Conn w) @ d"
  shows "argo_sent (w\<lparr>ac_Conn := c\<rparr>) = argo_sent w @ d \<and> argo_ok (w\<lparr>ac_Conn := c\<rparr>)"
proof -
  obtain rest where "gorilla_sent (ac_Conn w) = ac_header w @ rest"
    using argo_ok_split [OF assms(1,2)] by blast
  with assms show ?thesis by (simp add: argo_sent_def argo_ok_def)
qed

text \<open>A write adds its bytes to the stream or nothing; without an error it adds them.\<close>

lemma argo_Write_sent:
  assumes ok: "argo_ok w" and wr: "argo_Write GorillaConn_Write p w = ((k, er), w')"
  shows "argo_sent w' = argo_sent w \<or> argo_sent w' = argo_sent w @ p"
    and "er = None \<Longrightarrow> argo_sent w' = argo_sent w @ p \<and> argo_ok w'"
proof -
  have "(argo_sent w' = argo_sent w \<or> argo_sent w' = argo_sent w @ p) \<and>
    (er = None \<longrightarrow> argo_sent w' = argo_sent w @ p \<and> argo_ok w')"
  proof (cases "ac_headerSent w")
    case True
    with wr obtain c where c: "GorillaConn_Write p (ac_Conn w) = ((k, er), c)" and w': "w' = w\<lparr>ac_Conn := c\<rparr>"
      by (auto simp: argo_Write_def split: prod.splits)
    from gorilla_write_sent [OF c] argo_write_later [OF ok True, of c "[]"] argo_write_later [OF ok True, of c p] w'
    show ?thesis by auto
  next
    case False
    with wr ok obtain c j where c: "GorillaConn_Write (ac_header w @ p) (ac_Conn w) = ((j, er), c)"
      and w': "w' = w\<lparr>ac_headerSent := True, ac_Conn := c\<rparr>"
      by (auto simp: argo_Write_def Let_def addHeader_append argo_ok_def split: prod.splits option.splits)
    from gorilla_write_sent [OF c] ok False w' show ?thesis
      by (auto simp: argo_sent_def argo_ok_def)
  qed
  then show "argo_sent w' = argo_sent w \<or> argo_sent w' = argo_sent w @ p"
    and "er = None \<Longrightarrow> argo_sent w' = argo_sent w @ p \<and> argo_ok w'" by blast+
qed

interpretation argo_writer:
  conn_writer "argo_Write GorillaConn_Write" argo_sent argo_ok "\<lambda>w. g_wr (ac_Conn w) = []"
proof unfold_locales
  fix w p w'
  assume "argo_ok w" "argo_Write GorillaConn_Write p w = ((length p, None), w')"
  then show "argo_sent w' = argo_sent w @ p \<and> argo_ok w'" by (rule argo_Write_sent(2)) simp
next
  fix w p k er w'
  assume "argo_ok w" "argo_Write GorillaConn_Write p w = ((k, er), w')"
  from argo_Write_sent(1) [OF this] show "\<exists>j. argo_sent w' = argo_sent w @ take j p"
    by (metis append_Nil2 take0 take_all_iff order_refl)
next
  fix w :: "gorilla_conn argo_conn" and p
  assume "argo_ok w" "g_wr (ac_Conn w) = []"
  then show "\<exists>w'. argo_Write GorillaConn_Write p w = ((length p, None), w') \<and> g_wr (ac_Conn w') = []"
    by (auto simp: argo_Write_def GorillaConn_Write_def Let_def)
qed

text \<open>Reading through \<open>argoConn\<close> is reading the websocket.\<close>

lemma argo_Read_eq:
  "argo_Read GorillaConn_Read n w =
     (fst (GorillaConn_Read n (ac_Conn w)), w\<lparr>ac_Conn := snd (GorillaConn_Read n (ac_Conn w))\<rparr>)"
  using gorilla_read_cases [of "ac_Conn w" n] by (auto simp: argo_Read_def)

interpretation argo_reader:
  conn_reader "argo_Read GorillaConn_Read" "\<lambda>w. gorilla_pending (ac_Conn w)"
    "\<lambda>w. gorilla_work (ac_Conn w)" "\<lambda>n _. 0 < n"
proof unfold_locales
  fix n d er and w w' :: "gorilla_conn argo_conn"
  assume "argo_Read GorillaConn_Read n w = (ReadRet d er, w')"
  then have r: "GorillaConn_Read n (ac_Conn w) = (ReadRet d er, ac_Conn w')"
    by (auto simp: argo_Read_eq prod_eq_iff)
  from gorilla_reader.read_bound [OF r] show "length d \<le> n" .
  assume n: "0 < n"
  from gorilla_reader.read_work [OF n r] show "gorilla_work (ac_Conn w') < gorilla_work (ac_Conn w)" .
next
  fix n d and w w' :: "gorilla_conn argo_conn"
  assume "0 < n" "argo_Read GorillaConn_Read n w = (ReadRet d None, w')"
  then show "gorilla_pending (ac_Conn w) = d @ gorilla_pending (ac_Conn w')"
    using gorilla_reader.read_pending [of n "ac_Conn w" d "ac_Conn w'"]
    by (auto simp: argo_Read_eq prod_eq_iff)
next
  fix n d e and w w' :: "gorilla_conn argo_conn"
  assume "0 < n" "argo_Read GorillaConn_Read n w = (ReadRet d (Some e), w')"
  then show "d = [] \<and> gorilla_pending (ac_Conn w) = []"
    using gorilla_reader.read_error [of n "ac_Conn w" d e "ac_Conn w'"]
    by (auto simp: argo_Read_eq prod_eq_iff)
next
  fix n and w w' :: "gorilla_conn argo_conn"
  assume "argo_Read GorillaConn_Read n w = (ReadBlock, w')"
  then show "gorilla_pending (ac_Conn w) = []"
    using gorilla_reader.read_block [of n "ac_Conn w" "ac_Conn w'"]
    by (auto simp: argo_Read_eq prod_eq_iff)
qed

end
