(* ===== verification/ArgoPool.thy ===== *)
theory ArgoPool
  imports Metadata "HOL-Library.Multiset"
begin

text \<open>
  \<open>src/client/tun/transport/argo/dialer.go\<close>: the websocket transport and its pool of connections
  dialled in advance. \<open>Dial\<close> takes a pooled connection or dials one for the session, and starts
  \<open>preDial\<close> in the background to refill the pool; \<open>Close\<close> stops both.

  The operations are given twice: as functions, each run without interruption, and as a step
  relation in which the goroutines interleave at every access to the shared counter and channel.
  The relation carries the invariant; the functions are shown to be runs of it.
\<close>

section \<open>Construction\<close>

record params =
  pr_Scheme :: string
  pr_CdnIP :: string
  pr_Url :: string
  pr_Port :: int
  pr_PoolSize :: int

type_synonym http_header = "string \<rightharpoonup> string"

definition header_get :: "http_header \<Rightarrow> string \<Rightarrow> string" where
  "header_get h k = (case h k of None \<Rightarrow> [] | Some v \<Rightarrow> v)"

text \<open>
  The shared state. The last three fields are history: the connections dialled for the pool, those
  of them handed to a session, and those closed by the transport.
\<close>

record 'c websocket =
  ws_params :: params
  ws_headers :: http_header
  ws_Url :: string
  ws_Address :: string
  ws_connCount :: int
  ws_stopped :: bool
  ws_connPool :: "'c chan"
  ws_dialed :: "'c list"
  ws_handed :: "'c list"
  ws_closed :: "'c list"

definition url_host :: "string \<Rightarrow> string" where
  "url_host u = hd (split_char (CHR ''/'') u)"

text \<open>\<open>make(chan net.Conn, n)\<close> panics for a negative size: \<open>None\<close>.\<close>

definition NewWebsocket :: "params \<Rightarrow> 'c websocket option" where
  "NewWebsocket p =
     (let host = url_host (pr_Url p) in
      if pr_PoolSize p < 0 then None
      else Some \<lparr>ws_params = p,
                 ws_headers = [''Host'' \<mapsto> host, ''User-Agent'' \<mapsto> ''DEV''],
                 ws_Url = pr_Scheme p @ ''://'' @ host,
                 ws_Address = join_host_port (pr_CdnIP p) (itoa_int (pr_Port p)),
                 ws_connCount = 0, ws_stopped = False,
                 ws_connPool = make_chan (nat (pr_PoolSize p)),
                 ws_dialed = [], ws_handed = [], ws_closed = []\<rparr>)"

text \<open>Where the \<open>NetDial\<close> hook connects to, when the library asks for \<open>addr\<close>.\<close>

definition net_dial_target :: "('c, 'z) websocket_scheme \<Rightarrow> string \<Rightarrow> string" where
  "net_dial_target w addr = (if pr_CdnIP (ws_params w) \<noteq> [] then ws_Address w else addr)"

definition header :: "('c, 'z) websocket_scheme \<Rightarrow> metadata option \<Rightarrow> http_header" where
  "header w md =
     (case md of
        None \<Rightarrow> ws_headers w
      | Some m \<Rightarrow> [''Host'' \<mapsto> header_get (ws_headers w) ''Host'', ''User-Agent'' \<mapsto> ''DEV'',
                   ''Forward-Dest'' \<mapsto> DestinationAddress m,
                   ''Forward-Proto'' \<mapsto> network_String (md_Network m)])"

section \<open>The operations, one at a time\<close>

text \<open>
  \<open>connect\<close> hands the URL and the headers to the websocket library; what the library answers is
  a parameter.
\<close>

type_synonym 'c ws_library = "string \<Rightarrow> http_header \<Rightarrow> go_error + 'c"

definition connect :: "'c ws_library \<Rightarrow> ('c, 'z) websocket_scheme \<Rightarrow> metadata option \<Rightarrow> go_error + 'c" where
  "connect lib w md = lib (ws_Url w) (header w md)"

definition preDial :: "'c ws_library \<Rightarrow> ('c, 'z) websocket_scheme \<Rightarrow> ('c, 'z) websocket_scheme" where
  "preDial lib w =
     (if ws_connCount w \<ge> pr_PoolSize (ws_params w) then w
      else if ws_stopped w then w
      else case connect lib w None of
             Inl e \<Rightarrow> w
           | Inr c \<Rightarrow>
               (let w1 = w\<lparr>ws_dialed := c # ws_dialed w\<rparr> in
                case chan_send c (ws_connPool w) of
                  SendOk p \<Rightarrow> w1\<lparr>ws_connPool := p, ws_connCount := ws_connCount w + 1\<rparr>
                | SendBlock \<Rightarrow> w1\<lparr>ws_closed := c # ws_closed w\<rparr>
                | SendPanic \<Rightarrow> w1))"

text \<open>
  \<open>Dial\<close>'s \<open>select\<close>: with both channels ready Go picks one, here by \<open>pick_stop\<close>. The second component of a
  success says whether the destination went out in the headers.
\<close>

definition Dial :: "bool \<Rightarrow> 'c ws_library \<Rightarrow> metadata \<Rightarrow> ('c, 'z) websocket_scheme
    \<Rightarrow> (go_error + ('c \<times> bool)) \<times> ('c, 'z) websocket_scheme" where
  "Dial pick_stop lib m w =
     (case chan_recv (ws_connPool w) of
        RecvVal c p \<Rightarrow>
          if ws_stopped w \<and> pick_stop then (Inl (ErrText ''websocket has been closed''), w)
          else (Inr (c, False),
                w\<lparr>ws_connPool := p, ws_connCount := ws_connCount w - 1,
                  ws_handed := c # ws_handed w\<rparr>)
      | _ \<Rightarrow>
          if ws_stopped w then (Inl (ErrText ''websocket has been closed''), w)
          else case connect lib w (Some m) of
                 Inl e \<Rightarrow> (Inl e, w)
               | Inr c \<Rightarrow> (Inr (c, True), w))"

text \<open>
  \<open>Close\<close> closes \<open>stopChan\<close> (a second call panics) and ranges over the pool: it closes what is there and
  then waits for more, since \<open>connPool\<close> itself is never closed.
\<close>

datatype 'w close_result = ClosePanics | CloseReturns 'w | CloseWaits 'w

definition Websocket_Close :: "('c, 'z) websocket_scheme \<Rightarrow> ('c, 'z) websocket_scheme close_result" where
  "Websocket_Close w =
     (if ws_stopped w then ClosePanics
      else
        let p = ws_connPool w;
            w1 = w\<lparr>ws_stopped := True, ws_connPool := p\<lparr>ch_buf := []\<rparr>,
                   ws_closed := rev (ch_buf p) @ ws_closed w\<rparr>
        in case chan_recv (ws_connPool w1) of
             RecvClosed \<Rightarrow> CloseReturns w1
           | _ \<Rightarrow> CloseWaits w1)"

section \<open>The goroutines interleaved\<close>

text \<open>
  Where the goroutine that holds \<open>mu\<close> is: past the counter test, past the \<open>stopChan\<close> test, with a
  connection in hand, or after the send and before \<open>connCount.Add(1)\<close>.
\<close>

datatype 'c pre_pc = Checked | Dialing | Connected 'c | Pushed

record 'c pool_sys = "'c websocket" +
  pl_mu :: "'c pre_pc option"
  pl_waiting :: nat \<comment> \<open>\<open>preDial\<close> goroutines started and not yet at the lock\<close>
  pl_dec :: nat \<comment> \<open>\<open>Dial\<close> calls between the receive and \<open>connCount.Add(-1)\<close>\<close>
  pl_drained :: nat \<comment> \<open>connections taken by \<open>Close\<close>, which does not touch the counter\<close>

inductive pool_step :: "'c pool_sys \<Rightarrow> 'c pool_sys \<Rightarrow> bool" where
  pre_full: "pl_mu s = None \<Longrightarrow> 0 < pl_waiting s \<Longrightarrow> ws_connCount s \<ge> pr_PoolSize (ws_params s) \<Longrightarrow>
    pool_step s (s\<lparr>pl_waiting := pl_waiting s - 1\<rparr>)"
| pre_lock: "pl_mu s = None \<Longrightarrow> 0 < pl_waiting s \<Longrightarrow> ws_connCount s < pr_PoolSize (ws_params s) \<Longrightarrow>
    pool_step s (s\<lparr>pl_waiting := pl_waiting s - 1, pl_mu := Some Checked\<rparr>)"
| pre_stopped: "pl_mu s = Some Checked \<Longrightarrow> ws_stopped s \<Longrightarrow> pool_step s (s\<lparr>pl_mu := None\<rparr>)"
| pre_default: "pl_mu s = Some Checked \<Longrightarrow> \<not> ws_stopped s \<Longrightarrow>
    pool_step s (s\<lparr>pl_mu := Some Dialing\<rparr>)"
| pre_error: "pl_mu s = Some Dialing \<Longrightarrow> pool_step s (s\<lparr>pl_mu := None\<rparr>)"
| pre_connected: "pl_mu s = Some Dialing \<Longrightarrow>
    pool_step s (s\<lparr>pl_mu := Some (Connected c), ws_dialed := c # ws_dialed s\<rparr>)"
| pre_push: "pl_mu s = Some (Connected c) \<Longrightarrow> chan_send c (ws_connPool s) = SendOk p \<Longrightarrow>
    pool_step s (s\<lparr>pl_mu := Some Pushed, ws_connPool := p\<rparr>)"
| pre_drop: "pl_mu s = Some (Connected c) \<Longrightarrow> chan_send c (ws_connPool s) = SendBlock \<Longrightarrow>
    pool_step s (s\<lparr>pl_mu := None, ws_closed := c # ws_closed s\<rparr>)"
| pre_count: "pl_mu s = Some Pushed \<Longrightarrow>
    pool_step s (s\<lparr>pl_mu := None, ws_connCount := ws_connCount s + 1\<rparr>)"
| dial_stopped: "ws_stopped s \<Longrightarrow> pool_step s (s\<lparr>pl_waiting := pl_waiting s + 1\<rparr>)"
| dial_take: "chan_recv (ws_connPool s) = RecvVal c p \<Longrightarrow>
    pool_step s (s\<lparr>ws_connPool := p, ws_handed := c # ws_handed s, pl_dec := pl_dec s + 1\<rparr>)"
| dial_count: "0 < pl_dec s \<Longrightarrow>
    pool_step s (s\<lparr>ws_connCount := ws_connCount s - 1, pl_dec := pl_dec s - 1,
                   pl_waiting := pl_waiting s + 1\<rparr>)"
| dial_direct: "\<not> ws_stopped s \<Longrightarrow> chan_recv (ws_connPool s) = RecvBlock \<Longrightarrow>
    pool_step s (s\<lparr>pl_waiting := pl_waiting s + 1\<rparr>)"
| close_stop: "\<not> ws_stopped s \<Longrightarrow> pool_step s (s\<lparr>ws_stopped := True\<rparr>)"
| close_drain: "ws_stopped s \<Longrightarrow> chan_recv (ws_connPool s) = RecvVal c p \<Longrightarrow>
    pool_step s (s\<lparr>ws_connPool := p, ws_closed := c # ws_closed s, pl_drained := pl_drained s + 1\<rparr>)"

inductive_cases pool_stepE: "pool_step s t"

definition pool_start :: "'c pool_sys \<Rightarrow> bool" where
  "pool_start s \<longleftrightarrow>
     NewWebsocket (ws_params s) = Some (websocket.truncate s) \<and>
     pl_mu s = None \<and> pl_waiting s = 0 \<and> pl_dec s = 0 \<and> pl_drained s = 0"

text \<open>Connections the lock holder has in hand, and how it relates to the counter.\<close>

definition in_hand :: "'c pre_pc option \<Rightarrow> 'c multiset" where
  "in_hand mu = (case mu of Some (Connected c) \<Rightarrow> {#c#} | _ \<Rightarrow> {#})"

definition uncounted :: "'c pre_pc option \<Rightarrow> int" where
  "uncounted mu = (case mu of Some Pushed \<Rightarrow> 1 | _ \<Rightarrow> 0)"

definition reserved :: "'c pre_pc option \<Rightarrow> int" where
  "reserved mu = (case mu of None \<Rightarrow> 0 | Some _ \<Rightarrow> 1)"

definition pool_inv :: "'c pool_sys \<Rightarrow> bool" where
  "pool_inv s \<longleftrightarrow>
     0 \<le> pr_PoolSize (ws_params s) \<and>
     ch_cap (ws_connPool s) = nat (pr_PoolSize (ws_params s)) \<and>
     \<not> ch_closed (ws_connPool s) \<and>
     ws_connCount s + uncounted (pl_mu s) =
       int (length (ch_buf (ws_connPool s))) + int (pl_dec s) + int (pl_drained s) \<and>
     ws_connCount s + reserved (pl_mu s) \<le> pr_PoolSize (ws_params s) \<and>
     mset (ws_dialed s) =
       mset (ch_buf (ws_connPool s)) + mset (ws_handed s) + mset (ws_closed s) + in_hand (pl_mu s)"

lemmas pool_inv_simps = pool_inv_def in_hand_def uncounted_def reserved_def

lemma pool_start_fields:
  assumes "pool_start s"
  shows "ws_connPool s = make_chan (nat (pr_PoolSize (ws_params s)))" "ws_connCount s = 0"
    "ws_dialed s = []" "ws_handed s = []" "ws_closed s = []" "0 \<le> pr_PoolSize (ws_params s)"
  using assms
  by (auto simp: pool_start_def NewWebsocket_def websocket.truncate_def Let_def split: if_splits)

lemma pool_inv_start: "pool_start s \<Longrightarrow> pool_inv s"
  using pool_start_fields [of s] by (simp add: pool_start_def pool_inv_simps)

lemma pool_inv_step: "pool_inv s \<Longrightarrow> pool_step s t \<Longrightarrow> pool_inv t"
  by (erule pool_stepE) (auto simp: pool_inv_simps chan_iffs split: option.splits pre_pc.splits)

interpretation argo_pool: invariant_system pool_start pool_step pool_inv
  by unfold_locales (auto intro: pool_inv_start pool_inv_step)

section \<open>The functions are runs of the interleaved system\<close>

lemmas step_then = converse_rtranclp_into_rtranclp [of pool_step]

lemma steps_to: "pool_step\<^sup>*\<^sup>* s t \<Longrightarrow> t = t' \<Longrightarrow> pool_step\<^sup>*\<^sup>* s t'"
  by simp

text \<open>From the moment it dials until it releases the lock.\<close>

lemma preDial_push_run:
  assumes "pl_mu s = Some Dialing" "chan_send c (ws_connPool s) = SendOk q"
  shows "pool_step\<^sup>*\<^sup>* s (s\<lparr>ws_dialed := c # ws_dialed s, ws_connPool := q,
    ws_connCount := ws_connCount s + 1, pl_mu := None\<rparr>)"
proof -
  let ?s1 = "s\<lparr>pl_mu := Some (Connected c), ws_dialed := c # ws_dialed s\<rparr>"
  let ?s2 = "?s1\<lparr>pl_mu := Some Pushed, ws_connPool := q\<rparr>"
  have "pool_step s ?s1" using assms(1) by (rule pool_step.pre_connected)
  moreover have "pool_step ?s1 ?s2" using assms(2) by (intro pool_step.pre_push) simp_all
  moreover have "pool_step ?s2 (?s2\<lparr>pl_mu := None, ws_connCount := ws_connCount ?s2 + 1\<rparr>)"
    by (rule pool_step.pre_count) simp
  ultimately have "pool_step\<^sup>*\<^sup>* s (?s2\<lparr>pl_mu := None, ws_connCount := ws_connCount ?s2 + 1\<rparr>)"
    by (blast intro: step_then)
  then show ?thesis by (rule steps_to) (cases s, simp)
qed

lemma preDial_drop_run:
  assumes "pl_mu s = Some Dialing" "chan_send c (ws_connPool s) = SendBlock"
  shows "pool_step\<^sup>*\<^sup>* s (s\<lparr>ws_dialed := c # ws_dialed s, ws_closed := c # ws_closed s, pl_mu := None\<rparr>)"
proof -
  let ?s1 = "s\<lparr>pl_mu := Some (Connected c), ws_dialed := c # ws_dialed s\<rparr>"
  have "pool_step s ?s1" using assms(1) by (rule pool_step.pre_connected)
  moreover have "pool_step ?s1 (?s1\<lparr>pl_mu := None, ws_closed := c # ws_closed ?s1\<rparr>)"
    using assms(2) by (intro pool_step.pre_drop) simp_all
  ultimately have "pool_step\<^sup>*\<^sup>* s (?s1\<lparr>pl_mu := None, ws_closed := c # ws_closed ?s1\<rparr>)"
    by (blast intro: step_then)
  then show ?thesis by (rule steps_to) (cases s, simp)
qed

text \<open>The part of \<open>preDial\<close> after a successful connect.\<close>

lemma preDial_connected_run:
  assumes "pl_mu s = None" "\<not> ch_closed (ws_connPool s)"
    and "\<not> ws_connCount s \<ge> pr_PoolSize (ws_params s)" "\<not> ws_stopped s" "connect lib s None = Inr c"
  shows "pool_step\<^sup>*\<^sup>* (s\<lparr>pl_waiting := k, pl_mu := Some Dialing\<rparr>) ((preDial lib s)\<lparr>pl_waiting := k\<rparr>)"
proof -
  let ?s2 = "s\<lparr>pl_waiting := k, pl_mu := Some Dialing\<rparr>"
  have pd: "preDial lib s = (case chan_send c (ws_connPool s) of
      SendOk q \<Rightarrow> s\<lparr>ws_dialed := c # ws_dialed s, ws_connPool := q, ws_connCount := ws_connCount s + 1\<rparr>
    | SendBlock \<Rightarrow> s\<lparr>ws_dialed := c # ws_dialed s, ws_closed := c # ws_closed s\<rparr>
    | SendPanic \<Rightarrow> s\<lparr>ws_dialed := c # ws_dialed s\<rparr>)"
    using assms(3-5) by (simp add: preDial_def Let_def split: send_result.split)
  show ?thesis
  proof (cases "chan_send c (ws_connPool s)")
    case (SendOk q)
    have "?s2\<lparr>ws_dialed := c # ws_dialed ?s2, ws_connPool := q, ws_connCount := ws_connCount ?s2 + 1,
        pl_mu := None\<rparr> = (preDial lib s)\<lparr>pl_waiting := k\<rparr>"
      using pd SendOk assms(1) by (cases s) simp
    with preDial_push_run [of ?s2 c q] SendOk show ?thesis by simp
  next
    case SendBlock
    have "?s2\<lparr>ws_dialed := c # ws_dialed ?s2, ws_closed := c # ws_closed ?s2, pl_mu := None\<rparr> =
        (preDial lib s)\<lparr>pl_waiting := k\<rparr>"
      using pd SendBlock assms(1) by (cases s) simp
    with preDial_drop_run [of ?s2 c] SendBlock show ?thesis by simp
  next
    case SendPanic
    with assms(2) show ?thesis by (simp add: chan_send_def split: if_splits)
  qed
qed

lemma preDial_run:
  assumes "pl_mu s = None" "pl_waiting s = Suc k" "\<not> ch_closed (ws_connPool s)"
  shows "pool_step\<^sup>*\<^sup>* s ((preDial lib s)\<lparr>pl_waiting := k\<rparr>)"
proof (cases "ws_connCount s \<ge> pr_PoolSize (ws_params s)")
  case True
  with assms pool_step.pre_full [of s] show ?thesis by (auto simp: preDial_def)
next
  case False
  let ?s1 = "s\<lparr>pl_waiting := k, pl_mu := Some Checked\<rparr>"
  let ?s2 = "s\<lparr>pl_waiting := k, pl_mu := Some Dialing\<rparr>"
  have home: "s\<lparr>pl_waiting := k, pl_mu := None\<rparr> = s\<lparr>pl_waiting := k\<rparr>" using assms by simp
  have s1: "pool_step s ?s1" using False assms pool_step.pre_lock [of s] by simp
  show ?thesis
  proof (cases "ws_stopped s")
    case True
    with pool_step.pre_stopped [of ?s1] s1 home False show ?thesis
      by (auto simp: preDial_def intro: step_then)
  next
    case ns: False
    have s2: "pool_step ?s1 ?s2" using ns pool_step.pre_default [of ?s1] by simp
    have "pool_step\<^sup>*\<^sup>* ?s2 ((preDial lib s)\<lparr>pl_waiting := k\<rparr>)"
    proof (cases "connect lib s None")
      case (Inl e)
      with pool_step.pre_error [of ?s2] home False ns show ?thesis by (auto simp: preDial_def)
    qed (rule preDial_connected_run [OF assms(1,3) False ns])
    with s1 s2 show ?thesis by (blast intro: step_then)
  qed
qed

lemma Dial_run:
  assumes "pool_inv s"
  shows "pool_step\<^sup>*\<^sup>* s ((snd (Dial pick_stop lib m s))\<lparr>pl_waiting := pl_waiting s + 1\<rparr>)"
proof (cases "chan_recv (ws_connPool s)")
  case (RecvVal c p)
  show ?thesis
  proof (cases "ws_stopped s \<and> pick_stop")
    case True
    with RecvVal pool_step.dial_stopped [of s] show ?thesis by (auto simp: Dial_def)
  next
    case False
    let ?s1 = "s\<lparr>ws_connPool := p, ws_handed := c # ws_handed s, pl_dec := pl_dec s + 1\<rparr>"
    have "pool_step s ?s1" using RecvVal by (rule pool_step.dial_take)
    moreover have "pool_step ?s1 (?s1\<lparr>ws_connCount := ws_connCount s - 1, pl_dec := pl_dec s,
        pl_waiting := pl_waiting s + 1\<rparr>)"
      using pool_step.dial_count [of ?s1] by simp
    moreover have "?s1\<lparr>ws_connCount := ws_connCount s - 1, pl_dec := pl_dec s,
        pl_waiting := pl_waiting s + 1\<rparr> =
        (snd (Dial pick_stop lib m s))\<lparr>pl_waiting := pl_waiting s + 1\<rparr>"
      using RecvVal False by (cases s) (auto simp: Dial_def)
    ultimately show ?thesis by (metis step_then r_into_rtranclp)
  qed
next
  case RecvClosed
  with assms show ?thesis by (simp add: chan_iffs pool_inv_def)
next
  case RecvBlock
  with pool_step.dial_stopped [of s] pool_step.dial_direct [of s] show ?thesis
    by (cases "ws_stopped s") (auto simp: Dial_def split: sum.split)
qed

lemma drain_run:
  assumes "ws_stopped s" "ch_buf (ws_connPool s) = cs"
  shows "pool_step\<^sup>*\<^sup>* s (s\<lparr>ws_connPool := (ws_connPool s)\<lparr>ch_buf := []\<rparr>,
      ws_closed := rev cs @ ws_closed s, pl_drained := pl_drained s + length cs\<rparr>)"
  using assms
proof (induction cs arbitrary: s)
  case Nil
  then have "s\<lparr>ws_connPool := (ws_connPool s)\<lparr>ch_buf := []\<rparr>, ws_closed := rev [] @ ws_closed s,
      pl_drained := pl_drained s + length []\<rparr> = s"
    by simp
  then show ?case by simp
next
  case (Cons c cs)
  let ?p = "(ws_connPool s)\<lparr>ch_buf := cs\<rparr>"
  let ?s1 = "s\<lparr>ws_connPool := ?p, ws_closed := c # ws_closed s, pl_drained := pl_drained s + 1\<rparr>"
  have "pool_step s ?s1"
    using Cons.prems by (intro pool_step.close_drain) (auto simp: chan_iffs)
  with Cons.IH [of ?s1] Cons.prems show ?case by (auto intro: step_then)
qed

lemma Close_run:
  assumes "Websocket_Close s = CloseWaits w"
  shows "pool_step\<^sup>*\<^sup>* s (w\<lparr>pl_drained := pl_drained s + length (ch_buf (ws_connPool s))\<rparr>)"
proof (rule step_then)
  from assms have ns: "\<not> ws_stopped s" by (auto simp: Websocket_Close_def)
  then show "pool_step s (s\<lparr>ws_stopped := True\<rparr>)" by (rule pool_step.close_stop)
  from assms ns show "pool_step\<^sup>*\<^sup>* (s\<lparr>ws_stopped := True\<rparr>)
      (w\<lparr>pl_drained := pl_drained s + length (ch_buf (ws_connPool s))\<rparr>)"
    using drain_run [of "s\<lparr>ws_stopped := True\<rparr>" "ch_buf (ws_connPool s)"]
    by (auto simp: Websocket_Close_def Let_def split: recv_result.splits)
qed

text \<open>
  So what holds for every interleaving holds for the operations, and a state that an
  operation leaves is one the interleavings continue from. Stopping is for good.
\<close>

lemma stopped_forever: "pool_step\<^sup>*\<^sup>* s t \<Longrightarrow> ws_stopped s \<Longrightarrow> ws_stopped t"
  by (induction rule: rtranclp_induct) (auto elim!: pool_stepE)

section \<open>Properties\<close>

text \<open>A small pool for the witnesses, and a run of it: a session is dialled directly and the
  pool is refilled behind it.\<close>

definition demo_params :: params where
  "demo_params = \<lparr>pr_Scheme = ''wss'', pr_CdnIP = [], pr_Url = ''a.b/c'', pr_Port = 443, pr_PoolSize = 1\<rparr>"

definition demo_pool :: "nat pool_sys" where
  "demo_pool = \<lparr>ws_params = demo_params,
     ws_headers = [''Host'' \<mapsto> ''a.b'', ''User-Agent'' \<mapsto> ''DEV''],
     ws_Url = ''wss://a.b'', ws_Address = '':443'', ws_connCount = 0, ws_stopped = False,
     ws_connPool = make_chan 1, ws_dialed = [], ws_handed = [], ws_closed = [],
     pl_mu = None, pl_waiting = 0, pl_dec = 0, pl_drained = 0\<rparr>"

lemma itoa_443: "itoa 443 = ''443''"
  by code_simp

lemma demo_pool_start: "pool_start demo_pool"
  by (simp add: pool_start_def demo_pool_def demo_params_def NewWebsocket_def websocket.truncate_def
      url_host_def join_host_port_def itoa_int_def itoa_443 Let_def)

definition demo_filled :: "nat pool_sys" where
  "demo_filled = demo_pool\<lparr>ws_dialed := [7], ws_connPool := (make_chan 1)\<lparr>ch_buf := [7]\<rparr>,
     ws_connCount := 1\<rparr>"

definition demo_connected :: "nat pool_sys" where
  "demo_connected = demo_pool\<lparr>pl_mu := Some (Connected 7), ws_dialed := [7]\<rparr>"

lemma demo_waiting: "pool_step\<^sup>*\<^sup>* demo_pool (demo_pool\<lparr>pl_waiting := 1\<rparr>)"
  using pool_step.dial_direct [of demo_pool] by (auto simp: demo_pool_def chan_iffs)

lemma demo_filled_reachable: "pool_step\<^sup>*\<^sup>* demo_pool demo_filled"
proof -
  let ?s = "demo_pool\<lparr>pl_waiting := 1\<rparr>"
  have "pool_step\<^sup>*\<^sup>* ?s ((preDial (\<lambda>u h. Inr 7) ?s)\<lparr>pl_waiting := 0\<rparr>)"
    by (rule preDial_run) (simp_all add: demo_pool_def)
  also have "(preDial (\<lambda>u h. Inr 7) ?s)\<lparr>pl_waiting := 0\<rparr> = demo_filled"
    by (simp add: preDial_def connect_def chan_send_def demo_filled_def demo_pool_def demo_params_def
        make_chan_def)
  finally show ?thesis using demo_waiting by (rule rtranclp_trans [rotated])
qed

lemma demo_connected_reachable: "pool_step\<^sup>*\<^sup>* demo_pool demo_connected"
proof -
  let ?s = "demo_pool\<lparr>pl_waiting := 1\<rparr>"
  let ?a = "demo_pool\<lparr>pl_mu := Some Checked\<rparr>" and ?b = "demo_pool\<lparr>pl_mu := Some Dialing\<rparr>"
  have "pool_step ?s ?a"
    using pool_step.pre_lock [of ?s] by (simp add: demo_pool_def demo_params_def)
  moreover have "pool_step ?a ?b"
    using pool_step.pre_default [of ?a] by (simp add: demo_pool_def)
  moreover have "pool_step ?b demo_connected"
    using pool_step.pre_connected [of ?b 7] by (simp add: demo_pool_def demo_connected_def)
  ultimately show ?thesis using demo_waiting by (meson rtranclp.rtrancl_into_rtrancl)
qed

text \<open>
  C19. However the goroutines interleave, the pool never holds more than \<open>PoolSize\<close> connections, the
  counter stays between \<open>-1\<close> and \<open>PoolSize\<close> (so an \<open>int32\<close> never wraps), and whenever no operation is in
  flight and \<open>Close\<close> has taken nothing the counter equals the number of pooled connections.
\<close>

theorem argo_pool_bounds:
  assumes "pool_start s" and "pool_step\<^sup>*\<^sup>* s t"
  shows "int (length (ch_buf (ws_connPool t))) \<le> pr_PoolSize (ws_params t) \<and>
    - 1 \<le> ws_connCount t \<and> ws_connCount t \<le> pr_PoolSize (ws_params t) \<and>
    (pl_mu t = None \<and> pl_dec t = 0 \<and> pl_drained t = 0 \<longrightarrow>
       ws_connCount t = int (length (ch_buf (ws_connPool t))))"
  using argo_pool.reachable_inv [OF assms]
  by (auto simp: pool_inv_simps split: option.splits pre_pc.splits)

theorem argo_pool_bounds_witness:
  "pool_start demo_pool \<and> pool_step\<^sup>*\<^sup>* demo_pool demo_filled \<and>
   ws_connCount demo_filled = 1 \<and> ws_connCount demo_filled \<le> pr_PoolSize (ws_params demo_filled)"
  using argo_pool_bounds [OF demo_pool_start demo_filled_reachable]
    demo_pool_start demo_filled_reachable by (simp add: demo_filled_def)

text \<open>
  C5. No pooled connection is leaked or used twice: every connection dialled for the pool is, with
  its multiplicity, in the pool, handed to a session, closed by the transport, or in the hand of
  the goroutine that just dialled it.
\<close>

theorem argo_pool_conservation:
  assumes "pool_start s" and "pool_step\<^sup>*\<^sup>* s t"
  shows "mset (ws_dialed t) = mset (ch_buf (ws_connPool t)) + mset (ws_handed t) +
    mset (ws_closed t) + in_hand (pl_mu t)"
  using argo_pool.reachable_inv [OF assms] by (simp add: pool_inv_def)

theorem argo_pool_conservation_witness:
  "pool_start demo_pool \<and> pool_step\<^sup>*\<^sup>* demo_pool demo_filled \<and>
   mset (ws_dialed demo_filled) = {#7#} + mset (ws_handed demo_filled) +
     mset (ws_closed demo_filled) + in_hand (pl_mu demo_filled)"
  using argo_pool_conservation [OF demo_pool_start demo_filled_reachable]
    demo_pool_start demo_filled_reachable by (simp add: demo_filled_def)

text \<open>
  A connection dialled for the pool always finds room: at the send the channel accepts it, so the
  branch of \<open>preDial\<close> that closes the fresh connection is never taken.
\<close>

theorem argo_pool_accepts:
  assumes "pool_start s" and "pool_step\<^sup>*\<^sup>* s t" and "pl_mu t = Some (Connected c)"
  shows "chan_send c (ws_connPool t) =
    SendOk ((ws_connPool t)\<lparr>ch_buf := ch_buf (ws_connPool t) @ [c]\<rparr>)"
  using argo_pool.reachable_inv [OF assms(1,2)] assms(3)
  by (auto simp: pool_inv_simps chan_send_Ok_iff)

theorem argo_pool_accepts_witness:
  "pool_start demo_pool \<and> pool_step\<^sup>*\<^sup>* demo_pool demo_connected \<and>
   chan_send 7 (ws_connPool demo_connected) = SendOk ((make_chan 1)\<lparr>ch_buf := [7]\<rparr>)"
  using argo_pool_accepts [OF demo_pool_start demo_connected_reachable, of 7]
    demo_pool_start demo_connected_reachable by (simp add: demo_connected_def demo_pool_def)

text \<open>
  C20. \<open>Close\<close> never comes back: on an open transport it empties the pool, closing what was in it, and
  then waits on a channel that nothing closes, whatever the sessions and the refilling goroutine do from
  then on; on a closed transport it panics (closing \<open>stopChan\<close> twice), at once and in every later state.
  With the pool empty a closed transport refuses every session without dialling.
\<close>

theorem argo_close_never_returns:
  assumes "pool_start s" and "pool_step\<^sup>*\<^sup>* s t"
  shows "if ws_stopped t then Websocket_Close t = ClosePanics
    else \<exists>w. Websocket_Close t = CloseWaits w \<and> ch_buf (ws_connPool w) = [] \<and>
      chan_recv (ws_connPool w) = RecvBlock \<and>
      mset (ws_closed w) = mset (ws_closed t) + mset (ch_buf (ws_connPool t)) \<and>
      (\<forall>u. pool_step\<^sup>*\<^sup>* (w\<lparr>pl_drained := pl_drained t + length (ch_buf (ws_connPool t))\<rparr>) u \<longrightarrow>
        chan_recv (ws_connPool u) \<noteq> RecvClosed \<and> Websocket_Close u = ClosePanics \<and>
        (chan_recv (ws_connPool u) = RecvBlock \<longrightarrow>
          Dial pick_stop lib m u = (Inl (ErrText ''websocket has been closed''), u)))"
proof (cases "ws_stopped t")
  case False
  have inv: "pool_inv t" using argo_pool.reachable_inv [OF assms] .
  obtain w where w: "Websocket_Close t = CloseWaits w" "ch_buf (ws_connPool w) = []" "ws_stopped w"
    "chan_recv (ws_connPool w) = RecvBlock"
    "mset (ws_closed w) = mset (ws_closed t) + mset (ch_buf (ws_connPool t))"
    using False inv by (auto simp: pool_inv_def Websocket_Close_def Let_def chan_recv_def)
  have "chan_recv (ws_connPool u) \<noteq> RecvClosed \<and> ws_stopped u"
    if "pool_step\<^sup>*\<^sup>* (w\<lparr>pl_drained := pl_drained t + length (ch_buf (ws_connPool t))\<rparr>) u" for u
  proof -
    have "pool_step\<^sup>*\<^sup>* s u" using assms(2) Close_run [OF w(1)] that by (meson rtranclp_trans)
    then have "pool_inv u" using argo_pool.reachable_inv [OF assms(1)] by blast
    moreover have "ws_stopped u" using stopped_forever [OF that] w(3) by simp
    ultimately show ?thesis by (simp add: pool_inv_def chan_recv_def split: list.split)
  qed
  then have "chan_recv (ws_connPool u) \<noteq> RecvClosed \<and> Websocket_Close u = ClosePanics \<and>
      (chan_recv (ws_connPool u) = RecvBlock \<longrightarrow>
        Dial pick_stop lib m u = (Inl (ErrText ''websocket has been closed''), u))"
    if "pool_step\<^sup>*\<^sup>* (w\<lparr>pl_drained := pl_drained t + length (ch_buf (ws_connPool t))\<rparr>) u" for u
    using that by (simp add: Websocket_Close_def Dial_def)
  with w False show ?thesis by auto
qed (simp add: Websocket_Close_def)

text \<open>On the filled pool: the pooled connection is closed, and the second \<open>Close\<close> panics.\<close>

theorem argo_close_never_returns_witness:
  "\<exists>w. Websocket_Close demo_filled = CloseWaits w \<and> chan_recv (ws_connPool w) = RecvBlock \<and>
     ws_closed w = [7] \<and> Websocket_Close (w\<lparr>pl_drained := 1\<rparr>) = ClosePanics"
proof -
  have "\<not> ws_stopped demo_filled" "ws_closed demo_filled = []" "ch_buf (ws_connPool demo_filled) = [7]"
    "pl_drained demo_filled = 0"
    by (simp_all add: demo_filled_def demo_pool_def)
  with argo_close_never_returns [OF demo_pool_start demo_filled_reachable, of undefined undefined undefined]
  show ?thesis by auto
qed

end
