(* ===== verification/Allocator.thy ===== *)
theory Allocator
  imports Prelude "HOL-Library.Multiset"
begin

text \<open>
  \<open>src/client/tun/buffer\<close> and \<open>src/client/tun/internal/pool\<close>: relay buffers come from seventeen pools, one
  per power of two from 1 byte to 64 KiB. A buffer is known by the identity of its backing array, its
  length and its capacity; the bytes do not matter here. \<open>sync.Pool\<close> may hand out any of its buffers or
  make a new one, so \<open>Get\<close> takes that choice as an argument.
\<close>

section \<open>Model\<close>

record slice =
  sl_id :: nat
  sl_len :: nat
  sl_cap :: nat

record allocator =
  al_buffers :: "slice list list"
  al_next :: nat \<comment> \<open>identity of the next array made\<close>

text \<open>\<open>bits.Len32\<close>, and Go's \<open>1 << b\<close> on a 64-bit \<open>int\<close>.\<close>

fun bit_len :: "nat \<Rightarrow> nat" where
  "bit_len n = (if n = 0 then 0 else Suc (bit_len (n div 2)))"

declare bit_len.simps [simp del]

definition len32 :: "u32 \<Rightarrow> int" where
  "len32 w = int (bit_len (unat w))"

definition shl1 :: "u16 \<Rightarrow> int" where
  "shl1 b = signed_take_bit 63 (push_bit (unat b) 1)"

definition msb_pos :: "int \<Rightarrow> u16" where
  "msb_pos sz = word_of_int (len32 (word_of_int sz) - 1)"

definition pool_New :: "nat \<Rightarrow> allocator \<Rightarrow> slice \<times> allocator" where
  "pool_New k a =
     (\<lparr>sl_id = al_next a, sl_len = 2 ^ k, sl_cap = 2 ^ k\<rparr>, a\<lparr>al_next := al_next a + 1\<rparr>)"

definition pool_Get :: "nat option \<Rightarrow> nat \<Rightarrow> allocator \<Rightarrow> slice \<times> allocator" where
  "pool_Get pick k a =
     (let p = al_buffers a ! k in
      case pick of
        Some i \<Rightarrow>
          if i < length p
          then (p ! i, a\<lparr>al_buffers := (al_buffers a)[k := take i p @ drop (Suc i) p]\<rparr>)
          else pool_New k a
      | None \<Rightarrow> pool_New k a)"

definition pool_Put :: "nat \<Rightarrow> slice \<Rightarrow> allocator \<Rightarrow> allocator" where
  "pool_Put k x a = a\<lparr>al_buffers := (al_buffers a)[k := x # al_buffers a ! k]\<rparr>"

definition Allocator_New :: allocator where
  "Allocator_New = \<lparr>al_buffers = replicate 17 [], al_next = 0\<rparr>"

text \<open>An index out of range, and slicing beyond the capacity, panic.\<close>

datatype get_result = GetNil | GetPanic | GetBuf slice

definition get_bucket :: "nat option \<Rightarrow> nat \<Rightarrow> int \<Rightarrow> allocator \<Rightarrow> get_result \<times> allocator" where
  "get_bucket pick k sz a =
     (if length (al_buffers a) \<le> k then (GetPanic, a)
      else case pool_Get pick k a of
             (x, a') \<Rightarrow>
               if sz \<le> int (sl_cap x) then (GetBuf (x\<lparr>sl_len := nat sz\<rparr>), a')
               else (GetPanic, a'))"

definition Allocator_Get :: "nat option \<Rightarrow> int \<Rightarrow> allocator \<Rightarrow> get_result \<times> allocator" where
  "Allocator_Get pick sz a =
     (if sz \<le> 0 \<or> sz > 65536 then (GetNil, a)
      else
        let b = msb_pos sz in
        if sz = shl1 b then get_bucket pick (unat b) sz a
        else get_bucket pick (unat (b + 1)) sz a)"

text \<open>\<open>Put\<close>: an error for a bad capacity; \<open>None\<close> would be an index panic.\<close>

definition Allocator_Put :: "slice \<Rightarrow> allocator \<Rightarrow> (go_error option \<times> allocator) option" where
  "Allocator_Put buf a =
     (let c = int (sl_cap buf); b = msb_pos c in
      if c = 0 \<or> c > 65536 \<or> c \<noteq> shl1 b
      then Some (Some (ErrText ''allocator Put() incorrect buffer size''), a)
      else if length (al_buffers a) \<le> unat b then None
      else Some (None, pool_Put (unat b) buf a))"

text \<open>The package's own allocator, as the relays use it.\<close>

definition buffer_Get :: "nat option \<Rightarrow> int \<Rightarrow> allocator \<Rightarrow> get_result \<times> allocator" where
  "buffer_Get pick sz a = Allocator_Get pick sz a"

definition buffer_Put :: "slice \<Rightarrow> allocator \<Rightarrow> (go_error option \<times> allocator) option" where
  "buffer_Put buf a = Allocator_Put buf a"

lemmas buffer_defs = buffer_Get_def buffer_Put_def

section \<open>The most significant bit\<close>

lemma bit_len_bounds: "0 < n \<Longrightarrow> 2 ^ (bit_len n - 1) \<le> n \<and> n < 2 ^ bit_len n \<and> 0 < bit_len n"
proof (induction n rule: bit_len.induct)
  case (1 n)
  show ?case
  proof (cases "n div 2 = 0")
    case True
    with 1(2) have "n = 1" by linarith
    then show ?thesis by (simp add: bit_len.simps)
  next
    case False
    with 1 have ih: "2 ^ (bit_len (n div 2) - 1) \<le> n div 2" "n div 2 < 2 ^ bit_len (n div 2)"
      "0 < bit_len (n div 2)" by auto
    then obtain k where k: "bit_len (n div 2) = Suc k" by (cases "bit_len (n div 2)") auto
    have "bit_len n = Suc (Suc k)" using 1(2) k by (subst bit_len.simps) simp
    with ih k show ?thesis by auto
  qed
qed

lemma bit_len_eqI: "2 ^ k \<le> n \<Longrightarrow> n < 2 ^ Suc k \<Longrightarrow> bit_len n = Suc k"
proof -
  assume a: "2 ^ k \<le> n" "n < 2 ^ Suc k"
  then have "0 < n" by (metis le_eq_less_or_eq zero_less_numeral zero_less_power less_le_trans)
  note b = bit_len_bounds [OF this]
  have "k < bit_len n"
    using a(1) b by (metis le_less_trans nat_power_less_imp_less zero_less_numeral)
  moreover have "bit_len n - 1 < Suc k"
    using a(2) b by (metis le_less_trans nat_power_less_imp_less zero_less_numeral)
  ultimately show ?thesis by linarith
qed

lemma shl1_small:
  assumes "unat b < 63"
  shows "shl1 b = 2 ^ unat b"
proof -
  have "(2 :: int) ^ unat b < 2 ^ 63" using assms by (intro power_strict_increasing) auto
  moreover have "- (2 ^ 63) \<le> (2 :: int) ^ unat b"
    by (rule order_trans [of _ 0]) simp_all
  ultimately show ?thesis
    by (simp add: shl1_def push_bit_eq_mult signed_take_bit_int_eq_self)
qed

text \<open>The position of the highest bit of a size in range.\<close>

lemma msb_pos_bounds:
  assumes "0 < n" "n \<le> 65536"
  shows "2 ^ unat (msb_pos (int n)) \<le> n \<and> n < 2 ^ Suc (unat (msb_pos (int n))) \<and>
    unat (msb_pos (int n)) \<le> 16"
proof -
  have w: "unat (word_of_int (int n) :: u32) = n"
    using assms by (simp add: unat_of_nat take_bit_nat_eq_self)
  note b = bit_len_bounds [OF assms(1)]
  have "(2::nat) ^ (bit_len n - 1) < 2 ^ 17"
    using b assms(2) by (simp add: order_le_less_trans)
  then have l: "bit_len n - 1 < 17" by (metis nat_power_less_imp_less zero_less_numeral)
  have "unat (msb_pos (int n)) = bit_len n - 1"
  proof -
    have "len32 (word_of_int (int n)) - 1 = int (bit_len n - 1)"
      using w b by (simp add: len32_def of_nat_diff)
    then show ?thesis
      using l by (simp add: msb_pos_def unat_of_nat take_bit_nat_eq_self)
  qed
  with b l show ?thesis by simp
qed

text \<open>The bucket for a size: the exponent of the least power of two that holds it.\<close>

definition bucket_of :: "nat \<Rightarrow> nat" where
  "bucket_of n = (LEAST k. n \<le> 2 ^ k)"

lemma bucket_of_eqI: "n \<le> 2 ^ k \<Longrightarrow> (\<And>j. j < k \<Longrightarrow> 2 ^ j < n) \<Longrightarrow> bucket_of n = k"
  unfolding bucket_of_def by (rule Least_equality) (auto simp: not_le [symmetric])

lemma Allocator_Get_bucket:
  assumes "0 < n" "n \<le> 65536"
  shows "Allocator_Get pick (int n) a = get_bucket pick (bucket_of n) (int n) a \<and>
    bucket_of n \<le> 16 \<and> n \<le> 2 ^ bucket_of n \<and> 2 ^ bucket_of n < 2 * n"
proof -
  let ?b = "unat (msb_pos (int n))"
  note m = msb_pos_bounds [OF assms]
  have sh: "shl1 (msb_pos (int n)) = 2 ^ ?b" using m by (intro shl1_small) simp
  have mono: "2 ^ j < n" if "j < ?b" for j
  proof -
    have "(2 :: nat) ^ j < 2 ^ ?b" using that by (rule power_strict_increasing) simp
    with m show ?thesis by linarith
  qed
  show ?thesis
  proof (cases "n = 2 ^ ?b")
    case True
    then have "int n = 2 ^ ?b" by (metis of_nat_numeral of_nat_power)
    moreover have "bucket_of n = ?b" using True mono by (intro bucket_of_eqI) simp_all
    ultimately show ?thesis
      using sh m assms True by (simp add: Allocator_Get_def Let_def)
  next
    case False
    with m have lt: "2 ^ ?b < n" by simp
    with assms have "(2::nat) ^ ?b < 2 ^ 16" by simp
    then have b: "?b < 16" by (metis nat_power_less_imp_less zero_less_numeral)
    have u: "unat (msb_pos (int n) + 1) = Suc ?b"
      using b by (simp add: unat_word_ariths take_bit_nat_eq_self)
    have "int n \<noteq> 2 ^ ?b" using False by (metis of_nat_eq_iff of_nat_numeral of_nat_power)
    moreover have "bucket_of n = Suc ?b"
      using m lt mono by (intro bucket_of_eqI) (auto simp: less_Suc_eq)
    ultimately show ?thesis
      using sh m assms u b lt by (simp add: Allocator_Get_def Let_def)
  qed
qed

section \<open>Ownership\<close>

text \<open>
  The allocator together with the buffers its clients hold. Clients put back only what they hold; the
  runtime may drop pooled buffers at any time.
\<close>

record alloc_sys =
  as_alloc :: allocator
  as_held :: "slice list"

inductive alloc_step :: "alloc_sys \<Rightarrow> alloc_sys \<Rightarrow> bool" where
  get: "Allocator_Get pick sz (as_alloc s) = (GetBuf x, a) \<Longrightarrow>
    alloc_step s (s\<lparr>as_alloc := a, as_held := x # as_held s\<rparr>)"
| put: "x \<in> set (as_held s) \<Longrightarrow> Allocator_Put x (as_alloc s) = Some (None, a) \<Longrightarrow>
    alloc_step s (s\<lparr>as_alloc := a, as_held := remove1 x (as_held s)\<rparr>)"
| collect: "k < length (al_buffers a) \<Longrightarrow> as_alloc s = a \<Longrightarrow> i < length (al_buffers a ! k) \<Longrightarrow>
    alloc_step s (s\<lparr>as_alloc := a\<lparr>al_buffers :=
      (al_buffers a)[k := take i (al_buffers a ! k) @ drop (Suc i) (al_buffers a ! k)]\<rparr>\<rparr>)"

definition buckets_ok :: "allocator \<Rightarrow> bool" where
  "buckets_ok a \<longleftrightarrow>
     length (al_buffers a) = 17 \<and> (\<forall>k < 17. \<forall>x \<in> set (al_buffers a ! k). sl_cap x = 2 ^ k)"

definition all_ids :: "alloc_sys \<Rightarrow> nat multiset" where
  "all_ids s = image_mset sl_id (mset (concat (al_buffers (as_alloc s))) + mset (as_held s))"

definition alloc_inv :: "alloc_sys \<Rightarrow> bool" where
  "alloc_inv s \<longleftrightarrow>
     buckets_ok (as_alloc s) \<and>
     (\<forall>x \<in> set (as_held s). \<exists>k \<le> 16. sl_cap x = 2 ^ k) \<and>
     (\<forall>n. count (all_ids s) n \<le> 1) \<and>
     (\<forall>n \<in># all_ids s. n < al_next (as_alloc s))"

lemma distinct_if_count: "(\<And>n. count (mset xs) n \<le> 1) \<Longrightarrow> distinct xs"
  unfolding distinct_count_atmost_1
  by (metis count_eq_zero_iff le_neq_implies_less less_one not_in_iff set_mset_mset)

lemma mset_concat_update:
  "k < length xss \<Longrightarrow> mset (concat (xss[k := ys])) + mset (xss ! k) = mset (concat xss) + mset ys"
  by (induction xss arbitrary: k) (auto simp: nth_Cons split: nat.splits)

abbreviation pooled_ids :: "allocator \<Rightarrow> nat multiset" where
  "pooled_ids a \<equiv> image_mset sl_id (mset (concat (al_buffers a)))"

lemma bucket_without:
  assumes "buckets_ok a" "k < 17" "i < length (al_buffers a ! k)"
    and b: "b = a\<lparr>al_buffers := (al_buffers a)[k := take i (al_buffers a ! k) @ drop (Suc i) (al_buffers a ! k)]\<rparr>"
  shows "buckets_ok b" "pooled_ids a = pooled_ids b + {#sl_id (al_buffers a ! k ! i)#}"
proof -
  have l: "k < length (al_buffers a)" using assms by (simp add: buckets_ok_def)
  show "buckets_ok b"
    using assms by (auto simp: buckets_ok_def nth_list_update dest: in_set_takeD in_set_dropD)
  have "mset (concat (al_buffers b)) + mset (al_buffers a ! k) =
      mset (concat (al_buffers a)) + mset (take i (al_buffers a ! k) @ drop (Suc i) (al_buffers a ! k))"
    using mset_concat_update [OF l] b by simp
  then have "mset (concat (al_buffers a)) = mset (concat (al_buffers b)) + {#al_buffers a ! k ! i#}"
    unfolding mset_remove_nth [OF assms(3)] by (simp add: ac_simps)
  then show "pooled_ids a = pooled_ids b + {#sl_id (al_buffers a ! k ! i)#}" by simp
qed

lemma get_bucket_ok:
  assumes ok: "buckets_ok a" and k: "k < 17" and sz: "0 < sz" "sz \<le> 2 ^ k"
  shows "\<exists>x a'. get_bucket pick k sz a = (GetBuf x, a') \<and> buckets_ok a' \<and> sl_cap x = 2 ^ k \<and>
    sl_len x = nat sz \<and>
    (al_next a' = al_next a \<and> pooled_ids a = pooled_ids a' + {#sl_id x#} \<or>
     al_next a' = al_next a + 1 \<and> sl_id x = al_next a \<and> pooled_ids a' = pooled_ids a)"
proof (cases "\<exists>i. pick = Some i \<and> i < length (al_buffers a ! k)")
  case True
  then obtain i where i: "pick = Some i" "i < length (al_buffers a ! k)" by blast
  have cap: "sl_cap (al_buffers a ! k ! i) = 2 ^ k"
    using ok k nth_mem [OF i(2)] by (simp add: buckets_ok_def)
  from bucket_without [OF ok k i(2) refl] i cap ok k sz show ?thesis
    by (simp add: get_bucket_def pool_Get_def buckets_ok_def Let_def)
next
  case False
  then have "pool_Get pick k a = pool_New k a"
    by (auto simp: pool_Get_def Let_def split: option.splits)
  with ok k sz show ?thesis
    by (simp add: get_bucket_def pool_New_def buckets_ok_def)
qed

lemma Allocator_Get_ok:
  assumes "buckets_ok a" "0 < sz" "sz \<le> 65536"
  shows "\<exists>x a'. Allocator_Get pick sz a = (GetBuf x, a') \<and> buckets_ok a' \<and>
    sl_cap x = 2 ^ bucket_of (nat sz) \<and> bucket_of (nat sz) \<le> 16 \<and> sl_len x = nat sz \<and>
    (al_next a' = al_next a \<and> pooled_ids a = pooled_ids a' + {#sl_id x#} \<or>
     al_next a' = al_next a + 1 \<and> sl_id x = al_next a \<and> pooled_ids a' = pooled_ids a)"
proof -
  have b: "Allocator_Get pick sz a = get_bucket pick (bucket_of (nat sz)) sz a"
    "bucket_of (nat sz) \<le> 16" "nat sz \<le> 2 ^ bucket_of (nat sz)"
    using Allocator_Get_bucket [of "nat sz" pick a] assms by simp_all
  then have "sz \<le> 2 ^ bucket_of (nat sz)" by (simp add: nat_le_iff)
  with get_bucket_ok [OF assms(1), of "bucket_of (nat sz)" sz pick] b assms(2) show ?thesis by simp
qed

lemma Allocator_Put_pow2:
  assumes "buckets_ok a" "sl_cap x = 2 ^ k" "k \<le> 16"
  shows "Allocator_Put x a = Some (None, pool_Put k x a)"
proof -
  have "(2::nat) ^ k \<le> 2 ^ 16" using assms(3) by (rule power_increasing) simp
  then have m: "2 ^ unat (msb_pos (int (2 ^ k))) \<le> (2::nat) ^ k \<and>
      (2::nat) ^ k < 2 ^ Suc (unat (msb_pos (int (2 ^ k)))) \<and> unat (msb_pos (int (2 ^ k))) \<le> 16"
    by (intro msb_pos_bounds) simp_all
  then have u: "unat (msb_pos (int (2 ^ k))) = k"
    by (metis le_antisym less_Suc_eq_le nat_power_less_imp_less power_le_imp_le_exp
        one_less_numeral_iff semiring_norm(76) zero_less_numeral)
  then have "shl1 (msb_pos (int (2 ^ k))) = 2 ^ k" using m by (subst shl1_small) simp_all
  moreover have "(2::int) ^ k \<le> 2 ^ 16" using assms(3) by (rule power_increasing) simp
  ultimately show ?thesis
    using u assms by (simp add: Allocator_Put_def buckets_ok_def Let_def)
qed

lemma Allocator_Put_only_pow2:
  assumes "Allocator_Put x a = Some (None, a')"
  shows "\<exists>k \<le> 16. sl_cap x = 2 ^ k"
proof -
  have c: "0 < sl_cap x" "sl_cap x \<le> 65536" "int (sl_cap x) = shl1 (msb_pos (int (sl_cap x)))"
    using assms by (auto simp: Allocator_Put_def Let_def split: if_splits)
  note m = msb_pos_bounds [OF c(1,2)]
  then have "shl1 (msb_pos (int (sl_cap x))) = 2 ^ unat (msb_pos (int (sl_cap x)))"
    by (intro shl1_small) simp
  with c(3) have "sl_cap x = 2 ^ unat (msb_pos (int (sl_cap x)))"
    by (metis of_nat_eq_iff of_nat_numeral of_nat_power)
  with m show ?thesis by blast
qed

lemma pool_Put_ok:
  assumes "buckets_ok a" "sl_cap x = 2 ^ k" "k \<le> 16"
  shows "buckets_ok (pool_Put k x a)" "pooled_ids (pool_Put k x a) = pooled_ids a + {#sl_id x#}"
proof -
  have l: "k < length (al_buffers a)" using assms by (simp add: buckets_ok_def)
  show "buckets_ok (pool_Put k x a)"
    using assms by (auto simp: buckets_ok_def pool_Put_def nth_list_update)
  have "mset (concat (al_buffers (pool_Put k x a))) = mset (concat (al_buffers a)) + {#x#}"
    using mset_concat_update [OF l, of "x # al_buffers a ! k"] by (simp add: pool_Put_def)
  then show "pooled_ids (pool_Put k x a) = pooled_ids a + {#sl_id x#}" by simp
qed

lemma Allocator_Get_range: "Allocator_Get pick sz a = (GetBuf x, a') \<Longrightarrow> 0 < sz \<and> sz \<le> 65536"
  by (auto simp: Allocator_Get_def split: if_splits)

lemma alloc_inv_step:
  assumes inv: "alloc_inv s" and "alloc_step s s'"
  shows "alloc_inv s'"
  using assms(2)
proof cases
  case (get pick sz x a)
  have ok: "buckets_ok (as_alloc s)" using inv by (simp add: alloc_inv_def)
  have r: "0 < sz" "sz \<le> 65536" using Allocator_Get_range [OF get(2)] by simp_all
  from Allocator_Get_ok [OF ok r, of pick] get have g: "buckets_ok a"
    "\<exists>k \<le> 16. sl_cap x = 2 ^ k"
    "al_next a = al_next (as_alloc s) \<and> pooled_ids (as_alloc s) = pooled_ids a + {#sl_id x#} \<or>
     al_next a = al_next (as_alloc s) + 1 \<and> sl_id x = al_next (as_alloc s) \<and>
       pooled_ids a = pooled_ids (as_alloc s)"
    by auto
  from g(3) have "all_ids s' = all_ids s \<and> al_next a = al_next (as_alloc s) \<or>
     all_ids s' = add_mset (al_next (as_alloc s)) (all_ids s) \<and> al_next a = al_next (as_alloc s) + 1"
    using get(1) by (auto simp: all_ids_def)
  moreover have "count (all_ids s) (al_next (as_alloc s)) = 0"
    using inv by (auto simp: alloc_inv_def count_eq_zero_iff)
  ultimately show ?thesis
    using inv g(1,2) get(1) by (auto simp: alloc_inv_def less_Suc_eq)
next
  case (put x a)
  have ok: "buckets_ok (as_alloc s)" using inv by (simp add: alloc_inv_def)
  obtain k where k: "k \<le> 16" "sl_cap x = 2 ^ k" using inv put(2) by (auto simp: alloc_inv_def)
  have a: "a = pool_Put k x (as_alloc s)" using Allocator_Put_pow2 [OF ok k(2,1)] put(3) by simp
  have "mset (as_held s) = add_mset x (mset (remove1 x (as_held s)))" using put(2) by simp
  then have "image_mset sl_id (mset (as_held s)) =
      add_mset (sl_id x) (image_mset sl_id (mset (remove1 x (as_held s))))"
    by (metis image_mset_add_mset)
  then have "all_ids s' = all_ids s"
    using pool_Put_ok(2) [OF ok k(2,1)] put(1) a by (simp add: all_ids_def del: mset_remove1)
  moreover have "al_next a = al_next (as_alloc s)" by (simp add: a pool_Put_def)
  moreover have "\<forall>y \<in> set (remove1 x (as_held s)). \<exists>k \<le> 16. sl_cap y = 2 ^ k"
    using inv set_remove1_subset [of x "as_held s"] by (auto simp: alloc_inv_def)
  ultimately show ?thesis
    using inv pool_Put_ok(1) [OF ok k(2,1)] put(1) a by (simp add: alloc_inv_def)
next
  case (collect k a i)
  have ok: "buckets_ok a" and k: "k < 17" using inv collect by (auto simp: alloc_inv_def buckets_ok_def)
  note b = bucket_without [OF ok k collect(4) refl]
  have ids: "all_ids s = all_ids s' + {#sl_id (al_buffers a ! k ! i)#}"
    using b(2) collect(1,3) by (simp add: all_ids_def)
  have "count (all_ids s') n \<le> 1" for n
    using inv ids by (metis alloc_inv_def count_union le_add1 order_trans)
  moreover have "n < al_next a" if "n \<in># all_ids s'" for n
    using inv ids collect(3) that by (simp add: alloc_inv_def)
  ultimately show ?thesis
    using inv b(1) collect(1,3) by (simp add: alloc_inv_def)
qed

interpretation buffer_owners:
  invariant_system "\<lambda>s. s = \<lparr>as_alloc = Allocator_New, as_held = []\<rparr>" alloc_step alloc_inv
proof unfold_locales
  show "alloc_inv s" if "s = \<lparr>as_alloc = Allocator_New, as_held = []\<rparr>" for s
    using that by (simp add: alloc_inv_def buckets_ok_def Allocator_New_def all_ids_def)
qed (rule alloc_inv_step)

section \<open>Properties\<close>

text \<open>
  C31. \<open>Get\<close> returns nil outside 1 to 65536; inside, it never panics and returns a buffer of exactly
  the size asked for whose capacity is the least power of two that holds it, so less than half of
  it is wasted, and which \<open>Put\<close> will take back.
\<close>

theorem allocator_get:
  assumes "buckets_ok a"
  shows "(sz \<le> 0 \<or> 65536 < sz \<longrightarrow> Allocator_Get pick sz a = (GetNil, a)) \<and>
    (0 < sz \<and> sz \<le> 65536 \<longrightarrow>
      (\<exists>x a' k. Allocator_Get pick sz a = (GetBuf x, a') \<and> buckets_ok a' \<and>
        int (sl_len x) = sz \<and> sl_cap x = 2 ^ k \<and> (\<forall>j < k. 2 ^ j < sz) \<and> sz \<le> 2 ^ k \<and>
        int (sl_cap x) < 2 * sz \<and> (\<exists>a''. Allocator_Put x a' = Some (None, a''))))"
proof (intro conjI impI)
  assume r: "0 < sz \<and> sz \<le> 65536"
  then obtain n where n: "sz = int n" "0 < n" "n \<le> 65536"
    by (metis of_nat_0_less_iff of_nat_le_iff of_nat_numeral pos_int_cases)
  let ?k = "bucket_of n"
  obtain x a' where g: "Allocator_Get pick sz a = (GetBuf x, a')" "buckets_ok a'"
    "sl_cap x = 2 ^ ?k" "?k \<le> 16" "sl_len x = n"
    using Allocator_Get_ok [OF assms, of sz pick] r n by auto
  have b: "n \<le> 2 ^ ?k" "2 ^ ?k < 2 * n" using Allocator_Get_bucket [OF n(2,3)] by simp_all
  have "2 ^ j < n" if "j < ?k" for j
    using not_less_Least [of j "\<lambda>k. n \<le> 2 ^ k"] that by (simp add: bucket_of_def not_le)
  then have j: "2 ^ j < sz" if "j < ?k" for j
    using that n(1) by (metis of_nat_less_iff of_nat_numeral of_nat_power)
  have "int n \<le> int (2 ^ ?k)" "int (2 ^ ?k) < int (2 * n)"
    using b by (simp_all only: of_nat_le_iff of_nat_less_iff)
  then have b': "sz \<le> 2 ^ ?k" "2 ^ ?k < 2 * sz" by (simp_all add: n(1))
  show "\<exists>x a' k. Allocator_Get pick sz a = (GetBuf x, a') \<and> buckets_ok a' \<and>
        int (sl_len x) = sz \<and> sl_cap x = 2 ^ k \<and> (\<forall>j < k. 2 ^ j < sz) \<and> sz \<le> 2 ^ k \<and>
        int (sl_cap x) < 2 * sz \<and> (\<exists>a''. Allocator_Put x a' = Some (None, a''))"
    using g j b' n(1) Allocator_Put_pow2 [OF g(2,3,4)]
    by (intro exI [of _ x] exI [of _ a'] exI [of _ ?k]) simp
qed (auto simp: Allocator_Get_def)

lemma fresh_buckets_ok: "buckets_ok Allocator_New"
  by (simp add: buckets_ok_def Allocator_New_def)

theorem allocator_get_witness:
  "\<exists>x a' k. Allocator_Get None 1280 Allocator_New = (GetBuf x, a') \<and> int (sl_len x) = 1280 \<and>
     sl_cap x = 2 ^ k \<and> int (sl_cap x) < 2560 \<and> (\<exists>a''. Allocator_Put x a' = Some (None, a''))"
  using allocator_get [OF fresh_buckets_ok, of 1280 None] by auto

text \<open>
  C8. A buffer has one owner: in every state reachable by \<open>Get\<close>, by \<open>Put\<close> of held buffers and by
  collections of the runtime, no backing array is held twice, none lies in the pools twice, and none is
  both held and pooled. Each of the 17 buckets holds buffers of its own capacity only, and \<open>Put\<close> accepts
  every held buffer and puts it into the bucket of its capacity, where \<open>Get\<close> will look for its size.
\<close>

theorem allocator_ownership:
  assumes "alloc_step\<^sup>*\<^sup>* \<lparr>as_alloc = Allocator_New, as_held = []\<rparr> s"
  shows "distinct (map sl_id (as_held s)) \<and>
    distinct (map sl_id (concat (al_buffers (as_alloc s)))) \<and>
    set (map sl_id (as_held s)) \<inter> sl_id ` set (concat (al_buffers (as_alloc s))) = {} \<and>
    length (al_buffers (as_alloc s)) = 17 \<and>
    (\<forall>k < 17. \<forall>x \<in> set (al_buffers (as_alloc s) ! k). sl_cap x = 2 ^ k) \<and>
    (\<forall>x \<in> set (as_held s). \<exists>k \<le> 16. sl_cap x = 2 ^ k \<and>
       Allocator_Put x (as_alloc s) = Some (None, pool_Put k x (as_alloc s)))"
proof -
  have inv: "alloc_inv s" using buffer_owners.reachable_inv [OF refl assms] .
  have c: "count (mset (map sl_id (as_held s))) n +
      count (mset (map sl_id (concat (al_buffers (as_alloc s))))) n \<le> 1" for n
    using inv unfolding alloc_inv_def all_ids_def
    by (simp only: image_mset_union count_union mset_map) (simp add: add.commute)
  have "count (mset (map sl_id (as_held s))) n \<le> 1"
    "count (mset (map sl_id (concat (al_buffers (as_alloc s))))) n \<le> 1" for n
    using c [of n] by simp_all
  then have "distinct (map sl_id (as_held s))" "distinct (map sl_id (concat (al_buffers (as_alloc s))))"
    by (simp_all only: distinct_if_count)
  moreover have "length (al_buffers (as_alloc s)) = 17"
    "\<forall>k < 17. \<forall>x \<in> set (al_buffers (as_alloc s) ! k). sl_cap x = 2 ^ k"
    using inv by (simp_all add: alloc_inv_def buckets_ok_def)
  moreover have "set (map sl_id (as_held s)) \<inter> sl_id ` set (concat (al_buffers (as_alloc s))) = {}"
  proof (rule ccontr)
    assume "\<not> ?thesis"
    then obtain n where "n \<in># mset (map sl_id (as_held s))"
      "n \<in># mset (map sl_id (concat (al_buffers (as_alloc s))))" by auto
    with c [of n] show False by (simp only: count_greater_zero_iff [symmetric])
  qed
  moreover have "\<exists>k \<le> 16. sl_cap x = 2 ^ k \<and>
       Allocator_Put x (as_alloc s) = Some (None, pool_Put k x (as_alloc s))"
    if "x \<in> set (as_held s)" for x
    using inv that Allocator_Put_pow2 [of "as_alloc s" x] by (auto simp: alloc_inv_def)
  ultimately show ?thesis by blast
qed

definition demo_alloc :: alloc_sys where
  "demo_alloc = \<lparr>as_alloc = Allocator_New\<lparr>al_next := 1\<rparr>, as_held = [\<lparr>sl_id = 0, sl_len = 1, sl_cap = 1\<rparr>]\<rparr>"

lemma demo_alloc_step: "alloc_step \<lparr>as_alloc = Allocator_New, as_held = []\<rparr> demo_alloc"
proof -
  have "msb_pos 1 = 0" "shl1 0 = 1"
    by (simp_all add: msb_pos_def len32_def bit_len.simps shl1_def)
  then have "Allocator_Get None 1 Allocator_New =
      (GetBuf \<lparr>sl_id = 0, sl_len = 1, sl_cap = 1\<rparr>, Allocator_New\<lparr>al_next := 1\<rparr>)"
    by (simp add: Allocator_Get_def get_bucket_def pool_Get_def pool_New_def Allocator_New_def Let_def)
  from alloc_step.get [of None 1 "\<lparr>as_alloc = Allocator_New, as_held = []\<rparr>"] this show ?thesis
    by (simp add: demo_alloc_def)
qed

definition demo_pooled :: alloc_sys where
  "demo_pooled = \<lparr>as_alloc = Allocator_New\<lparr>al_next := 1,
     al_buffers := (al_buffers Allocator_New)[0 := [\<lparr>sl_id = 0, sl_len = 1, sl_cap = 1\<rparr>]]\<rparr>, as_held = []\<rparr>"

lemma demo_pooled_step: "alloc_step demo_alloc demo_pooled"
proof -
  have "Allocator_Put \<lparr>sl_id = 0, sl_len = 1, sl_cap = 1\<rparr> (as_alloc demo_alloc) =
      Some (None, pool_Put 0 \<lparr>sl_id = 0, sl_len = 1, sl_cap = 1\<rparr> (as_alloc demo_alloc))"
    using Allocator_Put_pow2 [of "as_alloc demo_alloc" "\<lparr>sl_id = 0, sl_len = 1, sl_cap = 1\<rparr>" 0]
    by (simp add: demo_alloc_def fresh_buckets_ok buckets_ok_def Allocator_New_def)
  from alloc_step.put [OF _ this] show ?thesis
    by (simp add: demo_alloc_def demo_pooled_def pool_Put_def Allocator_New_def)
qed

lemma demo_pooled_run: "alloc_step\<^sup>*\<^sup>* \<lparr>as_alloc = Allocator_New, as_held = []\<rparr> demo_pooled"
  using demo_alloc_step demo_pooled_step by (meson r_into_rtranclp rtranclp.rtrancl_into_rtrancl)

text \<open>In the run that gets a buffer of one byte and puts it back, the first bucket holds it.\<close>

theorem allocator_ownership_witness:
  "(\<exists>a. Allocator_Put (hd (as_held demo_alloc)) (as_alloc demo_alloc) = Some (None, a)) \<and>
   map sl_cap (al_buffers (as_alloc demo_pooled) ! 0) = [2 ^ 0] \<and>
   (\<exists>x. x \<in> set (al_buffers (as_alloc demo_pooled) ! 0) \<and> sl_cap x = 2 ^ 0)"
proof -
  have "hd (as_held demo_alloc) \<in> set (as_held demo_alloc)" by (simp add: demo_alloc_def)
  then have "\<exists>a. Allocator_Put (hd (as_held demo_alloc)) (as_alloc demo_alloc) = Some (None, a)"
    using allocator_ownership [OF r_into_rtranclp [of alloc_step, OF demo_alloc_step]] by blast
  moreover have m: "map sl_cap (al_buffers (as_alloc demo_pooled) ! 0) = [2 ^ 0]"
    by (simp add: demo_pooled_def Allocator_New_def)
  moreover have "\<exists>x. x \<in> set (al_buffers (as_alloc demo_pooled) ! 0)"
    by (simp add: demo_pooled_def Allocator_New_def)
  then have "\<exists>x. x \<in> set (al_buffers (as_alloc demo_pooled) ! 0) \<and> sl_cap x = 2 ^ 0"
    using allocator_ownership [OF demo_pooled_run] by (meson zero_less_numeral)
  ultimately show ?thesis by blast
qed

end
