(* ===== verification/NetipParse.thy ===== *)
theory NetipParse
  imports Netip
begin

text \<open>
  The parsers of Go's \<open>net/netip\<close> and \<open>net\<close> that the server start-up, the socket options and the engine
  call: \<open>netip.ParseAddr\<close>, \<open>netip.ParseAddrPort\<close>, \<open>net.ParseIP\<close>, \<open>net.SplitHostPort\<close>, and the address
  classes they test. The callers look at whether there was an error and not at its text, so an error is
  \<open>None\<close>. Parsing is the inverse of the printers of theory \<open>Netip\<close>.
\<close>

section \<open>Parsing addresses\<close>

text \<open>
  The four fields of a dotted address. A dot with no digit before it is a dot at the start or after
  another dot.
\<close>

fun ipv4_fields :: "string \<Rightarrow> nat \<Rightarrow> nat \<Rightarrow> byte list \<Rightarrow> byte list option" where
  "ipv4_fields [] val digLen fs = (if length fs < 3 then None else Some (fs @ [of_nat val]))"
| "ipv4_fields (c # cs) val digLen fs =
     (if is_digit c then
        (if digLen = 1 \<and> val = 0 then None
         else if val * 10 + digit_val c > 255 then None
         else ipv4_fields cs (val * 10 + digit_val c) (digLen + 1) fs)
      else if c = CHR ''.'' then
        (if digLen = 0 \<or> cs = [] \<or> length fs = 3 then None
         else ipv4_fields cs 0 0 (fs @ [of_nat val]))
      else None)"

fun fields_addr4 :: "byte list \<Rightarrow> addr option" where
  "fields_addr4 [a, b, c, d] = Some (Addr4 a b c d)"
| "fields_addr4 fs = None"

text \<open>
  The loop of \<open>parseIPv6\<close>: the groups read so far and the place of the ellipsis among them. It returns
  what is left of the string with them.
\<close>

function ipv6_loop :: "string \<Rightarrow> u16 list \<Rightarrow> nat option \<Rightarrow> (string \<times> u16 list \<times> nat option) option" where
  "ipv6_loop s gs el =
     (if 8 \<le> length gs then Some (s, gs, el)
      else
        let h = takeWhile is_hex s; r = dropWhile is_hex s in
        if h = [] \<or> 4 < length h then None
        else if r \<noteq> [] \<and> hd r = CHR ''.'' then
          (if el = None \<and> length gs \<noteq> 6 \<or> 6 < length gs then None
           else case ipv4_fields s 0 0 [] of
                  Some [a, b, c, d] \<Rightarrow> Some ([], gs @ [get_uint16 a b, get_uint16 c d], el)
                | _ \<Rightarrow> None)
        else
          let gs' = gs @ [of_nat (hex_value h)] in
          (case r of
             [] \<Rightarrow> Some ([], gs', el)
           | c # cs \<Rightarrow>
               if c \<noteq> CHR '':'' \<or> cs = [] then None
               else if hd cs = CHR '':'' then
                 (if el \<noteq> None then None
                  else if tl cs = [] then Some ([], gs', Some (length gs'))
                  else ipv6_loop (tl cs) gs' (Some (length gs')))
               else ipv6_loop cs gs' el))"
  by pat_completeness auto
termination
  by (relation "measure (\<lambda>(s, gs, el). 8 - length gs)") auto

declare ipv6_loop.simps [simp del]

definition expand_groups :: "u16 list \<Rightarrow> nat option \<Rightarrow> u16 list option" where
  "expand_groups gs el =
     (if length gs < 8 then
        map_option (\<lambda>k. take k gs @ replicate (8 - length gs) 0 @ drop k gs) el
      else if el \<noteq> None then None else Some gs)"

fun groups_addr6 :: "string \<Rightarrow> u16 list \<Rightarrow> addr option" where
  "groups_addr6 z [a, b, c, d, e, f, g, h] = Some (Addr6 a b c d e f g h z)"
| "groups_addr6 z gs = None"

definition parse_ipv6 :: "string \<Rightarrow> addr option" where
  "parse_ipv6 input =
     (let s = takeWhile (\<lambda>c. c \<noteq> CHR ''%'') input; pz = dropWhile (\<lambda>c. c \<noteq> CHR ''%'') input; z = tl pz in
      if pz \<noteq> [] \<and> z = [] then None
      else
        let lead = has_prefix s ''::''; s' = (if lead then drop 2 s else s); el = (if lead then Some 0 else None) in
        if lead \<and> s' = [] then groups_addr6 z (replicate 8 0)
        else case ipv6_loop s' [] el of
               Some ([], gs, el') \<Rightarrow> Option.bind (expand_groups gs el') (groups_addr6 z)
             | _ \<Rightarrow> None)"

fun ParseAddr_scan :: "string \<Rightarrow> string \<Rightarrow> addr option" where
  "ParseAddr_scan input [] = None"
| "ParseAddr_scan input (c # cs) =
     (if c = CHR ''.'' then Option.bind (ipv4_fields input 0 0 []) fields_addr4
      else if c = CHR '':'' then parse_ipv6 input
      else if c = CHR ''%'' then None
      else ParseAddr_scan input cs)"

definition ParseAddr :: "string \<Rightarrow> addr option" where
  "ParseAddr s = ParseAddr_scan s s"

text \<open>
  \<open>strconv.ParseUint(s, 10, 16)\<close>: digits only, at least one, and a value that fits.
\<close>

definition parse_uint16 :: "string \<Rightarrow> u16 option" where
  "parse_uint16 s = (if s = [] \<or> \<not> list_all is_digit s \<or> 65535 < dec_value s then None else Some (of_nat (dec_value s)))"

text \<open>The parts of a string around the last occurrence of a character.\<close>

definition before_last :: "char \<Rightarrow> string \<Rightarrow> string" where
  "before_last c s = rev (tl (dropWhile (\<lambda>x. x \<noteq> c) (rev s)))"

definition after_last :: "char \<Rightarrow> string \<Rightarrow> string" where
  "after_last c s = rev (takeWhile (\<lambda>x. x \<noteq> c) (rev s))"

definition splitAddrPort :: "string \<Rightarrow> (string \<times> string \<times> bool) option" where
  "splitAddrPort s =
     (let ip = before_last CHR '':'' s; port = after_last CHR '':'' s in
      if CHR '':'' \<notin> set s \<or> ip = [] \<or> port = [] then None
      else if hd ip = CHR ''['' then
        (if length ip < 2 \<or> last ip \<noteq> CHR '']'' then None else Some (butlast (tl ip), port, True))
      else Some (ip, port, False))"

definition ParseAddrPort :: "string \<Rightarrow> (addr \<times> u16) option" where
  "ParseAddrPort s =
     (case splitAddrPort s of
        None \<Rightarrow> None
      | Some (ip, port, v6) \<Rightarrow>
          (case parse_uint16 port of
             None \<Rightarrow> None
           | Some p \<Rightarrow>
               (case ParseAddr ip of
                  None \<Rightarrow> None
                | Some a \<Rightarrow> if v6 \<and> addr_is4 a \<or> \<not> v6 \<and> addr_is6 a then None else Some (a, p))))"

section \<open>Printing and parsing\<close>

text \<open>Dotted fields: the digits \<open>itoa\<close> prints are read back into the value.\<close>

lemma is_digit_not_dot: "\<not> is_digit CHR ''.''" "\<not> is_digit CHR '':''" "\<not> is_digit CHR ''%''"
  "\<not> is_digit CHR ''[''" "\<not> is_digit CHR '']''"
  by (simp_all add: is_digit_def)

lemma ipv4_fields_itoa:
  "n \<le> 255 \<Longrightarrow> ipv4_fields (itoa n @ r) 0 0 fs = ipv4_fields r n (length (itoa n)) fs"
proof (induction n arbitrary: r rule: itoa.induct)
  case (1 n)
  show ?case
  proof (cases "n < 10")
    case True
    then show ?thesis by (simp add: itoa.simps [of n])
  next
    case False
    then have "ipv4_fields (itoa (n div 10) @ digit_char (n mod 10) # r) 0 0 fs =
        ipv4_fields (digit_char (n mod 10) # r) (n div 10) (length (itoa (n div 10))) fs"
      using "1.IH" "1.prems" by simp
    moreover have "n div 10 \<noteq> 0" using False by (simp add: div_eq_0_iff)
    ultimately show ?thesis using False "1.prems" by (simp add: itoa.simps [of n])
  qed
qed

lemma unat_byte_le: "unat (b::byte) \<le> 255"
  using unsigned_less [of b, where 'a = nat] by simp

lemma ipv4_fields_string4: "ipv4_fields (string4 a b c d) 0 0 [] = Some [a, b, c, d]"
proof -
  have last: "ipv4_fields (itoa (unat d)) 0 0 fs = ipv4_fields [] (unat d) (length (itoa (unat d))) fs" for fs
    using ipv4_fields_itoa [of "unat d" "[]" fs] by (simp add: unat_byte_le)
  show ?thesis
    unfolding string4_def
    by (simp add: ipv4_fields_itoa unat_byte_le is_digit_not_dot last)
qed

lemma ParseAddr_scan_skip:
  "\<forall>c \<in> set s. c \<notin> {CHR ''.'', CHR '':'', CHR ''%''} \<Longrightarrow> ParseAddr_scan t (s @ r) = ParseAddr_scan t r"
  by (induction s) auto

lemma itoa_set: "c \<in> set (itoa n) \<Longrightarrow> is_digit c"
  using itoa_digits [of n] by (simp add: list_all_iff)

lemma parse_string4: "ParseAddr (string4 a b c d) = Some (Addr4 a b c d)"
proof -
  let ?r = "itoa (unat b) @ ''.'' @ itoa (unat c) @ ''.'' @ itoa (unat d)"
  have eq: "string4 a b c d = itoa (unat a) @ CHR ''.'' # ?r" by (simp add: string4_def)
  have "ParseAddr_scan t (string4 a b c d) = ParseAddr_scan t (CHR ''.'' # ?r)" for t
    unfolding eq by (rule ParseAddr_scan_skip) (use itoa_set is_digit_not_dot in blast)
  then show ?thesis by (simp add: ParseAddr_def ipv4_fields_string4)
qed

text \<open>Groups of an IPv6 address: at most four hexadecimal digits, read back into the group.\<close>

lemma hex_val_hex_char: "d < 16 \<Longrightarrow> hex_val (hex_char d) = Some (unat d)"
  by (auto simp: hex_val_def hex_char_def Let_def word_less_nat_alt take_bit_nat_eq_self)

lemma is_hex_hex_char: "d < 16 \<Longrightarrow> is_hex (hex_char d)"
  by (simp add: is_hex_def hex_val_hex_char)

lemma unat_nibble: "unat (x AND 0xf) = unat (x::u16) mod 16"
proof -
  have "x AND 0xf = take_bit 4 x" by (simp add: take_bit_eq_mask mask_eq_exp_minus_1)
  then show ?thesis by (simp add: unat_mod_distrib take_bit_eq_mod)
qed

lemma nibble_lt: "x AND 0xf < (16::u16)"
  by (simp add: word_less_nat_alt unat_nibble)

lemma top_nibble_lt: "drop_bit 12 (x::u16) < 16"
proof -
  have "unat x < 65536" using unsigned_less [of x, where 'a = nat] by simp
  then show ?thesis by (simp add: word_less_nat_alt drop_bit_eq_div unat_div_distrib)
qed

lemma append_hex_digits: "\<forall>c \<in> set (append_hex x). is_hex c"
  by (auto simp: append_hex_def intro: is_hex_hex_char nibble_lt top_nibble_lt)

lemma append_hex_length: "append_hex x \<noteq> []" "length (append_hex x) \<le> 4"
  by (simp_all add: append_hex_def)

lemma hex_value_append_hex: "hex_value (append_hex x) = unat x"
proof -
  let ?n = "unat x"
  have lt: "?n < 65536" using unsigned_less [of x, where 'a = nat] by simp
  have v: "the (hex_val (hex_char (drop_bit 12 x))) = ?n div 4096"
    "the (hex_val (hex_char (drop_bit 8 x AND 0xf))) = ?n div 256 mod 16"
    "the (hex_val (hex_char (drop_bit 4 x AND 0xf))) = ?n div 16 mod 16"
    "the (hex_val (hex_char (x AND 0xf))) = ?n mod 16"
    using hex_val_hex_char [OF top_nibble_lt, of x]
    by (simp_all add: hex_val_hex_char nibble_lt unat_nibble unat_div_distrib drop_bit_eq_div)
  have c: "x \<ge> 0x1000 \<longleftrightarrow> ?n \<ge> 4096" "x \<ge> 0x100 \<longleftrightarrow> ?n \<ge> 256" "x \<ge> 0x10 \<longleftrightarrow> ?n \<ge> 16"
    by (simp_all add: word_le_nat_alt)
  have d: "?n = 16 * (?n div 16) + ?n mod 16" "?n div 16 = 16 * (?n div 256) + ?n div 16 mod 16"
    "?n div 256 = 16 * (?n div 4096) + ?n div 256 mod 16"
    using div_mult2_eq [of ?n 16 16] div_mult2_eq [of ?n 256 16] by simp_all
  have z: "?n < 4096 \<Longrightarrow> ?n div 4096 = 0" "?n < 256 \<Longrightarrow> ?n div 256 = 0" "?n < 16 \<Longrightarrow> ?n div 16 = 0"
    by simp_all
  consider "?n < 16" | "16 \<le> ?n" "?n < 256" | "256 \<le> ?n" "?n < 4096" | "4096 \<le> ?n" by linarith
  then show ?thesis
    unfolding append_hex_def hex_value_def c
    by cases (use d z in \<open>simp_all add: v\<close>)
qed

lemma of_nat_hex_value [simp]: "of_nat (hex_value (append_hex x)) = x"
  by (simp add: hex_value_append_hex)

lemma is_hex_separators: "\<not> is_hex CHR '':''" "\<not> is_hex CHR ''.''" "\<not> is_hex CHR ''%''"
  "\<not> is_hex CHR ''[''" "\<not> is_hex CHR '']''"
  by (simp_all add: is_hex_def hex_val_def)

text \<open>Groups joined by colons, and the printing loop in terms of them.\<close>

definition tail_str :: "u16 list \<Rightarrow> string" where
  "tail_str gs = concat (map (\<lambda>g. CHR '':'' # append_hex g) gs)"

fun head_str :: "u16 list \<Rightarrow> string" where
  "head_str [] = []"
| "head_str (g # gs) = append_hex g @ tail_str gs"

lemma tail_str_simps [simp]: "tail_str [] = []" "tail_str (g # gs) = CHR '':'' # append_hex g @ tail_str gs"
  by (simp_all add: tail_str_def)

lemma string6_loop_tail:
  "\<lbrakk>length gs = 8; ze \<le> zs \<or> zs < i; 0 < i\<rbrakk> \<Longrightarrow> string6_loop gs zs ze i = tail_str (drop i gs)"
proof (induction "8 - i" arbitrary: i)
  case 0
  then show ?case by (simp add: string6_loop.simps)
next
  case (Suc n)
  have "string6_loop gs zs ze (Suc i) = tail_str (drop (Suc i) gs)"
    using Suc.hyps(1) [of "Suc i"] Suc.hyps(2) Suc.prems by auto
  moreover have "drop i gs = gs ! i # drop (Suc i) gs" using Suc by (simp add: Cons_nth_drop_Suc)
  ultimately show ?case using Suc by (subst string6_loop.simps) auto
qed

lemma string6_loop_plain:
  "\<lbrakk>length gs = 8; ze \<le> zs\<rbrakk> \<Longrightarrow> string6_loop gs zs ze 0 = head_str gs"
  by (subst string6_loop.simps) (cases gs; auto simp: string6_loop_tail)

lemma string6_loop_run:
  assumes "length gs = 8" "zs < ze" "ze \<le> 8"
  shows "0 < i \<Longrightarrow> i \<le> zs \<Longrightarrow>
      string6_loop gs zs ze i = tail_str (drop i (take zs gs)) @ ''::'' @ head_str (drop ze gs)"
    and "string6_loop gs zs ze 0 = head_str (take zs gs) @ ''::'' @ head_str (drop ze gs)"
proof -
  have here: "string6_loop gs zs ze zs = ''::'' @ head_str (drop ze gs)"
  proof (cases "ze = 8")
    case False
    then have "drop ze gs = gs ! ze # drop (Suc ze) gs" using assms by (simp add: Cons_nth_drop_Suc)
    with False assms show ?thesis by (subst string6_loop.simps) (simp add: string6_loop_tail)
  qed (use assms in \<open>simp add: string6_loop.simps\<close>)
  show run: "0 < i \<Longrightarrow> i \<le> zs \<Longrightarrow>
      string6_loop gs zs ze i = tail_str (drop i (take zs gs)) @ ''::'' @ head_str (drop ze gs)" for i
  proof (induction "zs - i" arbitrary: i)
    case 0
    with here show ?case by simp
  next
    case (Suc n)
    then have "drop i (take zs gs) = gs ! i # drop (Suc i) (take zs gs)"
      using assms by (subst Cons_nth_drop_Suc [symmetric]) auto
    with Suc assms show ?case by (subst string6_loop.simps) auto
  qed
  show "string6_loop gs zs ze 0 = head_str (take zs gs) @ ''::'' @ head_str (drop ze gs)"
  proof (cases zs)
    case (Suc k)
    obtain g gs' where "gs = g # gs'" using assms(1) by (cases gs) auto
    with Suc assms run [of 1] show ?thesis by (subst string6_loop.simps) auto
  qed (use here in simp)
qed

text \<open>The elided run really is a run of zeros.\<close>

lemma takeWhile_zero: "takeWhile (\<lambda>g. g = 0) gs = replicate (length (takeWhile (\<lambda>g. g = 0) gs)) (0::u16)"
  by (induction gs) auto

definition span_ok :: "u16 list \<Rightarrow> nat \<times> nat \<Rightarrow> bool" where
  "span_ok gs p \<longleftrightarrow> (case p of (zs, ze) \<Rightarrow> ze \<le> zs \<or>
     ze \<le> length gs \<and> take (ze - zs) (drop zs gs) = replicate (ze - zs) 0)"

lemma zero_run_span: "i \<le> length gs \<Longrightarrow> span_ok gs (i, i + zero_run gs i)"
proof -
  assume i: "i \<le> length gs"
  have "zero_run gs i \<le> length (drop i gs)" unfolding zero_run_def by (rule length_takeWhile_le)
  then have "i + zero_run gs i \<le> length gs" using i by simp
  moreover have "take (zero_run gs i) (drop i gs) = replicate (zero_run gs i) 0"
    unfolding zero_run_def by (metis takeWhile_eq_take takeWhile_zero)
  ultimately show ?thesis by (simp add: span_ok_def)
qed

lemma foldl_keeps: "\<lbrakk>P x; \<And>x i. P x \<Longrightarrow> i \<in> set is \<Longrightarrow> P (f x i)\<rbrakk> \<Longrightarrow> P (foldl f x is)"
  by (induction "is" arbitrary: x) auto

lemma zero_span_ok: "length gs = 8 \<Longrightarrow> span_ok gs (zero_span gs)"
  unfolding zero_span_def
proof (rule foldl_keeps [where P = "span_ok gs"])
  show "span_ok gs (255, 255)" by (simp add: span_ok_def)
next
  fix p i
  assume "span_ok gs p" "i \<in> set [0..<8]" "length gs = 8"
  with zero_run_span [of i gs]
  show "span_ok gs ((case p of (s, e) \<Rightarrow> \<lambda>i. let l = zero_run gs i
      in if 2 \<le> l \<and> e - s < l then (i, i + l) else (s, e)) i)"
    by (cases p) (auto simp: Let_def)
qed

text \<open>Reading joined groups.\<close>

lemma takeWhile_hex: "r = [] \<or> \<not> is_hex (hd r) \<Longrightarrow> takeWhile is_hex (append_hex g @ r) = append_hex g"
  "r = [] \<or> \<not> is_hex (hd r) \<Longrightarrow> dropWhile is_hex (append_hex g @ r) = r"
  using append_hex_digits [of g] by (cases r; simp add: takeWhile_append dropWhile_append)+

lemma takeWhile_hex_end: "takeWhile is_hex (append_hex g) = append_hex g" "dropWhile is_hex (append_hex g) = []"
  using takeWhile_hex [of "[]" g] by (simp_all only: append_Nil2 simp_thms)

lemma append_hex_hd: "is_hex (hd (append_hex g @ r))"
  using append_hex_digits [of g] append_hex_length(1) [of g] by (cases "append_hex g") auto

lemma append_hex_hd_neq: "hd (append_hex g @ r) \<noteq> CHR '':''"
  using append_hex_hd [of g r] is_hex_separators(1) by auto

lemma tail_str_hd: "tail_str hs = [] \<or> hd (tail_str hs) = CHR '':''"
  by (cases hs) auto

lemma ipv6_loop_end: "length gs < 8 \<Longrightarrow> ipv6_loop (append_hex g) gs el = Some ([], gs @ [g], el)"
  using append_hex_length [of g] by (subst ipv6_loop.simps) (simp add: Let_def takeWhile_hex_end)

lemma ipv6_loop_colon:
  "length gs < 8 \<Longrightarrow> ipv6_loop (append_hex g @ CHR '':'' # append_hex k @ r) gs el =
     ipv6_loop (append_hex k @ r) (gs @ [g]) el"
  using takeWhile_hex [of "CHR '':'' # append_hex k @ r" g] append_hex_length [of g]
    append_hex_hd_neq [of k r] append_hex_length(1) [of k] is_hex_separators
  by (subst ipv6_loop.simps) (simp add: Let_def)

lemma ipv6_loop_groups:
  "\<lbrakk>hs \<noteq> []; length gs + length hs \<le> 8\<rbrakk> \<Longrightarrow> ipv6_loop (head_str hs) gs el = Some ([], gs @ hs, el)"
proof (induction hs arbitrary: gs)
  case (Cons g hs)
  then show ?case
    by (cases hs) (auto simp: ipv6_loop_end ipv6_loop_colon)
qed simp

lemma ipv6_loop_ellipsis:
  "\<lbrakk>hs \<noteq> []; length gs + length hs + length ks < 8\<rbrakk> \<Longrightarrow>
   ipv6_loop (head_str hs @ ''::'' @ head_str ks) gs None = Some ([], gs @ hs @ ks, Some (length gs + length hs))"
proof (induction hs arbitrary: gs)
  case (Cons g hs)
  show ?case
  proof (cases hs)
    case Nil
    have t: "takeWhile is_hex (append_hex g @ ''::'' @ head_str ks) = append_hex g"
      "dropWhile is_hex (append_hex g @ ''::'' @ head_str ks) = ''::'' @ head_str ks"
      using takeWhile_hex [of "''::'' @ head_str ks" g] is_hex_separators by simp_all
    have "ipv6_loop (head_str ks) (gs @ [g]) (Some (Suc (length gs))) =
        Some ([], gs @ g # ks, Some (Suc (length gs)))" if "ks \<noteq> []"
      using ipv6_loop_groups [OF that, of "gs @ [g]"] Cons.prems Nil by simp
    moreover have "head_str ks = [] \<longleftrightarrow> ks = []" using append_hex_length(1) by (cases ks) auto
    ultimately show ?thesis
      using Nil Cons.prems append_hex_length [of g] t
      by (subst ipv6_loop.simps) (auto simp: Let_def)
  next
    case (Cons k hs')
    with Cons.IH [of "gs @ [g]"] Cons.prems show ?thesis
      by (simp add: ipv6_loop_colon)
  qed
qed simp

text \<open>The characters of a printed address, and where the scan of \<open>ParseAddr\<close> stops.\<close>

lemma head_tail_chars:
  "c \<in> set (tail_str gs) \<Longrightarrow> is_hex c \<or> c = CHR '':''" "c \<in> set (head_str gs) \<Longrightarrow> is_hex c \<or> c = CHR '':''"
proof -
  show *: "c \<in> set (tail_str gs) \<Longrightarrow> is_hex c \<or> c = CHR '':''" for gs
    using append_hex_digits by (induction gs) auto
  show "c \<in> set (head_str gs) \<Longrightarrow> is_hex c \<or> c = CHR '':''"
    using append_hex_digits * by (cases gs) auto
qed

text \<open>
  The shape of a printed IPv6 address: eight groups, or the groups before and behind an elided run.
\<close>

lemma string6_shape:
  assumes "length gs = 8"
  obtains (plain) "string6 gs = head_str gs"
  | (run) hs ks n where "gs = hs @ replicate n 0 @ ks" "0 < n" "string6 gs = head_str hs @ ''::'' @ head_str ks"
proof -
  obtain zs ze where sp: "zero_span gs = (zs, ze)" by (cases "zero_span gs")
  with zero_span_ok [OF assms] have ok: "span_ok gs (zs, ze)" by simp
  show thesis
  proof (cases "ze \<le> zs")
    case True
    with sp assms show thesis by (intro plain) (simp add: string6_def string6_loop_plain)
  next
    case False
    with ok assms have z: "ze \<le> 8" "take (ze - zs) (drop zs gs) = replicate (ze - zs) 0"
      by (simp_all add: span_ok_def)
    have "gs = take zs gs @ take (ze - zs) (drop zs gs) @ drop (ze - zs) (drop zs gs)"
      by (simp only: append_take_drop_id)
    also have "drop (ze - zs) (drop zs gs) = drop ze gs" using False by simp
    finally have "gs = take zs gs @ replicate (ze - zs) 0 @ drop ze gs" using z(2) by simp
    moreover have "string6 gs = head_str (take zs gs) @ ''::'' @ head_str (drop ze gs)"
      using sp assms z(1) False by (simp add: string6_def string6_loop_run(2))
    ultimately show thesis using False by (intro run [of "take zs gs" "ze - zs" "drop ze gs"]) auto
  qed
qed

lemma string6_chars: "length gs = 8 \<Longrightarrow> c \<in> set (string6 gs) \<Longrightarrow> is_hex c \<or> c = CHR '':''"
  by (erule string6_shape) (auto dest: head_tail_chars)

lemma hex_skip: "\<forall>c \<in> set (append_hex g). c \<notin> {CHR ''.'', CHR '':'', CHR ''%''}"
  using append_hex_digits [of g] is_hex_separators by blast

lemma scan_head: "gs \<noteq> [] \<Longrightarrow> r \<noteq> [] \<Longrightarrow> hd r = CHR '':'' \<Longrightarrow> ParseAddr_scan t (head_str gs @ r) = parse_ipv6 t"
  using ParseAddr_scan_skip [OF hex_skip, of t "hd gs" "tail_str (tl gs) @ r"]
  by (cases gs; cases "tl gs"; cases r) auto

lemma scan_string6:
  assumes "length gs = 8"
  shows "ParseAddr_scan t (string6 gs @ r) = parse_ipv6 t"
  using assms
proof (cases rule: string6_shape)
  case plain
  from assms obtain g k ks where "gs = g # k # ks" by (cases gs; cases "tl gs") auto
  with plain ParseAddr_scan_skip [OF hex_skip, of t g "tail_str (k # ks) @ r"]
  show ?thesis by simp
next
  case (run hs ks n)
  then show ?thesis using scan_head [of hs "''::'' @ head_str ks @ r" t] by (cases hs) auto
qed

lemma has_prefix_colons_hex: "\<not> has_prefix (append_hex g @ r) ''::''"
  using append_hex_hd_neq [of g r] append_hex_length(1) [of g] by (cases "append_hex g") auto

lemma takeWhile_zone:
  assumes "CHR ''%'' \<notin> set s"
  shows "takeWhile (\<lambda>c. c \<noteq> CHR ''%'') (s @ (if z = [] then [] else ''%'' @ z)) = s"
    "dropWhile (\<lambda>c. c \<noteq> CHR ''%'') (s @ (if z = [] then [] else ''%'' @ z)) = (if z = [] then [] else ''%'' @ z)"
proof -
  have "\<forall>x \<in> set s. x \<noteq> CHR ''%''" using assms by auto
  then have "takeWhile (\<lambda>c. c \<noteq> CHR ''%'') s = s" "dropWhile (\<lambda>c. c \<noteq> CHR ''%'') s = []"
    by (simp_all add: takeWhile_eq_all_conv)
  then show "takeWhile (\<lambda>c. c \<noteq> CHR ''%'') (s @ (if z = [] then [] else ''%'' @ z)) = s"
    "dropWhile (\<lambda>c. c \<noteq> CHR ''%'') (s @ (if z = [] then [] else ''%'' @ z)) = (if z = [] then [] else ''%'' @ z)"
    using assms by (auto simp: takeWhile_append2 dropWhile_append)
qed

lemma parse_ipv6_body:
  assumes "CHR ''%'' \<notin> set s"
  shows "parse_ipv6 (s @ (if z = [] then [] else ''%'' @ z)) =
    (let lead = has_prefix s ''::''; s' = (if lead then drop 2 s else s); el = (if lead then Some 0 else None) in
     if lead \<and> s' = [] then groups_addr6 z (replicate 8 0)
     else case ipv6_loop s' [] el of
            Some ([], gs, el') \<Rightarrow> Option.bind (expand_groups gs el') (groups_addr6 z)
          | _ \<Rightarrow> None)"
proof -
  have z: "tl (if z = [] then [] else ''%'' @ z) = z"
    "((if z = [] then [] else ''%'' @ z) \<noteq> [] \<and> z = []) = False" by simp_all
  show ?thesis unfolding parse_ipv6_def Let_def takeWhile_zone [OF assms] z if_False ..
qed

lemma length8: "length gs = 8 \<Longrightarrow> \<exists>a b c d e f g h. gs = [a, b, c, d, e, f, g, h]"
  by (auto simp: numeral_eq_Suc length_Suc_conv)

lemma expand_run: "length (hs @ replicate n 0 @ ks) = 8 \<Longrightarrow> 0 < n \<Longrightarrow>
    expand_groups (hs @ ks) (Some (length hs)) = Some (hs @ replicate n 0 @ ks)"
  by (auto simp: expand_groups_def)

lemma parse_ipv6_string6:
  assumes gs: "length gs = 8"
  shows "parse_ipv6 (string6 gs @ (if z = [] then [] else ''%'' @ z)) = groups_addr6 z gs"
proof -
  have no: "CHR ''%'' \<notin> set (string6 gs)"
    using string6_chars [OF gs] is_hex_separators by auto
  from gs show ?thesis
  proof (cases rule: string6_shape)
    case plain
    from gs obtain g ks where "gs = g # ks" by (cases gs) auto
    then have "gs \<noteq> []" and "\<not> has_prefix (string6 gs) ''::''"
      using plain has_prefix_colons_hex by simp_all
    moreover from this have "ipv6_loop (string6 gs) [] None = Some ([], gs, None)"
      using ipv6_loop_groups [of gs "[]" None] gs plain by simp
    ultimately show ?thesis using gs by (simp add: parse_ipv6_body [OF no] expand_groups_def)
  next
    case (run hs ks n)
    show ?thesis
    proof (cases "hs = []")
      case True
      with run have "has_prefix (string6 gs) ''::''" "drop 2 (string6 gs) = head_str ks" by simp_all
      moreover have "ks = [] \<Longrightarrow> gs = replicate 8 0" using run True gs by simp
      moreover have "ks \<noteq> [] \<Longrightarrow> ipv6_loop (head_str ks) [] (Some 0) = Some ([], ks, Some 0)"
        using ipv6_loop_groups [of ks "[]" "Some 0"] run gs by auto
      moreover have "head_str ks = [] \<longleftrightarrow> ks = []" using append_hex_length(1) by (cases ks) auto
      moreover have "expand_groups ks (Some 0) = Some gs"
        using expand_run [of "[]" n ks] run True gs by simp
      ultimately show ?thesis
        unfolding parse_ipv6_body [OF no] by (cases "ks = []") simp_all
    next
      case False
      then have "\<not> has_prefix (string6 gs) ''::''"
        using run has_prefix_colons_hex by (cases hs) auto
      moreover have "ipv6_loop (string6 gs) [] None = Some ([], hs @ ks, Some (length hs))"
        using ipv6_loop_ellipsis [OF False, of "[]" ks] run gs by auto
      moreover have "expand_groups (hs @ ks) (Some (length hs)) = Some gs"
        using expand_run [of hs n ks] run gs by simp
      ultimately show ?thesis by (simp add: parse_ipv6_body [OF no])
    qed
  qed
qed

text \<open>The IPv4-mapped form: four zero groups elided, one group, a dotted tail.\<close>

lemma is_digit_is_hex: "is_digit c \<Longrightarrow> is_hex c"
  by (simp add: is_digit_def is_hex_def hex_val_def Let_def)

lemma itoa_short: "n \<le> 255 \<Longrightarrow> length (itoa n) \<le> 4"
  by (simp add: itoa.simps [of n] itoa.simps [of "n div 10"] itoa.simps [of "n div 10 div 10"])

lemma takeWhile_string4:
  "takeWhile is_hex (string4 a b c d) = itoa (unat a)"
  "\<exists>r. dropWhile is_hex (string4 a b c d) = CHR ''.'' # r"
proof -
  have "\<forall>x \<in> set (itoa (unat a)). is_hex x" using itoa_set is_digit_is_hex by blast
  then show "takeWhile is_hex (string4 a b c d) = itoa (unat a)"
    "\<exists>r. dropWhile is_hex (string4 a b c d) = CHR ''.'' # r"
    by (simp_all add: string4_def takeWhile_append dropWhile_append is_hex_separators)
qed

lemma ipv6_loop_string4:
  "length gs \<le> 6 \<Longrightarrow>
   ipv6_loop (string4 a b c d) gs (Some k) = Some ([], gs @ [get_uint16 a b, get_uint16 c d], Some k)"
proof -
  assume "length gs \<le> 6"
  obtain r where "dropWhile is_hex (string4 a b c d) = CHR ''.'' # r" using takeWhile_string4(2) by blast
  with \<open>length gs \<le> 6\<close> itoa_short [OF unat_byte_le, of a] show ?thesis
    by (subst ipv6_loop.simps) (simp add: Let_def ipv4_fields_string4 takeWhile_string4(1))
qed

lemma string4_chars: "x \<in> set (string4 a b c d) \<Longrightarrow> is_hex x \<or> x = CHR ''.''"
  using itoa_set is_digit_is_hex by (auto simp: string4_def)

lemma append_hex_ffff: "append_hex 0xffff = ''ffff''"
  by code_simp

lemma string4_hd: "hd (string4 a b c d) \<noteq> CHR '':''" "string4 a b c d \<noteq> []"
  using itoa_set [of "hd (itoa (unat a))" "unat a"] is_digit_not_dot
  by (auto simp: string4_def hd_append)

lemma parse_ipv6_mapped:
  "parse_ipv6 (''::ffff:'' @ string4 a b c d @ (if z = [] then [] else ''%'' @ z)) =
   Some (Addr6 0 0 0 0 0 0xffff (get_uint16 a b) (get_uint16 c d) z)"
proof -
  let ?s = "''::ffff:'' @ string4 a b c d"
  have no: "CHR ''%'' \<notin> set ?s"
    using string4_chars [of "CHR ''%''" a b c d] is_hex_separators by auto
  have "ipv6_loop (append_hex 0xffff @ CHR '':'' # string4 a b c d) [] (Some 0) =
      ipv6_loop (string4 a b c d) [0xffff] (Some 0)"
    using takeWhile_hex [of "CHR '':'' # string4 a b c d" "0xffff"] string4_hd [of a b c d]
      append_hex_length [of "0xffff"] is_hex_separators
    by (subst ipv6_loop.simps) (simp add: Let_def)
  then have "ipv6_loop (drop 2 ?s) [] (Some 0) =
      Some ([], [0xffff, get_uint16 a b, get_uint16 c d], Some 0)"
    by (simp add: append_hex_ffff ipv6_loop_string4)
  then show ?thesis
    using parse_ipv6_body [OF no, of z] by (simp add: expand_groups_def numeral_eq_Suc)
qed

lemma parse_addr_string: "addr_is_valid x \<Longrightarrow> ParseAddr (addr_string x) = Some x"
proof (cases x)
  case (Addr4 a b c d)
  then show ?thesis by (simp add: parse_string4)
next
  case (Addr6 a b c d e f g h z)
  let ?gs = "[a, b, c, d, e, f, g, h]"
  have scan: "ParseAddr_scan t (string6 ?gs @ r) = parse_ipv6 t" for t r
    by (rule scan_string6) simp
  show ?thesis
  proof (cases "addr_is4in6 (Addr6 a b c d e f g h z)")
    case True
    with parse_ipv6_mapped [of "high_byte g" "low_byte g" "high_byte h" "low_byte h" z] Addr6 show ?thesis
      by (simp add: ParseAddr_def high_byte_def low_byte_def)
  next
    case False
    then have "addr_string x = string6 ?gs @ (if z = [] then [] else ''%'' @ z)"
      unfolding Addr6 addr_string.simps by (simp only: if_False)
    with parse_ipv6_string6 [of ?gs z] Addr6 show ?thesis
      unfolding ParseAddr_def by (simp only: scan) simp
  qed
qed simp

text \<open>A printed address with its port.\<close>

lemma last_parts:
  "c \<notin> set t \<Longrightarrow> before_last c (s @ c # t) = s" "c \<notin> set t \<Longrightarrow> after_last c (s @ c # t) = t"
proof -
  assume c: "c \<notin> set t"
  then have "\<forall>x \<in> set (rev t). x \<noteq> c" by auto
  then have "takeWhile (\<lambda>x. x \<noteq> c) (rev t @ c # rev s) = rev t"
    "dropWhile (\<lambda>x. x \<noteq> c) (rev t @ c # rev s) = c # rev s"
    by (simp_all add: takeWhile_append dropWhile_append)
  then show "before_last c (s @ c # t) = s" "after_last c (s @ c # t) = t"
    by (simp_all add: before_last_def after_last_def)
qed

lemma parse_uint16_itoa: "n < 65536 \<Longrightarrow> parse_uint16 (itoa n) = Some (of_nat n)"
  by (simp add: parse_uint16_def itoa_digits)

lemma itoa_no_colon: "CHR '':'' \<notin> set (itoa n)"
  by (rule itoa_no_char) (simp add: is_digit_not_dot)

lemma parse_plain_port:
  assumes "addr_is4 x" "n < 65536"
  shows "ParseAddrPort (addr_string x @ '':'' @ itoa n) = Some (x, of_nat n)"
proof -
  from assms(1) obtain a b c d where x: "x = Addr4 a b c d" by (cases x) auto
  have "string4 a b c d \<noteq> []" "hd (string4 a b c d) \<noteq> CHR ''[''"
    using string4_hd(2) string4_chars [of "hd (string4 a b c d)" a b c d] is_hex_separators
    by (auto simp del: set_append)
  with assms(2) show ?thesis
    by (simp add: ParseAddrPort_def splitAddrPort_def last_parts itoa_no_colon Let_def parse_uint16_itoa x parse_string4)
qed

lemma parse_bracketed_port:
  assumes "addr_is6 x" "n < 65536"
  shows "ParseAddrPort (''['' @ addr_string x @ '']:'' @ itoa n) = Some (x, of_nat n)"
proof -
  have "before_last CHR '':'' ((''['' @ addr_string x @ '']'') @ CHR '':'' # itoa n) = ''['' @ addr_string x @ '']''"
    "after_last CHR '':'' ((''['' @ addr_string x @ '']'') @ CHR '':'' # itoa n) = itoa n"
    by (rule last_parts; rule itoa_no_colon)+
  then have "splitAddrPort (''['' @ addr_string x @ '']:'' @ itoa n) = Some (addr_string x, itoa n, True)"
    by (simp add: splitAddrPort_def Let_def butlast_append)
  moreover have "ParseAddr (addr_string x) = Some x" "\<not> addr_is4 x"
    using assms(1) by (cases x; simp add: parse_addr_string del: addr_string.simps)+
  ultimately show ?thesis using assms(2) by (simp add: ParseAddrPort_def parse_uint16_itoa)
qed

lemma parse_addr_port_string:
  "addr_is_valid x \<Longrightarrow> ParseAddrPort (addr_port_string x p) = Some (x, p)"
proof -
  assume x: "addr_is_valid x"
  have p: "unat p < 65536" using unsigned_less [of p, where 'a = nat] by simp
  from x show ?thesis
    using parse_plain_port [OF _ p, of x] parse_bracketed_port [OF _ p, of x]
    by (cases x) (simp_all add: addr_port_string_def)
qed

definition addr_port_print :: "addr \<times> u16 \<Rightarrow> string" where
  "addr_port_print ap = addr_port_string (fst ap) (snd ap)"

interpretation addr_port: codec addr_port_print ParseAddrPort "\<lambda>ap. addr_is_valid (fst ap)"
  by unfold_locales (simp add: addr_port_print_def parse_addr_port_string split: prod.splits)

section \<open>net.IP\<close>

text \<open>
  \<open>net.ParseIP\<close>: an address without a zone, always in the 16-byte form. \<open>IsGlobalUnicast\<close>: everything but
  the IPv4 broadcast, unspecified, loopback, multicast and link-local unicast addresses.
\<close>

definition to16 :: "addr \<Rightarrow> bytes" where
  "to16 x = (if addr_is4 x then replicate 10 0 @ [0xff, 0xff] @ as_slice x else as_slice x)"

definition ParseIP :: "string \<Rightarrow> bytes option" where
  "ParseIP s = (case ParseAddr s of
      Some a \<Rightarrow> if addr_zone a = [] then Some (to16 a) else None
    | None \<Rightarrow> None)"

definition IsUnspecified :: "bytes \<Rightarrow> bool" where
  "IsUnspecified ip \<longleftrightarrow> ip_to4 ip = Some [0, 0, 0, 0] \<or> length ip = 16 \<and> ip = replicate 16 0"

definition IsLoopback :: "bytes \<Rightarrow> bool" where
  "IsLoopback ip \<longleftrightarrow> (case ip_to4 ip of
      Some p \<Rightarrow> hd p = 127
    | None \<Rightarrow> ip = replicate 15 0 @ [1])"

definition IsMulticast :: "bytes \<Rightarrow> bool" where
  "IsMulticast ip \<longleftrightarrow> (case ip_to4 ip of
      Some p \<Rightarrow> hd p AND 0xf0 = 0xe0
    | None \<Rightarrow> length ip = 16 \<and> hd ip = 0xff)"

definition IsLinkLocalUnicast :: "bytes \<Rightarrow> bool" where
  "IsLinkLocalUnicast ip \<longleftrightarrow> (case ip_to4 ip of
      Some p \<Rightarrow> p ! 0 = 169 \<and> p ! 1 = 254
    | None \<Rightarrow> length ip = 16 \<and> ip ! 0 = 0xfe \<and> ip ! 1 AND 0xc0 = 0x80)"

definition IsGlobalUnicast :: "bytes \<Rightarrow> bool" where
  "IsGlobalUnicast ip \<longleftrightarrow> (length ip = 4 \<or> length ip = 16) \<and>
     ip_to4 ip \<noteq> Some [255, 255, 255, 255] \<and> \<not> IsUnspecified ip \<and> \<not> IsLoopback ip \<and>
     \<not> IsMulticast ip \<and> \<not> IsLinkLocalUnicast ip"

text \<open>
  \<open>net.SplitHostPort\<close> around the last colon. A bracketed host ends at the first closing bracket, which
  has to be right before that colon; a host without brackets has no other colon; no further bracket
  may occur.
\<close>

definition SplitHostPort :: "string \<Rightarrow> (string \<times> string) option" where
  "SplitHostPort hp =
     (if CHR '':'' \<notin> set hp then None
      else
        let h = before_last CHR '':'' hp; port = after_last CHR '':'' hp in
        if hd hp = CHR ''['' then
          (if takeWhile (\<lambda>c. c \<noteq> CHR '']'') hp @ '']'' = h \<and> CHR ''['' \<notin> set (tl hp) \<and> CHR '']'' \<notin> set port
           then Some (tl (butlast h), port) else None)
        else if CHR '':'' \<in> set h \<or> CHR ''['' \<in> set hp \<or> CHR '']'' \<in> set hp then None
        else Some (h, port))"

end
