(* ===== verification/TunQueue.thy ===== *)
theory TunQueue
  imports Prelude "HOL-Library.Multiset"
begin

text \<open>
  \<open>src/client/tun/tunnel/tunnel.go\<close>: the stack's forwarders hand every new connection of the device to the
  tunnel, whose one goroutine takes them from two unbuffered channels and starts a handler for each.
  Senders, the goroutine, \<open>ProcessAsync\<close> and \<open>Close\<close> run concurrently, so the tunnel is a step relation.
\<close>

section \<open>Model\<close>

text \<open>
  An unbuffered channel is the list of the senders that wait at it. The last four fields are history: the
  connections handed in and those for which a handler was started.
\<close>

record ('d, 'c) tunnel =
  tl_tcpQueue :: "'c list"
  tl_udpQueue :: "'c list"
  tl_udpTimeout :: int
  tl_dialer :: 'd
  tl_procOnce :: bool
  tl_cancelled :: bool \<comment> \<open>the context of \<open>process\<close> is done\<close>
  tl_running :: bool \<comment> \<open>\<open>process\<close> has not returned\<close>
  tl_tcpIn :: "'c list"
  tl_udpIn :: "'c list"
  tl_tcpHandled :: "'c list"
  tl_udpHandled :: "'c list"

definition udpSessionTimeout :: int where "udpSessionTimeout = 60 * 1000000000"

definition Tunnel_New :: "'d \<Rightarrow> ('d, 'c) tunnel" where
  "Tunnel_New d = \<lparr>tl_tcpQueue = [], tl_udpQueue = [], tl_udpTimeout = udpSessionTimeout, tl_dialer = d,
     tl_procOnce = False, tl_cancelled = False, tl_running = False, tl_tcpIn = [], tl_udpIn = [],
     tl_tcpHandled = [], tl_udpHandled = []\<rparr>"

text \<open>\<open>HandleTCP\<close> and \<open>HandleUDP\<close> wait at the channel until \<open>process\<close> takes the connection.\<close>

definition HandleTCP :: "'c \<Rightarrow> ('d, 'c) tunnel \<Rightarrow> ('d, 'c) tunnel" where
  "HandleTCP c t = t\<lparr>tl_tcpQueue := tl_tcpQueue t @ [c], tl_tcpIn := tl_tcpIn t @ [c]\<rparr>"

definition HandleUDP :: "'c \<Rightarrow> ('d, 'c) tunnel \<Rightarrow> ('d, 'c) tunnel" where
  "HandleUDP c t = t\<lparr>tl_udpQueue := tl_udpQueue t @ [c], tl_udpIn := tl_udpIn t @ [c]\<rparr>"

text \<open>One round of \<open>process\<close>: its \<open>select\<close> takes the connection of a waiting sender, of either kind, or sees the end.\<close>

definition process_tcp :: "nat \<Rightarrow> ('d, 'c) tunnel \<Rightarrow> ('d, 'c) tunnel option" where
  "process_tcp i t =
     (if tl_running t \<and> i < length (tl_tcpQueue t)
      then Some (t\<lparr>tl_tcpQueue := take i (tl_tcpQueue t) @ drop (Suc i) (tl_tcpQueue t),
                  tl_tcpHandled := tl_tcpHandled t @ [tl_tcpQueue t ! i]\<rparr>)
      else None)"

definition process_udp :: "nat \<Rightarrow> ('d, 'c) tunnel \<Rightarrow> ('d, 'c) tunnel option" where
  "process_udp i t =
     (if tl_running t \<and> i < length (tl_udpQueue t)
      then Some (t\<lparr>tl_udpQueue := take i (tl_udpQueue t) @ drop (Suc i) (tl_udpQueue t),
                  tl_udpHandled := tl_udpHandled t @ [tl_udpQueue t ! i]\<rparr>)
      else None)"

definition process_done :: "('d, 'c) tunnel \<Rightarrow> ('d, 'c) tunnel option" where
  "process_done t = (if tl_running t \<and> tl_cancelled t then Some (t\<lparr>tl_running := False\<rparr>) else None)"

definition ProcessAsync :: "('d, 'c) tunnel \<Rightarrow> ('d, 'c) tunnel" where
  "ProcessAsync t = (if tl_procOnce t then t else t\<lparr>tl_procOnce := True, tl_running := True\<rparr>)"

text \<open>Before \<open>ProcessAsync\<close> there is nothing to cancel.\<close>

definition Tunnel_Close :: "('d, 'c) tunnel \<Rightarrow> ('d, 'c) tunnel" where
  "Tunnel_Close t = (if tl_procOnce t then t\<lparr>tl_cancelled := True\<rparr> else t)"

definition Tunnel_Dialer :: "('d, 'c) tunnel \<Rightarrow> 'd" where
  "Tunnel_Dialer t = tl_dialer t"

definition SetDialer :: "'d \<Rightarrow> ('d, 'c) tunnel \<Rightarrow> ('d, 'c) tunnel" where
  "SetDialer d t = t\<lparr>tl_dialer := d\<rparr>"

definition SetUDPTimeout :: "int \<Rightarrow> ('d, 'c) tunnel \<Rightarrow> ('d, 'c) tunnel" where
  "SetUDPTimeout d t = t\<lparr>tl_udpTimeout := d\<rparr>"

inductive tunnel_step :: "('d, 'c) tunnel \<Rightarrow> ('d, 'c) tunnel \<Rightarrow> bool" where
  tcp_in: "tunnel_step t (HandleTCP c t)"
| udp_in: "tunnel_step t (HandleUDP c t)"
| take_tcp: "process_tcp i t = Some t' \<Longrightarrow> tunnel_step t t'"
| take_udp: "process_udp i t = Some t' \<Longrightarrow> tunnel_step t t'"
| returns: "process_done t = Some t' \<Longrightarrow> tunnel_step t t'"
| start: "tunnel_step t (ProcessAsync t)"
| close: "tunnel_step t (Tunnel_Close t)"
| dialer: "tunnel_step t (SetDialer d t)"
| timeout: "tunnel_step t (SetUDPTimeout n t)"

lemmas tunnel_defs = HandleTCP_def HandleUDP_def process_tcp_def process_udp_def process_done_def
  ProcessAsync_def Tunnel_Close_def SetDialer_def SetUDPTimeout_def

section \<open>Exactly once\<close>

definition tunnel_inv :: "('d, 'c) tunnel \<Rightarrow> bool" where
  "tunnel_inv t \<longleftrightarrow>
     mset (tl_tcpIn t) = mset (tl_tcpQueue t) + mset (tl_tcpHandled t) \<and>
     mset (tl_udpIn t) = mset (tl_udpQueue t) + mset (tl_udpHandled t) \<and>
     (tl_running t \<longrightarrow> tl_procOnce t) \<and> (tl_cancelled t \<longrightarrow> tl_procOnce t) \<and>
     (tl_procOnce t \<and> \<not> tl_running t \<longrightarrow> tl_cancelled t) \<and>
     (\<not> tl_procOnce t \<longrightarrow> tl_tcpHandled t = [] \<and> tl_udpHandled t = [])"

lemma tunnel_inv_step:
  assumes "tunnel_inv t" "tunnel_step t t'"
  shows "tunnel_inv t'"
  using assms(2)
proof cases
  case (take_tcp i)
  then have i: "tl_running t" "i < length (tl_tcpQueue t)" "t' = t\<lparr>tl_tcpQueue := take i (tl_tcpQueue t) @
      drop (Suc i) (tl_tcpQueue t), tl_tcpHandled := tl_tcpHandled t @ [tl_tcpQueue t ! i]\<rparr>"
    by (auto simp: process_tcp_def split: if_splits)
  from assms(1) i(1,3) mset_remove_nth [OF i(2)] show ?thesis by (auto simp: tunnel_inv_def)
next
  case (take_udp i)
  then have i: "tl_running t" "i < length (tl_udpQueue t)" "t' = t\<lparr>tl_udpQueue := take i (tl_udpQueue t) @
      drop (Suc i) (tl_udpQueue t), tl_udpHandled := tl_udpHandled t @ [tl_udpQueue t ! i]\<rparr>"
    by (auto simp: process_udp_def split: if_splits)
  from assms(1) i(1,3) mset_remove_nth [OF i(2)] show ?thesis by (auto simp: tunnel_inv_def)
qed (use assms(1) in \<open>auto simp: tunnel_inv_def tunnel_defs split: if_splits\<close>)

interpretation tunnel_queue: invariant_system "\<lambda>t. \<exists>d. t = Tunnel_New d" tunnel_step tunnel_inv
proof unfold_locales
  show "tunnel_inv t" if "\<exists>d. t = Tunnel_New d" for t :: "('d, 'c) tunnel"
    using that by (auto simp: tunnel_inv_def Tunnel_New_def)
qed (rule tunnel_inv_step)

text \<open>A connection once handed in is waiting or has one handler; none is handled before the start.\<close>

lemma tunnel_exactly_once:
  assumes "tunnel_step\<^sup>*\<^sup>* (Tunnel_New d) t"
  shows "mset (tl_tcpIn t) = mset (tl_tcpQueue t) + mset (tl_tcpHandled t)"
    and "mset (tl_udpIn t) = mset (tl_udpQueue t) + mset (tl_udpHandled t)"
    and "\<not> tl_procOnce t \<Longrightarrow> tl_tcpHandled t = [] \<and> tl_udpHandled t = []"
  using tunnel_queue.reachable_inv [OF _ assms] by (auto simp: tunnel_inv_def)

text \<open>While the goroutine runs, every waiting connection can be taken next; once it has returned, none ever is.\<close>

lemma tunnel_progress:
  "tl_running t \<Longrightarrow> c \<in> set (tl_tcpQueue t) \<Longrightarrow>
    \<exists>t'. tunnel_step t t' \<and> tl_tcpHandled t' = tl_tcpHandled t @ [c]"
proof -
  assume r: "tl_running t" and "c \<in> set (tl_tcpQueue t)"
  then obtain i where i: "i < length (tl_tcpQueue t)" "tl_tcpQueue t ! i = c" by (auto simp: in_set_conv_nth)
  let ?t = "t\<lparr>tl_tcpQueue := take i (tl_tcpQueue t) @ drop (Suc i) (tl_tcpQueue t),
    tl_tcpHandled := tl_tcpHandled t @ [c]\<rparr>"
  have "tunnel_step t ?t" using r i by (intro tunnel_step.take_tcp [of i]) (simp add: process_tcp_def)
  then show "\<exists>t'. tunnel_step t t' \<and> tl_tcpHandled t' = tl_tcpHandled t @ [c]" by (intro exI [of _ ?t]) simp
qed

lemma tunnel_over:
  assumes "tunnel_step\<^sup>*\<^sup>* t t'" "tl_procOnce t" "\<not> tl_running t"
  shows "\<not> tl_running t' \<and> tl_tcpHandled t' = tl_tcpHandled t \<and> tl_udpHandled t' = tl_udpHandled t"
proof -
  have "\<not> tl_running t' \<and> tl_procOnce t' \<and> tl_tcpHandled t' = tl_tcpHandled t \<and> tl_udpHandled t' = tl_udpHandled t"
    using assms(1)
  proof (induction rule: rtranclp_induct)
    case (step u v)
    from step.hyps(2) step.IH show ?case
      by (cases rule: tunnel_step.cases) (auto simp: tunnel_defs split: if_splits)
  qed (use assms(2,3) in simp)
  then show ?thesis by simp
qed

end
