(* ===== verification/TunTunnel.thy ===== *)
theory TunTunnel
  imports Duplex ArgoProxy ArgoPool Allocator NetipParse TunQueue
begin

text \<open>
  \<open>src/client/tun/tunnel\<close>: a connection of the TUN device's network stack is described by its metadata,
  the proxy dials a websocket for it, and \<open>pipe\<close> copies both ways with \<open>io.CopyBuffer\<close> and buffers of the
  size of the device's MTU. The pair is an instance of the duplex of theory \<open>Duplex\<close>, with the device's
  connection as \<open>a\<close> and the websocket as \<open>b\<close>.
\<close>

section \<open>Connections\<close>

text \<open>A connection of the network stack, TCP or UDP, that may have been closed.\<close>

record origin_conn =
  or_conn :: os_conn
  or_udp :: bool

definition origin_read :: "origin_conn reader" where
  "origin_read n o1 =
     (if oc_closed (or_conn o1) then (ReadRet [] (Some err_closed), o1)
      else case (if or_udp o1 then udp_read n (or_conn o1) else os_read n (or_conn o1)) of
             (r, c) \<Rightarrow> (r, o1\<lparr>or_conn := c\<rparr>))"

definition origin_write :: "origin_conn writer" where
  "origin_write p o1 = (case sock_write p (or_conn o1) of (r, c) \<Rightarrow> (r, o1\<lparr>or_conn := c\<rparr>))"

definition origin_close :: "origin_conn \<Rightarrow> origin_conn" where
  "origin_close o1 = o1\<lparr>or_conn := os_close (or_conn o1)\<rparr>"

text \<open>What \<open>Argo.Dial\<close> returns: a websocket, or one wrapped in an \<open>argoConn\<close>.\<close>

type_synonym proxied_conn = "gorilla_conn proxied"

fun proxied_Read :: "proxied_conn reader" where
  "proxied_Read n (Plain c) = (case GorillaConn_Read n c of (r, c') \<Rightarrow> (r, Plain c'))"
| "proxied_Read n (Wrapped w) = (case argo_Read GorillaConn_Read n w of (r, w') \<Rightarrow> (r, Wrapped w'))"

fun proxied_Write :: "proxied_conn writer" where
  "proxied_Write p (Plain c) = (case GorillaConn_Write p c of (r, c') \<Rightarrow> (r, Plain c'))"
| "proxied_Write p (Wrapped w) = (case argo_Write GorillaConn_Write p w of (r, w') \<Rightarrow> (r, Wrapped w'))"

fun proxied_Close :: "proxied_conn \<Rightarrow> proxied_conn" where
  "proxied_Close (Plain c) = Plain (GorillaConn_Close c)"
| "proxied_Close (Wrapped w) = Wrapped (w\<lparr>ac_Conn := GorillaConn_Close (ac_Conn w)\<rparr>)"

text \<open>The proxy itself: a handle of the transport.\<close>

record 'c argo =
  ar_ws :: "'c websocket"

definition NewArgo :: "params \<Rightarrow> 'c argo option" where
  "NewArgo p = map_option (\<lambda>w. \<lparr>ar_ws = w\<rparr>) (NewWebsocket p)"

definition Argo_Addr :: "'c argo \<Rightarrow> string" where "Argo_Addr a = ws_Url (ar_ws a)"
definition Argo_Host :: "'c argo \<Rightarrow> string" where "Argo_Host a = ws_Address (ar_ws a)"

definition Argo_Close :: "'c argo \<Rightarrow> 'c argo close_result" where
  "Argo_Close a =
     (case Websocket_Close (ar_ws a) of
        ClosePanics \<Rightarrow> ClosePanics
      | CloseReturns w \<Rightarrow> CloseReturns (a\<lparr>ar_ws := w\<rparr>)
      | CloseWaits w \<Rightarrow> CloseWaits (a\<lparr>ar_ws := w\<rparr>))"

section \<open>Handlers\<close>

text \<open>The four-tuple of a connection of the stack; the device's side is the remote one.\<close>

record transport_id =
  ti_RemoteAddress :: bytes
  ti_RemotePort :: u16
  ti_LocalAddress :: bytes
  ti_LocalPort :: u16

definition parseTCPIPAddress :: "bytes \<Rightarrow> addr" where
  "parseTCPIPAddress a = fst (addr_from_slice a)"

text \<open>A \<open>net.Addr\<close>: nil, one with an \<open>AddrPort\<close> method, or one that can only print itself.\<close>

datatype net_addr = NilAddr | WithAddrPort addr u16 | Printed string

definition parseAddrString :: "string \<Rightarrow> addr \<times> u16" where
  "parseAddrString s = (case ParseAddrPort s of None \<Rightarrow> (AddrZero, 0) | Some ap \<Rightarrow> ap)"

fun parseNetAddr :: "net_addr \<Rightarrow> addr \<times> u16" where
  "parseNetAddr NilAddr = (AddrZero, 0)"
| "parseNetAddr (WithAddrPort a p) = (a, p)"
| "parseNetAddr (Printed s) = parseAddrString s"

text \<open>Printing an address first makes no difference.\<close>

lemma parseNetAddr_printed:
  "addr_is_valid a \<Longrightarrow> parseNetAddr (Printed (addr_port_string a p)) = parseNetAddr (WithAddrPort a p)"
  using addr_port.dec_enc [of "(a, p)"] by (simp add: parseAddrString_def addr_port_print_def)

definition session_metadata :: "byte \<Rightarrow> transport_id \<Rightarrow> metadata" where
  "session_metadata network i =
     (let srcIP = parseTCPIPAddress (ti_RemoteAddress i);
          dstIP = parseTCPIPAddress (ti_LocalAddress i)
      in \<lparr>md_Network = network, md_IPVersion = (if addr_is4 dstIP then 4 else 6),
          md_SrcIP = srcIP, md_DstIP = dstIP,
          md_SrcPort = ti_RemotePort i, md_DstPort = ti_LocalPort i\<rparr>)"

text \<open>
  \<open>unidirectionalStream\<close>. Its buffer comes from the allocator; a nil buffer makes \<open>io.CopyBuffer\<close> take one
  of 32 KiB of its own.
\<close>

definition stream_buffer :: "nat option \<Rightarrow> int \<Rightarrow> allocator \<Rightarrow> (slice option \<times> nat \<times> allocator) option" where
  "stream_buffer pick relay_size a =
     (case buffer_Get pick relay_size a of
        (GetPanic, a') \<Rightarrow> None
      | (GetNil, a') \<Rightarrow> Some (None, 32 * 1024, a')
      | (GetBuf x, a') \<Rightarrow> Some (Some x, sl_len x, a'))"

definition return_buffer :: "slice option \<Rightarrow> allocator \<Rightarrow> (go_error option \<times> allocator) option" where
  "return_buffer b a =
     (case b of
        Some x \<Rightarrow> buffer_Put x a
      | None \<Rightarrow> buffer_Put \<lparr>sl_id = 0, sl_len = 0, sl_cap = 0\<rparr> a)"

type_synonym tun_pipe = "(origin_conn, proxied_conn) duplex"

definition origin_to_remote :: "nat \<Rightarrow> (proxied_conn, origin_conn) iteration" where
  "origin_to_remote n st remote origin = copy_iter proxied_Write origin_read n remote origin"

definition remote_to_origin :: "nat \<Rightarrow> (origin_conn, proxied_conn) iteration" where
  "remote_to_origin n st origin remote = copy_iter origin_write proxied_Read n origin remote"

definition stream_end_ab :: "tun_pipe \<Rightarrow> tun_pipe" where
  "stream_end_ab d = d\<lparr>dx_a := origin_close (dx_a d), dx_b := proxied_Close (dx_b d)\<rparr>"

definition stream_end_ba :: "tun_pipe \<Rightarrow> tun_pipe" where
  "stream_end_ba d = d\<lparr>dx_b := proxied_Close (dx_b d), dx_a := origin_close (dx_a d)\<rparr>"

text \<open>\<open>pipe\<close> runs both directions, with buffers of \<open>n\<close> and \<open>m\<close> bytes.\<close>

abbreviation pipe_step :: "nat \<Rightarrow> nat \<Rightarrow> tun_pipe \<Rightarrow> tun_pipe \<Rightarrow> bool" where
  "pipe_step n m \<equiv> duplex_step (origin_to_remote n) (remote_to_origin m) stream_end_ab stream_end_ba"

text \<open>
  The handlers up to \<open>pipe\<close>, given what the transport's \<open>Dial\<close> answers. A failed dial closes a UDP
  connection of the device and leaves a TCP one open.
\<close>

datatype handled = HandlePanic | DialFailed origin_conn go_error | Piping tun_pipe

definition handleTCPConn :: "(metadata \<Rightarrow> go_error + (gorilla_conn \<times> bool)) \<Rightarrow> transport_id
    \<Rightarrow> origin_conn \<Rightarrow> handled" where
  "handleTCPConn dial i originConn =
     (let m = session_metadata 6 i in
      case Argo_Dial (dial m) m of
        None \<Rightarrow> HandlePanic
      | Some (Inl e) \<Rightarrow> DialFailed originConn e
      | Some (Inr remoteConn) \<Rightarrow> Piping (duplex_start originConn remoteConn))"

definition handleUDPConn :: "(metadata \<Rightarrow> go_error + (gorilla_conn \<times> bool)) \<Rightarrow> transport_id
    \<Rightarrow> origin_conn \<Rightarrow> handled" where
  "handleUDPConn dial i originConn =
     (let m = session_metadata 17 i in
      case Argo_Dial (dial m) m of
        None \<Rightarrow> HandlePanic
      | Some (Inl e) \<Rightarrow> DialFailed (origin_close originConn) e
      | Some (Inr remoteConn) \<Rightarrow> Piping (duplex_start originConn remoteConn))"

section \<open>The connections keep the interface\<close>

definition origin_fits :: "nat \<Rightarrow> origin_conn \<Rightarrow> bool" where
  "origin_fits n o1 \<longleftrightarrow> 0 < n \<and>
     (or_udp o1 \<longrightarrow> (\<forall>d. InData d \<in> set (oc_in (or_conn o1)) \<longrightarrow> length d \<le> n))"

abbreviation origin_pending :: "origin_conn \<Rightarrow> bytes" where
  "origin_pending o1 \<equiv> os_pending (or_conn o1)"

lemma origin_read_fits:
  assumes "origin_fits n o1" "\<not> oc_closed (or_conn o1)"
  shows "origin_read n o1 = (case os_read n (or_conn o1) of (r, c) \<Rightarrow> (r, o1\<lparr>or_conn := c\<rparr>))"
  using assms udp_read_os_read [of "or_conn o1" n] by (auto simp: origin_read_def origin_fits_def)

lemma origin_read_frame:
  "origin_read n o1 = (r, o2) \<Longrightarrow> oc_out (or_conn o2) = oc_out (or_conn o1) \<and>
     oc_closed (or_conn o2) = oc_closed (or_conn o1) \<and> (origin_fits k o1 \<longrightarrow> origin_fits k o2)"
  by (auto simp: origin_read_def udp_read_def os_read_def origin_fits_def
      split: if_splits prod.splits list.splits read_event.splits)

lemma origin_write_frame:
  "origin_write p o1 = (r, o2) \<Longrightarrow> origin_pending o2 = origin_pending o1 \<and>
     oc_closed (or_conn o2) = oc_closed (or_conn o1) \<and> origin_fits k o2 = origin_fits k o1"
  by (auto simp: origin_write_def origin_fits_def os_pending_def dest!: sock_write_frame split: prod.splits)

interpretation origin_writer: writer_view sock_write oc_out "\<lambda>_. True"
    "\<lambda>c. \<not> oc_closed c \<and> oc_wr c = []" origin_write or_conn
  by unfold_locales (auto simp: origin_write_def split: prod.splits)

text \<open>An open connection of the stack as a reader.\<close>

interpretation origin_reader: conn_reader origin_read
    "\<lambda>o1. if oc_closed (or_conn o1) then [] else origin_pending o1" "\<lambda>o1. os_work (or_conn o1)"
    "\<lambda>n o1. origin_fits n o1 \<and> \<not> oc_closed (or_conn o1)"
proof unfold_locales
  fix n o1 d er o2
  assume r: "origin_read n o1 = (ReadRet d er, o2)"
  then show "length d \<le> n"
    by (auto simp: origin_read_def dest: os_reader.read_bound udp_read_bound split: if_splits prod.splits)
  assume f: "origin_fits n o1 \<and> \<not> oc_closed (or_conn o1)"
  then have n: "0 < n" by (simp add: origin_fits_def)
  from f r origin_read_fits [of n o1] have c: "os_read n (or_conn o1) = (ReadRet d er, or_conn o2)"
    by (auto split: prod.splits)
  from os_reader.read_work [OF n c] show "os_work (or_conn o2) < os_work (or_conn o1)" .
  from origin_read_frame [OF r] f show "origin_fits n o2 \<and> \<not> oc_closed (or_conn o2)" by blast
next
  fix n o1 d o2
  assume f: "origin_fits n o1 \<and> \<not> oc_closed (or_conn o1)" and r: "origin_read n o1 = (ReadRet d None, o2)"
  then show "(if oc_closed (or_conn o1) then [] else origin_pending o1) =
      d @ (if oc_closed (or_conn o2) then [] else origin_pending o2)"
    using origin_read_fits [of n o1] origin_read_frame [OF r] os_reader.read_pending [of n "or_conn o1" d]
    by (auto simp: origin_fits_def split: prod.splits)
next
  fix n o1 d e o2
  assume f: "origin_fits n o1 \<and> \<not> oc_closed (or_conn o1)" and r: "origin_read n o1 = (ReadRet d (Some e), o2)"
  then show "d = [] \<and> (if oc_closed (or_conn o1) then [] else origin_pending o1) = []"
    using origin_read_fits [of n o1] os_reader.read_error [of n "or_conn o1" d e]
    by (auto simp: origin_fits_def split: prod.splits)
next
  fix n o1 o2
  assume "origin_read n o1 = (ReadBlock, o2)"
  then show "(if oc_closed (or_conn o1) then [] else origin_pending o1) = []"
    by (auto simp: origin_read_def dest: os_reader.read_block udp_read_block split: if_splits prod.splits)
qed

fun proxied_pending :: "proxied_conn \<Rightarrow> bytes" where
  "proxied_pending (Plain c) = gorilla_pending c"
| "proxied_pending (Wrapped w) = gorilla_pending (ac_Conn w)"

fun proxied_work :: "proxied_conn \<Rightarrow> nat" where
  "proxied_work (Plain c) = gorilla_work c"
| "proxied_work (Wrapped w) = gorilla_work (ac_Conn w)"

fun proxied_sent :: "proxied_conn \<Rightarrow> bytes" where
  "proxied_sent (Plain c) = gorilla_sent c"
| "proxied_sent (Wrapped w) = argo_sent w"

fun proxied_ok :: "proxied_conn \<Rightarrow> bool" where
  "proxied_ok (Plain c) = True"
| "proxied_ok (Wrapped w) = argo_ok w"

fun proxied_reliable :: "proxied_conn \<Rightarrow> bool" where
  "proxied_reliable (Plain c) = (g_wr c = [])"
| "proxied_reliable (Wrapped w) = (g_wr (ac_Conn w) = [])"

text \<open>Reading never touches the writing half and conversely.\<close>

lemma gorilla_frames:
  "GorillaConn_Read n c = (r, c') \<Longrightarrow> gorilla_sent c' = gorilla_sent c \<and> g_wr c' = g_wr c"
  "GorillaConn_Write p c = (r2, c2) \<Longrightarrow> gorilla_pending c2 = gorilla_pending c"
  using gorilla_read_cases [of c n] gorilla_write_cases [of p c]
  by (auto simp: gorilla_sent_def gorilla_pending_def)

lemma proxied_read_frame:
  "proxied_Read n x = (r, y) \<Longrightarrow> proxied_sent y = proxied_sent x \<and> proxied_ok y = proxied_ok x"
  using gorilla_frames(1) [of n, OF surjective_pairing]
  by (cases x) (auto simp: argo_Read_eq argo_sent_def argo_ok_def dest: gorilla_frames(1) split: prod.splits)

lemma proxied_write_frame: "proxied_Write p x = (r, y) \<Longrightarrow> proxied_pending y = proxied_pending x"
  by (cases x) (auto simp: argo_Write_def Let_def dest!: gorilla_frames(2)
      split: prod.splits if_splits option.splits)

lemma proxied_close_frame [simp]:
  "proxied_sent (proxied_Close x) = proxied_sent x" "proxied_pending (proxied_Close x) = proxied_pending x"
  "proxied_ok (proxied_Close x) = proxied_ok x"
  by (cases x; simp add: GorillaConn_Close_def gorilla_sent_def gorilla_pending_def argo_sent_def argo_ok_def)+

interpretation proxied_reader: conn_reader proxied_Read proxied_pending proxied_work "\<lambda>n _. 0 < n"
proof unfold_locales
  fix n x d er y
  assume r: "proxied_Read n x = (ReadRet d er, y)"
  then show "length d \<le> n"
    by (cases x) (auto dest: gorilla_reader.read_bound argo_reader.read_bound split: prod.splits)
  assume n: "0 < n"
  with r show "proxied_work y < proxied_work x"
    by (cases x) (auto dest: gorilla_reader.read_work argo_reader.read_work split: prod.splits)
next
  fix n x d y
  assume "0 < n" "proxied_Read n x = (ReadRet d None, y)"
  then show "proxied_pending x = d @ proxied_pending y"
    by (cases x) (auto dest: gorilla_reader.read_pending argo_reader.read_pending split: prod.splits)
next
  fix n x d e y
  assume "0 < n" "proxied_Read n x = (ReadRet d (Some e), y)"
  then show "d = [] \<and> proxied_pending x = []"
    by (cases x) (auto dest: gorilla_reader.read_error argo_reader.read_error split: prod.splits)
next
  fix n x y
  assume "proxied_Read n x = (ReadBlock, y)"
  then show "proxied_pending x = []"
    by (cases x) (auto dest: gorilla_reader.read_block argo_reader.read_block split: prod.splits)
qed

interpretation proxied_writer: conn_writer proxied_Write proxied_sent proxied_ok proxied_reliable
proof unfold_locales
  fix x p y
  assume "proxied_ok x" "proxied_Write p x = ((length p, None), y)"
  then show "proxied_sent y = proxied_sent x @ p \<and> proxied_ok y"
    by (cases x) (auto dest: gorilla_writer.write_sent [OF TrueI] argo_writer.write_sent split: prod.splits)
next
  fix x p k er y
  assume "proxied_ok x" "proxied_Write p x = ((k, er), y)"
  then show "\<exists>j. proxied_sent y = proxied_sent x @ take j p"
    by (cases x) (auto dest: gorilla_writer.write_prefix [OF TrueI] argo_writer.write_prefix split: prod.splits)
next
  fix x p
  assume a: "proxied_ok x" "proxied_reliable x"
  show "\<exists>y. proxied_Write p x = ((length p, None), y) \<and> proxied_reliable y"
  proof (cases x)
    case (Plain c)
    then show ?thesis using a gorilla_writer.write_reliable [OF TrueI, of c p] by auto
  next
    case (Wrapped w)
    then show ?thesis using a argo_writer.write_reliable [of w p] by auto
  qed
qed

interpretation tun_up:
  conn_pair origin_read "\<lambda>o1. if oc_closed (or_conn o1) then [] else origin_pending o1"
    "\<lambda>o1. os_work (or_conn o1)" "\<lambda>n o1. origin_fits n o1 \<and> \<not> oc_closed (or_conn o1)"
    proxied_Write proxied_sent proxied_ok proxied_reliable
  ..

interpretation tun_down:
  conn_pair proxied_Read proxied_pending proxied_work "\<lambda>n _. 0 < n"
    origin_write "\<lambda>o1. oc_out (or_conn o1)" "\<lambda>_. True" "\<lambda>o1. \<not> oc_closed (or_conn o1) \<and> oc_wr (or_conn o1) = []"
  ..

lemma closed_origin_stops:
  assumes "oc_closed (or_conn o1)" "copy_iter wr origin_read n dst o1 = (q, dst', o2)"
  shows "dst' = dst \<and> q \<noteq> None \<and> q \<noteq> Some LoopBlocked"
  using assms by (auto simp: copy_iter_def origin_read_def)

interpretation to_remote:
  direction "origin_to_remote n" "\<lambda>o1. oc_out (or_conn o1)" origin_pending "\<lambda>_. True" "origin_fits n"
    proxied_sent proxied_pending proxied_ok "\<lambda>_. 0 < m"
  for n m
proof unfold_locales
  fix st b a b' a'
  assume f: "origin_fits n a" "proxied_ok b" and i: "origin_to_remote n st b a = (None, b', a')"
  note i' = i [unfolded origin_to_remote_def]
  have nc: "\<not> oc_closed (or_conn a)" using closed_origin_stops [OF _ i'] by blast
  moreover have "\<not> oc_closed (or_conn a')"
    using nc copy_iter_reads [OF i'] origin_read_frame by blast
  ultimately show "\<exists>d. proxied_sent b' = proxied_sent b @ d \<and> origin_pending a = d @ origin_pending a' \<and>
      proxied_ok b'"
    using tun_up.copy_iter_continue [OF _ f(2) i'] f(1) by auto
next
  fix st b a r b' a'
  assume f: "origin_fits n a" "proxied_ok b" and i: "origin_to_remote n st b a = (Some r, b', a')"
  note i' = i [unfolded origin_to_remote_def]
  show "\<exists>d rest. proxied_sent b' = proxied_sent b @ d \<and> origin_pending a = d @ rest"
  proof (cases "oc_closed (or_conn a)")
    case True
    with closed_origin_stops [OF True i'] show ?thesis by simp
  next
    case False
    with tun_up.copy_iter_stop [OF _ f(2) i'] f(1) show ?thesis by simp
  qed
next
  fix st b a b' a'
  assume i: "origin_to_remote n st b a = (Some LoopBlocked, b', a')"
  note i' = i [unfolded origin_to_remote_def]
  have "\<not> oc_closed (or_conn a)" using closed_origin_stops [OF _ i'] by blast
  with copy_iter_blocked [OF i'] origin_reader.read_block show "origin_pending a = []" by fastforce
next
  fix st b a q b' a'
  assume i: "origin_to_remote n st b a = (q, b', a')"
  from copy_iter_reads [OF i [unfolded origin_to_remote_def]] origin_read_frame proxied_write_frame
  show "oc_out (or_conn a') = oc_out (or_conn a) \<and> True = True \<and> proxied_pending b' = proxied_pending b \<and>
      (origin_fits n a \<longrightarrow> origin_fits n a') \<and> (0 < m) = (0 < m)"
    by metis
qed

interpretation to_origin:
  direction "remote_to_origin m" proxied_sent proxied_pending proxied_ok "\<lambda>_. 0 < m"
    "\<lambda>o1. oc_out (or_conn o1)" origin_pending "\<lambda>_. True" "origin_fits n"
  for n m
proof unfold_locales
  fix st a b a' b'
  assume "0 < m" and i: "remote_to_origin m st a b = (None, a', b')"
  from tun_down.copy_iter_continue [OF \<open>0 < m\<close> _ i [unfolded remote_to_origin_def]]
  show "\<exists>d. oc_out (or_conn a') = oc_out (or_conn a) @ d \<and> proxied_pending b = d @ proxied_pending b' \<and> True"
    by auto
next
  fix st a b r a' b'
  assume "0 < m" and i: "remote_to_origin m st a b = (Some r, a', b')"
  from tun_down.copy_iter_stop [OF \<open>0 < m\<close> _ i [unfolded remote_to_origin_def]]
  show "\<exists>d rest. oc_out (or_conn a') = oc_out (or_conn a) @ d \<and> proxied_pending b = d @ rest" by simp
next
  fix st a b a' b'
  assume i: "remote_to_origin m st a b = (Some LoopBlocked, a', b')"
  from copy_iter_blocked [OF i [unfolded remote_to_origin_def]] proxied_reader.read_block
  show "proxied_pending b = []" by blast
next
  fix st a b q a' b'
  assume i: "remote_to_origin m st a b = (q, a', b')"
  from copy_iter_reads [OF i [unfolded remote_to_origin_def]] proxied_read_frame origin_write_frame
  show "proxied_sent b' = proxied_sent b \<and> proxied_ok b' = proxied_ok b \<and>
      origin_pending a' = origin_pending a \<and> (0 < m \<longrightarrow> 0 < m) \<and> origin_fits n a' = origin_fits n a"
    by metis
qed

interpretation tun_duplex:
  duplex_laws "origin_to_remote n" "remote_to_origin m" stream_end_ab stream_end_ba
    "\<lambda>o1. oc_out (or_conn o1)" origin_pending "\<lambda>_. True" "origin_fits n"
    proxied_sent proxied_pending proxied_ok "\<lambda>_. 0 < m"
  for n m
  by unfold_locales
    (simp_all add: stream_end_ab_def stream_end_ba_def origin_close_def os_close_def os_pending_def
    origin_fits_def)

text \<open>A direction that ended has closed both connections, which ends the other direction.\<close>

fun proxied_closed :: "proxied_conn \<Rightarrow> bool" where
  "proxied_closed (Plain c) = g_closed c"
| "proxied_closed (Wrapped w) = g_closed (ac_Conn w)"

definition pipe_closed_inv :: "tun_pipe \<Rightarrow> bool" where
  "pipe_closed_inv d \<longleftrightarrow>
     (dx_ab d \<and> dx_ba d) \<or> (oc_closed (or_conn (dx_a d)) \<and> proxied_closed (dx_b d))"

lemma gorilla_closed_frames:
  "GorillaConn_Read n c = (r, c') \<Longrightarrow> g_closed c' = g_closed c"
  "GorillaConn_Write p c = (r2, c2) \<Longrightarrow> g_closed c2 = g_closed c"
  using gorilla_read_cases [of c n] gorilla_write_cases [of p c] by auto

lemma gorilla_read_closed [simp]: "g_closed (snd (GorillaConn_Read n c)) = g_closed c"
  by (metis gorilla_closed_frames(1) prod.collapse)

lemma proxied_read_closed: "proxied_Read n x = (r, y) \<Longrightarrow> proxied_closed y = proxied_closed x"
  by (cases x) (auto simp: argo_Read_eq case_prod_beta)

lemma proxied_write_closed: "proxied_Write p x = (r, y) \<Longrightarrow> proxied_closed y = proxied_closed x"
  by (cases x) (auto simp: argo_Write_def Let_def dest!: gorilla_closed_frames(2)
      split: prod.splits if_splits option.splits)

lemma proxied_closed_Close [simp]: "proxied_closed (proxied_Close x)"
  by (cases x) (simp_all add: GorillaConn_Close_def)

lemma pipe_closed_step:
  assumes "pipe_closed_inv d" "pipe_step n m d d'"
  shows "pipe_closed_inv d'"
  using assms(2)
proof cases
  case (ab_go b a)
  from copy_iter_reads [OF ab_go(3) [unfolded origin_to_remote_def]]
  have "oc_closed (or_conn a) = oc_closed (or_conn (dx_a d))" "proxied_closed b = proxied_closed (dx_b d)"
    by (auto dest: origin_read_frame proxied_write_closed)
  with assms(1) ab_go(1) show ?thesis by (auto simp: pipe_closed_inv_def)
next
  case (ba_go a b)
  from copy_iter_reads [OF ba_go(3) [unfolded remote_to_origin_def]]
  have "oc_closed (or_conn a) = oc_closed (or_conn (dx_a d))" "proxied_closed b = proxied_closed (dx_b d)"
    by (auto dest: origin_write_frame proxied_read_closed)
  with assms(1) ba_go(1) show ?thesis by (auto simp: pipe_closed_inv_def)
qed (simp_all add: pipe_closed_inv_def stream_end_ab_def stream_end_ba_def origin_close_def os_close_def)

interpretation pipe_closing:
  invariant_system "\<lambda>d. \<exists>a b. d = duplex_start a b" "pipe_step n m" pipe_closed_inv for n m
proof unfold_locales
  show "pipe_closed_inv d" if "\<exists>a b. d = duplex_start a b" for d
    using that by (auto simp: pipe_closed_inv_def duplex_start_def)
qed (rule pipe_closed_step)

section \<open>Properties\<close>

text \<open>
  C10. A session of the TUN device, however its two copies interleave: the websocket carries, behind the
  header if there is one, a prefix of the device's bytes, and the device receives a prefix of the
  websocket's bytes; a copy that waits for input has delivered everything that came; and a copy
  that ended has closed both connections.
\<close>

theorem tun_pipe_correct:
  assumes "(pipe_step n m)\<^sup>*\<^sup>* (duplex_start origin remote) d"
    and "origin_fits n origin" and "0 < m" and "proxied_ok remote"
  shows "(\<exists>rest. proxied_sent (dx_b d) @ rest = proxied_sent remote @ os_pending (or_conn origin)) \<and>
    (\<exists>rest. oc_out (or_conn (dx_a d)) @ rest = oc_out (or_conn origin) @ proxied_pending remote) \<and>
    (dx_ab d \<and> (\<exists>b a. origin_to_remote n (dx_stop d) (dx_b d) (dx_a d) = (Some LoopBlocked, b, a)) \<longrightarrow>
      proxied_sent (dx_b d) = proxied_sent remote @ os_pending (or_conn origin)) \<and>
    (dx_ba d \<and> (\<exists>a b. remote_to_origin m (dx_stop d) (dx_a d) (dx_b d) = (Some LoopBlocked, a, b)) \<longrightarrow>
      oc_out (or_conn (dx_a d)) = oc_out (or_conn origin) @ proxied_pending remote) \<and>
    (\<not> dx_ab d \<or> \<not> dx_ba d \<longrightarrow> oc_closed (or_conn (dx_a d)) \<and> proxied_closed (dx_b d))"
  using tun_duplex.duplex_safe(1,2) [OF assms(1) TrueI assms(4,2,3)]
    tun_duplex.duplex_delivered [OF assms(1) TrueI assms(4,2,3)]
    pipe_closing.reachable_inv [OF _ assms(1)]
  by (auto simp: pipe_closed_inv_def)

definition demo_origin :: origin_conn where
  "demo_origin = \<lparr>or_conn = os_open [InData [1, 2]] [], or_udp = False\<rparr>"

definition demo_proxied :: proxied_conn where
  "demo_proxied = Plain (gorilla_open [] [])"

definition demo_pipe :: tun_pipe where
  "demo_pipe = (duplex_start demo_origin demo_proxied)
     \<lparr>dx_a := demo_origin\<lparr>or_conn := (or_conn demo_origin)\<lparr>oc_in := []\<rparr>\<rparr>,
      dx_b := Plain ((gorilla_open [] [])\<lparr>g_msgs := [[1, 2]]\<rparr>)\<rparr>"

lemma demo_pipe_step: "pipe_step 1280 1280 (duplex_start demo_origin demo_proxied) demo_pipe"
  unfolding demo_pipe_def
  by (rule duplex_step.ab_go)
    (simp_all add: duplex_start_def origin_to_remote_def copy_iter_def origin_read_def os_read_def
      demo_origin_def demo_proxied_def os_open_def gorilla_open_def GorillaConn_Write_def)

theorem tun_pipe_correct_witness:
  "(pipe_step 1280 1280)\<^sup>*\<^sup>* (duplex_start demo_origin demo_proxied) demo_pipe \<and>
   (\<exists>rest. proxied_sent (dx_b demo_pipe) @ rest = [1, 2])"
proof -
  have "(pipe_step 1280 1280)\<^sup>*\<^sup>* (duplex_start demo_origin demo_proxied) demo_pipe"
    using demo_pipe_step by (rule r_into_rtranclp)
  moreover have "origin_fits 1280 demo_origin" "proxied_ok demo_proxied"
    by (simp_all add: origin_fits_def demo_origin_def demo_proxied_def)
  moreover have "proxied_sent demo_proxied @ os_pending (or_conn demo_origin) = [1, 2]"
    by (simp add: demo_proxied_def demo_origin_def gorilla_sent_def gorilla_open_def os_pending_def os_open_def)
  ultimately show ?thesis
    using tun_pipe_correct [of 1280 1280 demo_origin demo_proxied demo_pipe] by simp
qed

text \<open>
  The relay buffer: for an MTU from 1 to 65536 each direction copies with exactly that many bytes
  and the buffer can be given back; for any other MTU the copy uses 32 KiB of its own and takes
  nothing from the allocator.
\<close>

theorem relay_buffer:
  assumes "buckets_ok a"
  shows "(if 0 < mtu \<and> mtu \<le> 65536
     then \<exists>x a' a''. stream_buffer pick mtu a = Some (Some x, nat mtu, a') \<and>
            return_buffer (Some x) a' = Some (None, a'') \<and> buckets_ok a''
     else stream_buffer pick mtu a = Some (None, 32768, a) \<and>
          (\<exists>e. return_buffer None a = Some (Some e, a)))"
proof (cases "0 < mtu \<and> mtu \<le> 65536")
  case True
  then obtain x a' k where g: "Allocator_Get pick mtu a = (GetBuf x, a')" "buckets_ok a'"
    "sl_cap x = 2 ^ k" "k \<le> 16" "sl_len x = nat mtu"
    using Allocator_Get_ok [OF assms, of mtu pick] by blast
  from g True Allocator_Put_pow2 [OF g(2,3,4)] pool_Put_ok(1) [OF g(2,3,4)] show ?thesis
    by (simp add: stream_buffer_def return_buffer_def buffer_defs)
next
  case False
  then have g: "Allocator_Get pick mtu a = (GetNil, a)" by (auto simp: Allocator_Get_def)
  show ?thesis unfolding if_not_P [OF False]
    by (simp add: stream_buffer_def return_buffer_def buffer_defs Allocator_Put_def g)
qed

theorem relay_buffer_witness:
  "\<exists>x a'. stream_buffer None 1280 Allocator_New = Some (Some x, 1280, a')"
  using relay_buffer [OF fresh_buckets_ok, of 1280 None] by auto

lemma Argo_Dial_outcome:
  "(Argo_Dial res m = None) = False" "(Argo_Dial res m = Some (Inl e)) = (res = Inl e)"
  using parseHeader_never_panics [of m] by (auto simp: Argo_Dial_def split: sum.splits)

text \<open>
  The handlers never panic. When the dial fails a UDP connection of the device is closed, a TCP
  connection is returned as it was, still open.
\<close>

theorem dial_failure_handling:
  "handleTCPConn dial i origin \<noteq> HandlePanic \<and> handleUDPConn dial i origin \<noteq> HandlePanic \<and>
   (\<forall>o1 e. handleTCPConn dial i origin = DialFailed o1 e \<longrightarrow>
      dial (session_metadata 6 i) = Inl e \<and> o1 = origin) \<and>
   (\<forall>o1 e. handleUDPConn dial i origin = DialFailed o1 e \<longrightarrow>
      dial (session_metadata 17 i) = Inl e \<and> oc_closed (or_conn o1))"
  by (auto simp: handleTCPConn_def handleUDPConn_def Argo_Dial_outcome Let_def origin_close_def
      os_close_def split: sum.splits option.splits)

definition demo_id :: transport_id where
  "demo_id = \<lparr>ti_RemoteAddress = [10, 0, 0, 2], ti_RemotePort = 5000, ti_LocalAddress = [1, 2, 3, 4],
     ti_LocalPort = 80\<rparr>"

theorem dial_failure_handling_witness:
  "handleUDPConn (\<lambda>_. Inl ErrEOF) demo_id demo_origin = DialFailed (origin_close demo_origin) ErrEOF \<and>
   oc_closed (or_conn (origin_close demo_origin))"
proof -
  have "handleUDPConn (\<lambda>_. Inl ErrEOF) demo_id demo_origin = DialFailed (origin_close demo_origin) ErrEOF"
    by (simp add: handleUDPConn_def Argo_Dial_def Let_def)
  then show ?thesis using dial_failure_handling [of "\<lambda>_. Inl ErrEOF" demo_id demo_origin] by blast
qed

end
