(* ===== verification/ClientConfig.thy ===== *)
theory ClientConfig
  imports ArgoPool
begin

text \<open>
  \<open>src/client/config.go\<close>, \<open>src/client/tun.go\<close> and \<open>src/client/websocket.go\<close>: the client's settings with
  their defaults, what \<open>Run\<close> starts, and the websocket each forwarded port uses.
\<close>

section \<open>Settings\<close>

record tunnel_cfg =
  tn_Listen :: string
  tn_Remote :: string
  tn_Url :: string
  tn_Protocol :: string
  tn_Timeout :: int

record tun_cfg =
  tu_Enable :: bool
  tu_Name :: string
  tu_Interface :: string
  tu_LogLevel :: string
  tu_Routes :: "string list"
  tu_ExRoutes :: "string list"
  tu_Ipv4 :: string
  tu_Ipv6 :: string
  tu_MTU :: int

text \<open>A \<open>null\<close> entry of the tunnel list is a nil pointer: \<open>None\<close>.\<close>

record client_cfg =
  cc_CdnIp :: string
  cc_CdnPort :: int
  cc_PoolSize :: int
  cc_GlobalUrl :: string
  cc_Scheme :: string
  cc_Tunnels :: "tunnel_cfg option list"
  cc_Tun :: "tun_cfg option"

definition getPort :: "client_cfg \<Rightarrow> int" where
  "getPort c = (if cc_CdnPort c = 0 then 443 else cc_CdnPort c)"

definition getPoolSize :: "client_cfg \<Rightarrow> int" where
  "getPoolSize c = (if cc_PoolSize c = 0 then 10 else cc_PoolSize c)"

definition getScheme :: "client_cfg \<Rightarrow> string" where
  "getScheme c =
     (if cc_Scheme c \<noteq> [] then cc_Scheme c
      else if getPort c \<in> {80, 8080, 8880, 2052, 2082, 2086, 2095} then ''ws'' else ''wss'')"

definition getAddress :: "client_cfg \<Rightarrow> string" where
  "getAddress c =
     (if contains_str (cc_CdnIp c) '':'' \<and> \<not> contains_str (cc_CdnIp c) ''[''
      then ''['' @ cc_CdnIp c @ '']:'' @ itoa_int (getPort c)
      else cc_CdnIp c @ '':'' @ itoa_int (getPort c))"

definition tun_params :: "client_cfg \<Rightarrow> params" where
  "tun_params c = \<lparr>pr_Scheme = getScheme c, pr_CdnIP = cc_CdnIp c, pr_Url = cc_GlobalUrl c,
     pr_Port = getPort c, pr_PoolSize = getPoolSize c\<rparr>"

section \<open>Run\<close>

text \<open>What is started, in order. \<open>Run\<close> fills the tunnels' defaults in place; the flag is a panic.\<close>

datatype run_action = RunTun tun_cfg params | RunTcp tunnel_cfg | RunUdp tunnel_cfg

definition tunnel_defaults :: "string \<Rightarrow> tunnel_cfg \<Rightarrow> tunnel_cfg" where
  "tunnel_defaults url t =
     (let t1 = (if tn_Url t = [] then t\<lparr>tn_Url := url\<rparr> else t)
      in if tn_Protocol t1 = ''udp'' \<or> tn_Protocol t1 = ''tcp'' then t1
         else t1\<lparr>tn_Protocol := ''tcp''\<rparr>)"

definition tunnel_action :: "tunnel_cfg \<Rightarrow> run_action" where
  "tunnel_action t = (if tn_Protocol t = ''udp'' then RunUdp t else RunTcp t)"

fun run_tunnels :: "string \<Rightarrow> tunnel_cfg option list \<Rightarrow> run_action list \<times> tunnel_cfg option list \<times> bool" where
  "run_tunnels url [] = ([], [], False)"
| "run_tunnels url (None # ts) = ([], None # ts, True)"
| "run_tunnels url (Some t # ts) =
     (case run_tunnels url ts of
        (acts, ts', p) \<Rightarrow>
          (tunnel_action (tunnel_defaults url t) # acts, Some (tunnel_defaults url t) # ts', p))"

text \<open>
  \<open>Tun.Run\<close> is called in place, not in a goroutine, and returns with the commands it ran, panics, or ends
  the program with an error; \<open>tun_run\<close> gives its result. Only when it returns are the tunnels started.
\<close>

datatype tun_result = TunPanic | TunFatal go_error | TunConfigured "string list list"

datatype client_end = ClientRuns | ClientPanics | ClientFatal go_error

definition device_result :: "(tun_cfg \<Rightarrow> params \<Rightarrow> tun_result) \<Rightarrow> client_cfg \<Rightarrow> tun_result" where
  "device_result tun_run c =
     (case cc_Tun c of
        Some t \<Rightarrow> if tu_Enable t then tun_run t (tun_params c) else TunConfigured []
      | None \<Rightarrow> TunConfigured [])"

definition Config_Run :: "(tun_cfg \<Rightarrow> params \<Rightarrow> tun_result) \<Rightarrow> client_cfg
    \<Rightarrow> run_action list \<times> client_cfg \<times> client_end" where
  "Config_Run tun_run c =
     (let tun = (case cc_Tun c of
                   Some t \<Rightarrow> if tu_Enable t then [RunTun t (tun_params c)] else []
                 | None \<Rightarrow> [])
      in case device_result tun_run c of
           TunPanic \<Rightarrow> (tun, c, ClientPanics)
         | TunFatal e \<Rightarrow> (tun, c, ClientFatal e)
         | TunConfigured cmds \<Rightarrow>
             (case run_tunnels (cc_GlobalUrl c) (cc_Tunnels c) of
                (acts, ts, p) \<Rightarrow>
                  (tun @ acts, c\<lparr>cc_Tunnels := ts\<rparr>, if p then ClientPanics else ClientRuns)))"

section \<open>The TUN device\<close>

definition tun_ipv4 :: "string \<Rightarrow> tun_cfg \<Rightarrow> string" where
  "tun_ipv4 goos t =
     (if tu_Ipv4 t \<noteq> [] then tu_Ipv4 t
      else if goos = ''windows'' then ''192.168.123.1''
      else if goos = ''darwin'' then ''192.168.123.1''
      else ''198.18.0.1'')"

definition tun_ipv6 :: "tun_cfg \<Rightarrow> string" where
  "tun_ipv6 t = (if tu_Ipv6 t \<noteq> [] then tu_Ipv6 t else ''fd12:3456:789a::1'')"

definition tun_mtu :: "tun_cfg \<Rightarrow> int" where
  "tun_mtu t = (if tu_MTU t = 0 then 1280 else tu_MTU t)"

section \<open>The websocket of a forwarded port\<close>

text \<open>\<open>net.SplitHostPort\<close>, as far as its first result goes: the host, or nothing on an error.\<close>

definition index_of :: "char \<Rightarrow> string \<Rightarrow> nat option" where
  "index_of c s = (if c \<in> set s then Some (length (takeWhile (\<lambda>x. x \<noteq> c) s)) else None)"

definition last_index_of :: "char \<Rightarrow> string \<Rightarrow> nat option" where
  "last_index_of c s = (case index_of c (rev s) of None \<Rightarrow> None | Some i \<Rightarrow> Some (length s - 1 - i))"

definition split_host :: "string \<Rightarrow> string" where
  "split_host s =
     (case last_index_of (CHR '':'') s of
        None \<Rightarrow> []
      | Some i \<Rightarrow>
          (let (host, j, k, ok) =
             (if hd s = CHR ''['' then
                (case index_of (CHR '']'') s of
                   None \<Rightarrow> ([], 0, 0, False)
                 | Some e \<Rightarrow> (take (e - 1) (tl s), 1, e + 1, e + 1 = i))
              else (take i s, 0, 0, \<not> contains_str (take i s) '':''))
           in if ok \<and> \<not> contains_str (drop j s) ''['' \<and> \<not> contains_str (drop k s) '']''
              then host else []))"

text \<open>Which local address the dialer binds: none, or the one the listening host denotes.\<close>

datatype local_bind = AnyLocal | BindHost string

record port_websocket =
  pw_cfg :: client_cfg
  pw_bind :: local_bind
  pw_url :: string
  pw_headers :: http_header

definition Port_NewWebsocket :: "client_cfg \<Rightarrow> tunnel_cfg \<Rightarrow> port_websocket" where
  "Port_NewWebsocket config tunnel =
     \<lparr>pw_cfg = config,
      pw_bind =
        (if \<not> contains_str (tn_Listen tunnel) ''0.0.0.0'' \<and> \<not> contains_str (tn_Listen tunnel) ''127.0.0.1''
         then BindHost (split_host (tn_Listen tunnel)) else AnyLocal),
      pw_url = getScheme config @ ''://'' @ tn_Url tunnel,
      pw_headers = [''Host'' \<mapsto> url_host (tn_Url tunnel), ''User-Agent'' \<mapsto> ''DEV'',
                    ''Forward-Dest'' \<mapsto> tn_Remote tunnel, ''Forward-Proto'' \<mapsto> tn_Protocol tunnel]\<rparr>"

definition port_dial_target :: "port_websocket \<Rightarrow> string \<Rightarrow> string" where
  "port_dial_target w addr = (if cc_CdnIp (pw_cfg w) \<noteq> [] then getAddress (pw_cfg w) else addr)"

definition createWebsocketStream :: "'c ws_library \<Rightarrow> port_websocket \<Rightarrow> (go_error + 'c) \<times> string list" where
  "createWebsocketStream lib w =
     (case lib (pw_url w) (pw_headers w) of
        Inl e \<Rightarrow> (Inl e, [''dial failed''])
      | Inr c \<Rightarrow> (Inr c, []))"

section \<open>Properties\<close>

lemma tunnel_defaults_props:
  "tn_Protocol (tunnel_defaults url t) = ''tcp'' \<or> tn_Protocol (tunnel_defaults url t) = ''udp''"
  "tn_Url (tunnel_defaults url t) = (if tn_Url t = [] then url else tn_Url t)"
  "tn_Listen (tunnel_defaults url t) = tn_Listen t"
  "tn_Remote (tunnel_defaults url t) = tn_Remote t"
  by (auto simp: tunnel_defaults_def Let_def)

lemma run_tunnels_all:
  "run_tunnels url (map Some ts) =
     (map (tunnel_action \<circ> tunnel_defaults url) ts, map (Some \<circ> tunnel_defaults url) ts, False)"
  by (induction ts) simp_all

text \<open>
  \<open>Run\<close> starts the TUN device, if enabled, and then every tunnel exactly once and in order, each
  over the protocol it names (TCP when it names none that is known) and with the global URL
  where it had none. A device that does not come up is the last thing that was tried.
\<close>

lemma run_starts_all:
  "(\<exists>cmds. device_result tun_run c = TunConfigured cmds) \<Longrightarrow>
   \<exists>c'. Config_Run tun_run (c\<lparr>cc_Tunnels := map Some ts\<rparr>) =
     ((case cc_Tun c of Some t \<Rightarrow> if tu_Enable t then [RunTun t (tun_params c)] else [] | None \<Rightarrow> []) @
      map (\<lambda>t. let t' = t\<lparr>tn_Url := (if tn_Url t = [] then cc_GlobalUrl c else tn_Url t)\<rparr> in
         if tn_Protocol t = ''udp'' then RunUdp t' else RunTcp (t'\<lparr>tn_Protocol := ''tcp''\<rparr>)) ts,
      c', ClientRuns)"
proof -
  assume "\<exists>cmds. device_result tun_run c = TunConfigured cmds"
  moreover have "device_result tun_run (c\<lparr>cc_Tunnels := map Some ts\<rparr>) = device_result tun_run c"
    by (simp add: device_result_def tun_params_def getScheme_def getPort_def getPoolSize_def split: option.split)
  moreover have "tunnel_action (tunnel_defaults u t) =
      (let t' = t\<lparr>tn_Url := (if tn_Url t = [] then u else tn_Url t)\<rparr> in
       if tn_Protocol t = ''udp'' then RunUdp t' else RunTcp (t'\<lparr>tn_Protocol := ''tcp''\<rparr>))" for u t
    by (cases t) (auto simp: tunnel_action_def tunnel_defaults_def Let_def)
  ultimately show ?thesis
    by (auto simp: Config_Run_def run_tunnels_all tun_params_def getScheme_def getPort_def
        getPoolSize_def Let_def comp_def split: option.split)
qed

text \<open>
  With a CDN address that has neither brackets nor a zone, the port-forwarding client and the TUN
  transport connect to the same address, which is \<open>JoinHostPort\<close>'s; for an IPv6 address
  already in brackets only the port-forwarding client gets it right.
\<close>

theorem cdn_address_agrees:
  "(CHR ''['' \<notin> set (cc_CdnIp c) \<and> CHR ''%'' \<notin> set (cc_CdnIp c) \<longrightarrow>
      getAddress c = join_host_port (cc_CdnIp c) (itoa_int (getPort c))) \<and>
   (\<forall>w :: unit websocket. NewWebsocket (tun_params c) = Some w \<longrightarrow>
      ws_Address w = join_host_port (cc_CdnIp c) (itoa_int (getPort c))) \<and>
   (\<forall>ip. cc_CdnIp c = ''['' @ ip @ '']'' \<and> CHR '':'' \<in> set ip \<longrightarrow>
      getAddress c = ''['' @ ip @ '']:'' @ itoa_int (getPort c) \<and>
      join_host_port (cc_CdnIp c) (itoa_int (getPort c)) = ''[['' @ ip @ '']]:'' @ itoa_int (getPort c))"
  by (auto simp: getAddress_def join_host_port_def contains_char NewWebsocket_def tun_params_def
      Let_def split: if_splits)

definition demo_cfg :: client_cfg where
  "demo_cfg = \<lparr>cc_CdnIp = ''2606::1'', cc_CdnPort = 0, cc_PoolSize = 0, cc_GlobalUrl = ''a.b/p'',
     cc_Scheme = [], cc_Tunnels = [], cc_Tun = None\<rparr>"

theorem cdn_address_agrees_witness:
  "getAddress demo_cfg = join_host_port ''2606::1'' (itoa_int 443)"
proof -
  have "cc_CdnIp demo_cfg = ''2606::1''" "getPort demo_cfg = 443"
    by (simp_all add: demo_cfg_def getPort_def)
  then show ?thesis using cdn_address_agrees [of demo_cfg] by simp
qed

end
