(* ===== verification/ClientTcp.thy ===== *)
theory ClientTcp
  imports Duplex WsConn ClientConfig
begin

text \<open>
  \<open>src/client/tcp.go\<close>: a forwarded TCP port. Every accepted connection gets a websocket and two loops,
  which share the flag \<open>closed\<close>. The pair is an instance of the duplex of theory \<open>Duplex\<close>, with the local
  connection as \<open>a\<close> and the websocket as \<open>b\<close>.
\<close>

section \<open>Model\<close>

definition defaultBufferSize :: nat where "defaultBufferSize = 16 * 4096"

type_synonym tcp_connector = "(os_conn, gorilla_conn) duplex"

text \<open>\<open>safeWrite\<close> serialises the writers; there is one.\<close>

definition safeWrite :: "gorilla_conn writer" where
  "safeWrite b c = GorillaConn_Write b c"

definition handleUpstream_round :: "(gorilla_conn, os_conn) iteration" where
  "handleUpstream_round closed ws conn = relay_iter safeWrite sock_read defaultBufferSize closed ws conn"

text \<open>\<open>Close\<close> sets the flag; the loops run it and close their destination when they return.\<close>

definition TcpConnector_Close :: "tcp_connector \<Rightarrow> tcp_connector" where
  "TcpConnector_Close t = t\<lparr>dx_stop := True\<rparr>"

definition handleUpstream_end :: "tcp_connector \<Rightarrow> tcp_connector" where
  "handleUpstream_end t = (TcpConnector_Close t)\<lparr>dx_b := GorillaConn_Close (dx_b t)\<rparr>"

definition handleDownstream_round :: "(os_conn, gorilla_conn) iteration" where
  "handleDownstream_round closed conn ws = relay_iter sock_write GorillaConn_Read defaultBufferSize closed conn ws"

definition handleDownstream_end :: "tcp_connector \<Rightarrow> tcp_connector" where
  "handleDownstream_end t = (TcpConnector_Close t)\<lparr>dx_a := os_close (dx_a t)\<rparr>"

abbreviation tcp_step :: "tcp_connector \<Rightarrow> tcp_connector \<Rightarrow> bool" where
  "tcp_step \<equiv> duplex_step handleUpstream_round handleDownstream_round handleUpstream_end handleDownstream_end"

text \<open>\<open>handle\<close> starts the two loops.\<close>

definition TcpConnector_handle :: "os_conn \<Rightarrow> gorilla_conn \<Rightarrow> tcp_connector" where
  "TcpConnector_handle conn wsConn = duplex_start conn wsConn"

text \<open>\<open>handleTcp\<close>: the connection is closed when no websocket can be had.\<close>

definition handleTcp :: "gorilla_conn ws_library \<Rightarrow> port_websocket \<Rightarrow> os_conn \<Rightarrow> os_conn + tcp_connector" where
  "handleTcp lib ws conn =
     (case fst (createWebsocketStream lib ws) of
        Inl e \<Rightarrow> Inl (os_close conn)
      | Inr wsConn \<Rightarrow> Inr (TcpConnector_handle conn wsConn))"

text \<open>
  \<open>TcpListen\<close> over the results of \<open>Listen\<close> and of the successive \<open>Accept\<close>s: the connections handed to
  \<open>handleTcp\<close>, and whether it returned. (The send to \<open>errChan\<close> never finds a receiver.)
\<close>

fun accept_loop :: "(go_error + 'c) list \<Rightarrow> 'c list \<times> bool" where
  "accept_loop [] = ([], False)"
| "accept_loop (Inl e # rs) = ([], True)"
| "accept_loop (Inr c # rs) = (case accept_loop rs of (cs, r) \<Rightarrow> (c # cs, r))"

definition TcpListen :: "go_error option \<Rightarrow> (go_error + 'c) list \<Rightarrow> 'c list \<times> bool" where
  "TcpListen listen_err accepts =
     (case listen_err of Some e \<Rightarrow> ([], True) | None \<Rightarrow> accept_loop accepts)"

section \<open>The connector as a duplex\<close>

interpretation tcp_up:
  conn_pair sock_read "\<lambda>c. if oc_closed c then [] else os_pending c" os_work "\<lambda>n c. 0 < n \<and> \<not> oc_closed c"
    GorillaConn_Write gorilla_sent "\<lambda>_. True" "\<lambda>c. g_wr c = []"
  ..

interpretation tcp_down:
  conn_pair GorillaConn_Read gorilla_pending gorilla_work "\<lambda>n _. 0 < n"
    sock_write oc_out "\<lambda>_. True" "\<lambda>c. \<not> oc_closed c \<and> oc_wr c = []"
  ..

lemma iter_blocked:
  assumes "relay_iter wr rd n st dst src = (Some LoopBlocked, dst', src')"
  shows "\<exists>s. rd n src = (ReadBlock, s)"
  using assms by (auto simp: relay_iter_def split: if_splits prod.splits read_result.splits option.splits)

lemma iter_reads:
  assumes "relay_iter wr rd n st dst src = (q, dst', src')"
  shows "(dst' = dst \<and> src' = src) \<or> (\<exists>r. rd n src = (r, src') \<and> (dst' = dst \<or> (\<exists>p r. wr p dst = (r, dst'))))"
  using assms by (auto simp: relay_iter_def split: if_splits prod.splits read_result.splits option.splits)

lemma iter_closed_source:
  assumes "oc_closed src" "relay_iter wr sock_read n st dst src = (q, dst', src')"
  shows "dst' = dst \<and> q \<noteq> None \<and> q \<noteq> Some LoopBlocked"
  using assms by (auto simp: relay_iter_def sock_read_def split: if_splits)

lemma gorilla_read_frame: "GorillaConn_Read n c = (r, c') \<Longrightarrow> gorilla_sent c' = gorilla_sent c \<and> g_closed c' = g_closed c"
  using gorilla_read_cases [of c n] by (auto simp: gorilla_sent_def)

lemma gorilla_write_frame: "GorillaConn_Write p c = (r, c') \<Longrightarrow>
    gorilla_pending c' = gorilla_pending c \<and> g_closed c' = g_closed c"
  using gorilla_write_cases [of p c] by (auto simp: gorilla_pending_def)

lemma up_defs: "handleUpstream_round st w c = relay_iter GorillaConn_Write sock_read defaultBufferSize st w c"
  by (simp add: handleUpstream_round_def safeWrite_def [abs_def])

lemma buffer_pos [simp]: "0 < defaultBufferSize"
  by (simp add: defaultBufferSize_def)

interpretation upstream:
  direction handleUpstream_round oc_out os_pending "\<lambda>_. True" "\<lambda>_. True" gorilla_sent gorilla_pending "\<lambda>_. True" "\<lambda>_. True"
proof unfold_locales
  fix st b a b' a'
  assume i: "handleUpstream_round st b a = (None, b', a')"
  then have "\<not> oc_closed a" using iter_closed_source [OF _ i [unfolded up_defs]] by blast
  moreover from this have "\<not> oc_closed a'"
    using iter_reads [OF i [unfolded up_defs]] sock_read_frame [of defaultBufferSize a] by auto
  ultimately show "\<exists>d. gorilla_sent b' = gorilla_sent b @ d \<and> os_pending a = d @ os_pending a' \<and> True"
    using tcp_up.iter_continue [OF _ _ i [unfolded up_defs]] by auto
next
  fix st b a r b' a'
  assume i: "handleUpstream_round st b a = (Some r, b', a')"
  show "\<exists>d rest. gorilla_sent b' = gorilla_sent b @ d \<and> os_pending a = d @ rest"
  proof (cases "oc_closed a")
    case True
    with iter_closed_source [OF True i [unfolded up_defs]] show ?thesis by simp
  next
    case False
    with tcp_up.iter_stop [OF _ _ i [unfolded up_defs]] show ?thesis by simp
  qed
next
  fix st b a b' a'
  assume i: "handleUpstream_round st b a = (Some LoopBlocked, b', a')"
  then have "\<not> oc_closed a" using iter_closed_source [OF _ i [unfolded up_defs]] by blast
  with iter_blocked [OF i [unfolded up_defs]] sock_reader.read_block show "os_pending a = []"
    by fastforce
next
  fix st b a q b' a'
  assume i: "handleUpstream_round st b a = (q, b', a')"
  from iter_reads [OF i [unfolded up_defs]]
  show "oc_out a' = oc_out a \<and> True = True \<and> gorilla_pending b' = gorilla_pending b \<and>
      (True \<longrightarrow> True) \<and> True = True"
    by (auto dest: sock_read_frame gorilla_write_frame)
qed

interpretation downstream:
  direction handleDownstream_round gorilla_sent gorilla_pending "\<lambda>_. True" "\<lambda>_. True" oc_out os_pending "\<lambda>_. True" "\<lambda>_. True"
proof unfold_locales
  fix st a b a' b'
  assume i: "handleDownstream_round st a b = (None, a', b')"
  from tcp_down.iter_continue [OF _ _ i [unfolded handleDownstream_round_def]]
  show "\<exists>d. oc_out a' = oc_out a @ d \<and> gorilla_pending b = d @ gorilla_pending b' \<and> True" by simp
next
  fix st a b r a' b'
  assume i: "handleDownstream_round st a b = (Some r, a', b')"
  from tcp_down.iter_stop [OF _ _ i [unfolded handleDownstream_round_def]]
  show "\<exists>d rest. oc_out a' = oc_out a @ d \<and> gorilla_pending b = d @ rest" by simp
next
  fix st a b a' b'
  assume "handleDownstream_round st a b = (Some LoopBlocked, a', b')"
  from iter_blocked [OF this [unfolded handleDownstream_round_def]] gorilla_reader.read_block
  show "gorilla_pending b = []" by blast
next
  fix st a b q a' b'
  assume i: "handleDownstream_round st a b = (q, a', b')"
  from iter_reads [OF i [unfolded handleDownstream_round_def]]
  show "gorilla_sent b' = gorilla_sent b \<and> True = True \<and> os_pending a' = os_pending a \<and>
      (True \<longrightarrow> True) \<and> True = True"
    by (auto simp: os_pending_def dest: sock_write_frame gorilla_read_frame)
qed

interpretation tcp_duplex:
  duplex_laws handleUpstream_round handleDownstream_round handleUpstream_end handleDownstream_end
    oc_out os_pending "\<lambda>_. True" "\<lambda>_. True" gorilla_sent gorilla_pending "\<lambda>_. True" "\<lambda>_. True"
  by unfold_locales
    (simp_all add: handleUpstream_end_def handleDownstream_end_def TcpConnector_Close_def GorillaConn_Close_def os_close_def
    gorilla_sent_def gorilla_pending_def os_pending_def)

text \<open>What a stopped loop leaves behind.\<close>

definition tcp_closed_inv :: "tcp_connector \<Rightarrow> bool" where
  "tcp_closed_inv t \<longleftrightarrow>
     (\<not> dx_ab t \<longrightarrow> dx_stop t \<and> g_closed (dx_b t)) \<and> (\<not> dx_ba t \<longrightarrow> dx_stop t \<and> oc_closed (dx_a t))"

lemma tcp_closed_step:
  assumes "tcp_closed_inv t" "tcp_step t t'"
  shows "tcp_closed_inv t'"
  using assms(2)
proof cases
  case (ab_go b a)
  from iter_reads [OF ab_go(3) [unfolded up_defs]] assms(1) ab_go(1) show ?thesis
    by (auto simp: tcp_closed_inv_def dest: sock_read_frame gorilla_write_frame)
next
  case (ab_end e b a)
  from iter_reads [OF ab_end(3) [unfolded up_defs]] assms(1) ab_end(1) show ?thesis
    by (auto simp: tcp_closed_inv_def handleUpstream_end_def TcpConnector_Close_def GorillaConn_Close_def dest: sock_read_frame)
next
  case (ba_go a b)
  from iter_reads [OF ba_go(3) [unfolded handleDownstream_round_def]] assms(1) ba_go(1) show ?thesis
    by (auto simp: tcp_closed_inv_def dest: sock_write_frame gorilla_read_frame)
next
  case (ba_end e a b)
  from iter_reads [OF ba_end(3) [unfolded handleDownstream_round_def]] assms(1) ba_end(1) show ?thesis
    by (auto simp: tcp_closed_inv_def handleDownstream_end_def TcpConnector_Close_def os_close_def dest: gorilla_read_frame)
qed

interpretation tcp_closing:
  invariant_system "\<lambda>t. \<exists>a b. t = duplex_start a b" tcp_step tcp_closed_inv
proof unfold_locales
  show "tcp_closed_inv t" if "\<exists>a b. t = duplex_start a b" for t
    using that by (auto simp: tcp_closed_inv_def duplex_start_def)
qed (rule tcp_closed_step)

section \<open>Properties\<close>

text \<open>
  C25. A forwarded TCP connection, however its two loops interleave: the websocket carries a prefix of
  the local bytes and the local side receives a prefix of the websocket's bytes; a running loop that
  waits for input has delivered everything that came; and a loop that ended has raised the
  flag that stops the other and closed the connection it wrote to.
\<close>

theorem tcp_connector_correct:
  assumes "tcp_step\<^sup>*\<^sup>* (duplex_start conn ws) t"
  shows "(\<exists>rest. gorilla_sent (dx_b t) @ rest = gorilla_sent ws @ os_pending conn) \<and>
    (\<exists>rest. oc_out (dx_a t) @ rest = oc_out conn @ gorilla_pending ws) \<and>
    (dx_ab t \<and> (\<exists>b a. handleUpstream_round (dx_stop t) (dx_b t) (dx_a t) = (Some LoopBlocked, b, a)) \<longrightarrow>
      gorilla_sent (dx_b t) = gorilla_sent ws @ os_pending conn) \<and>
    (dx_ba t \<and> (\<exists>a b. handleDownstream_round (dx_stop t) (dx_a t) (dx_b t) = (Some LoopBlocked, a, b)) \<longrightarrow>
      oc_out (dx_a t) = oc_out conn @ gorilla_pending ws) \<and>
    (\<not> dx_ab t \<longrightarrow> dx_stop t \<and> g_closed (dx_b t)) \<and> (\<not> dx_ba t \<longrightarrow> dx_stop t \<and> oc_closed (dx_a t))"
  using tcp_duplex.duplex_safe(1,2) [OF assms] tcp_duplex.duplex_delivered [OF assms]
    tcp_closing.reachable_inv [OF _ assms]
  by (auto simp: tcp_closed_inv_def)

definition demo_local :: os_conn where "demo_local = os_open [InData [1, 2]] []"
definition demo_ws :: gorilla_conn where "demo_ws = gorilla_open [] []"

lemma demo_tcp_step:
  "tcp_step (duplex_start demo_local demo_ws)
     ((duplex_start demo_local demo_ws)\<lparr>dx_a := demo_local\<lparr>oc_in := []\<rparr>, dx_b := demo_ws\<lparr>g_msgs := [[1, 2]]\<rparr>\<rparr>)"
  by (rule duplex_step.ab_go)
    (simp_all add: duplex_start_def up_defs relay_iter_def sock_read_def os_read_def demo_local_def
      os_open_def defaultBufferSize_def GorillaConn_Write_def demo_ws_def gorilla_open_def)

theorem tcp_connector_correct_witness:
  "\<exists>t. tcp_step\<^sup>*\<^sup>* (duplex_start demo_local demo_ws) t \<and> g_msgs (dx_b t) = [[1, 2]] \<and>
     (\<exists>rest. gorilla_sent (dx_b t) @ rest = gorilla_sent demo_ws @ os_pending demo_local)"
  using tcp_connector_correct [OF r_into_rtranclp [of tcp_step, OF demo_tcp_step]] demo_tcp_step
  by (intro exI [of _ "(duplex_start demo_local demo_ws)\<lparr>dx_a := demo_local\<lparr>oc_in := []\<rparr>,
      dx_b := demo_ws\<lparr>g_msgs := [[1, 2]]\<rparr>\<rparr>"]) auto

end
