(* ===== verification/EndToEnd.thy ===== *)
theory EndToEnd
  imports Connection TunTunnel ClientTcp
begin

text \<open>
  Both ends together: a session's bytes, its destination and its header, from the TUN device's
  connection through the websocket to the destination's socket at the server.
\<close>

section \<open>The destination\<close>

lemma ip_string_as_slice:
  assumes "addr_is_valid a" "addr_zone a = []" "\<not> addr_is4in6 a"
  shows "ip_string (as_slice a) = addr_string a"
proof (cases a)
  case (Addr4 p q r s)
  then show ?thesis by (simp add: ip_string_def ip_to4_def)
next
  case (Addr6 p q r s t u v w z)
  then have "ip_to4 (as_slice a) = None" using as_slice_mapped_iff [of a] assms(3) by simp
  moreover have "length (as_slice a) = 16" using Addr6 by (simp add: put_uint16_def)
  moreover from this have "as_slice a \<noteq> []" by auto
  ultimately show ?thesis
    using addr_from_as_slice [OF assms(1,2)] by (simp add: ip_string_def)
qed (use assms in simp)

definition first_packet :: "metadata \<Rightarrow> bytes \<Rightarrow> packet" where
  "first_packet m p = \<lparr>pkt_IPVersion = md_IPVersion m, pkt_Protocol = md_Network m,
     pkt_DestIP = as_slice (md_DstIP m), pkt_DestPort = md_DstPort m, pkt_Payload = p\<rparr>"

lemma metadata_wf_lengths:
  assumes "metadata_wf m"
  shows "length (as_slice (md_DstIP m)) = 4 \<and> md_IPVersion m = 4 \<or>
    length (as_slice (md_DstIP m)) = 16 \<and> md_IPVersion m = 6"
  using assms by (cases "md_DstIP m") (auto simp: metadata_wf_def put_uint16_def)

lemma decode_first_message:
  assumes "metadata_wf m"
  shows "Decode (session_header m @ p) =
    (if 2 \<le> length p then Inr (first_packet m p) else Inl MissingPortFields)"
  using decode_append [OF metadata_wf_lengths [OF assms], of "md_Network m" "md_DstPort m" p]
  by (simp add: session_header_def first_packet_def)

lemma first_packet_address:
  assumes "metadata_wf m" "\<not> addr_is4in6 (md_DstIP m)"
  shows "address (first_packet m p) = DestinationAddress m"
proof -
  have v: "addr_is_valid (md_DstIP m)" "addr_zone (md_DstIP m) = []"
    "md_IPVersion m = (if addr_is4 (md_DstIP m) then 4 else 6)"
    using assms(1) by (simp_all add: metadata_wf_def)
  have "md_DstIP m \<noteq> AddrZero" using v(1) by auto
  with v(3) show ?thesis
    using ip_string_as_slice [OF v(1,2) assms(2)]
    by (simp add: address_def first_packet_def DestinationAddress_def DestinationAddrPort_def
        addr_port_string_def)
qed

lemma first_packet_protocol:
  "md_Network m \<in> {1, 6, 17} \<Longrightarrow> protocol (first_packet m p) = network_String (md_Network m)"
  by (auto simp: protocol_def first_packet_def network_String_def)

lemma session_metadata_wf:
  assumes "length (ti_LocalAddress i) = 4 \<or> length (ti_LocalAddress i) = 16"
  shows "metadata_wf (session_metadata n i)"
proof -
  have "snd (addr_from_slice (ti_LocalAddress i))" using assms by (simp add: addr_from_slice_ok_iff)
  then have "addr_from_slice (ti_LocalAddress i) = (parseTCPIPAddress (ti_LocalAddress i), True)"
    by (simp add: parseTCPIPAddress_def prod_eq_iff)
  from addr_from_slice_as_slice [OF this] show ?thesis
    by (simp add: metadata_wf_def session_metadata_def Let_def)
qed

section \<open>The messages of a session\<close>

fun write_many :: "'c writer \<Rightarrow> bytes list \<Rightarrow> 'c \<Rightarrow> 'c" where
  "write_many wr [] c = c"
| "write_many wr (p # ps) c = write_many wr ps (snd (wr p c))"

lemma write_many_later:
  assumes "ac_headerSent w" "g_wr (ac_Conn w) = []"
  shows "g_msgs (ac_Conn (write_many (argo_Write GorillaConn_Write) ps w)) = g_msgs (ac_Conn w) @ ps"
  using assms
  by (induction ps arbitrary: w) (simp_all add: argo_Write_def GorillaConn_Write_def)

text \<open>A fresh session on a pooled connection: the header goes out once, in front of the first chunk.\<close>

definition pooled_session :: "metadata \<Rightarrow> gorilla_conn \<Rightarrow> gorilla_conn argo_conn" where
  "pooled_session m c = the (argo_parseHeader m (new_argo_conn c))"

lemma pooled_session_msgs:
  assumes "addr_is_valid (md_DstIP m)" "g_wr c = []"
  shows "g_msgs (ac_Conn (write_many (argo_Write GorillaConn_Write) (p # ps) (pooled_session m c))) =
    g_msgs c @ (session_header m @ p) # ps"
proof -
  let ?w = "pooled_session m c"
  have w: "?w = \<lparr>ac_Conn = c, ac_header = session_header m, ac_hdrLen = length (session_header m),
      ac_headerSent = False\<rparr>"
    using parseHeader_valid [OF assms(1), of "new_argo_conn c"]
    by (simp add: pooled_session_def new_argo_conn_def)
  have a: "argo_addHeader (?w\<lparr>ac_headerSent := True\<rparr>) p = session_header m @ p"
    using addHeader_append [of "?w\<lparr>ac_headerSent := True\<rparr>" p] by (simp add: w)
  have "snd (argo_Write GorillaConn_Write p ?w) =
      ?w\<lparr>ac_headerSent := True, ac_Conn := c\<lparr>g_msgs := g_msgs c @ [session_header m @ p]\<rparr>\<rparr>"
    using a assms(2) by (simp add: argo_Write_def GorillaConn_Write_def Let_def w)
  then show ?thesis using assms(2) by (simp add: write_many_later)
qed

lemma session_header_length: "metadata_wf m \<Longrightarrow> length (session_header m) \<le> 20"
  using metadata_wf_lengths [of m] by (auto simp: session_header_def)

section \<open>The server's side\<close>

lemma setup_first_message:
  assumes m: "metadata_wf m" "\<not> addr_is4in6 (md_DstIP m)" "md_Network m \<in> {1, 6, 17}"
    and p: "2 \<le> length p" "length p + 20 \<le> relay_buf"
    and dial: "Proxy_Dial net_Dial px 0 (network_String (md_Network m)) (DestinationAddress m) = Some (Inr r)"
    and r: "\<not> oc_closed (rc_conn r)" "oc_wr (rc_conn r) = []"
  shows "handleConn_setup net_Dial px (ws_open (Inr (session_header m @ p) # es) ws) None =
    (SetupReady (r\<lparr>rc_conn := (rc_conn r)\<lparr>oc_out := oc_out (rc_conn r) @ p\<rparr>\<rparr>), ws_open es ws)"
proof -
  have t: "take relay_buf (session_header m @ p) = session_header m @ p"
    using session_header_length [OF m(1)] p(2) by simp
  have d: "fst (DialWithRetry net_Dial px (protocol (first_packet m p)) (address (first_packet m p)) 3) =
      Some (Inr r)"
    using dial first_packet_protocol [OF m(3)] first_packet_address [OF m(1,2)]
    by (simp add: DialWithRetry_def retry_loop.simps)
  have c: "Conn_Read relay_buf (ws_open (Inr (session_header m @ p) # es) ws) =
      (ReadRet (session_header m @ p) None, ws_open es ws)"
    by (simp add: Conn_Read_def ws_open_def t del: take_append)
  have "pkt_Payload (first_packet m p) = p" by (simp add: first_packet_def)
  with decode_first_message [OF m(1), of p] p(1) r d show ?thesis
    by (simp add: handleConn_setup_def c remote_write_def os_write_def)
qed

lemma ws_pending_all: "ws_pending (ws_open (map Inr ms) ws) = concat ms"
  by (induction ms) (simp_all add: ws_pending_def ws_open_def)

lemma ws_fits_all: "ws_fits n (ws_open (map Inr ms) ws) \<longleftrightarrow> (\<forall>m \<in> set ms. length m \<le> n)"
  by (auto simp: ws_fits_def ws_open_def)

lemma ws_relay_all:
  assumes "\<forall>q \<in> set ms. length q \<le> relay_buf" "\<not> oc_closed (rc_conn r)" "oc_wr (rc_conn r) = []"
    "length ms < fuel"
  shows "\<exists>res r' w'. relay remote_write Conn_Read relay_buf [] fuel r (ws_open (map Inr ms) ws) =
      Some (res, r', w') \<and> oc_out (rc_conn r') = oc_out (rc_conn r) @ concat ms"
proof -
  let ?w = "ws_open (map Inr ms) ws"
  have f: "ws_fits relay_buf ?w" using assms(1) by (simp add: ws_fits_all)
  have k: "ws_work ?w < fuel" using assms(4) by (simp add: ws_work_def ws_open_def)
  obtain res r' w' where x: "relay remote_write Conn_Read relay_buf [] fuel r ?w = Some (res, r', w')"
    using upward.relay_total [OF f k] by (metis prod.exhaust)
  from upward.relay_complete [OF f x] assms(2,3) relay_no_stop [OF x] have
    "oc_out (rc_conn r') = oc_out (rc_conn r) @ ws_pending ?w" by auto
  with x show ?thesis by (simp add: ws_pending_all)
qed

section \<open>Properties\<close>

text \<open>
  C4. One session, two ways to say where it goes. For a session of the device to a destination that
  is not an IPv4-mapped address: the first write on a pooled connection is one message, which
  the server parses into exactly the network, the address and the payload that the request
  headers carry when the connection is dialled for the session.
\<close>

theorem pooled_agrees_with_headers:
  assumes "length (ti_LocalAddress i) = 4 \<or> length (ti_LocalAddress i) = 16"
    and "\<not> addr_is4in6 (parseTCPIPAddress (ti_LocalAddress i))" and "n = 6 \<or> n = 17"
    and "g_wr c = []" and "g_msgs c = []" and "2 \<le> length p"
  shows "\<exists>msg pkt.
    g_msgs (ac_Conn (snd (argo_Write GorillaConn_Write p (pooled_session (session_metadata n i) c)))) = [msg] \<and>
    Decode msg = Inr pkt \<and> pkt_Payload pkt = p \<and>
    header ws (Some (session_metadata n i)) ''Forward-Proto'' = Some (protocol pkt) \<and>
    header ws (Some (session_metadata n i)) ''Forward-Dest'' = Some (address pkt)"
proof -
  let ?m = "session_metadata n i"
  have wf: "metadata_wf ?m" by (rule session_metadata_wf [OF assms(1)])
  have n4: "\<not> addr_is4in6 (md_DstIP ?m)" and net: "md_Network ?m \<in> {1, 6, 17}"
    using assms(2,3) by (auto simp: session_metadata_def Let_def)
  have v: "addr_is_valid (md_DstIP ?m)" using wf by (simp add: metadata_wf_def)
  from pooled_session_msgs [OF v assms(4), of p "[]"] assms(5)
  have "g_msgs (ac_Conn (snd (argo_Write GorillaConn_Write p (pooled_session ?m c)))) =
      [session_header ?m @ p]" by simp
  moreover have "Decode (session_header ?m @ p) = Inr (first_packet ?m p)"
    using decode_first_message [OF wf] assms(6) by simp
  moreover have "pkt_Payload (first_packet ?m p) = p" by (simp add: first_packet_def)
  ultimately show ?thesis
    using first_packet_address [OF wf n4, of p] first_packet_protocol [OF net, of p]
    by (intro exI [of _ "session_header ?m @ p"] exI [of _ "first_packet ?m p"])
      (simp add: header_def)
qed

theorem pooled_agrees_with_headers_witness:
  "\<exists>msg pkt.
    g_msgs (ac_Conn (snd (argo_Write GorillaConn_Write [7, 8] (pooled_session (session_metadata 6 demo_id)
      (gorilla_open [] []))))) = [msg] \<and>
    Decode msg = Inr pkt \<and> pkt_Payload pkt = [7, 8] \<and>
    header demo_pool (Some (session_metadata 6 demo_id)) ''Forward-Proto'' = Some (protocol pkt)"
proof -
  have "length (ti_LocalAddress demo_id) = 4 \<or> length (ti_LocalAddress demo_id) = 16"
    "\<not> addr_is4in6 (parseTCPIPAddress (ti_LocalAddress demo_id))"
    by (simp_all add: demo_id_def parseTCPIPAddress_def)
  from pooled_agrees_with_headers [OF this, of 6 "gorilla_open [] []" "[7, 8]" demo_pool] show ?thesis
    by (auto simp: gorilla_open_def)
qed

text \<open>
  C38. A first payload of fewer than two bytes is lost: the server rejects the message as having no
  port, although the port is there, and ends the session without dialling.
\<close>

theorem short_first_payload_rejected:
  assumes "metadata_wf m" and "length p < 2"
  shows "handleConn_setup net_Dial px (ws_open (Inr (session_header m @ p) # es) ws) None =
    (SetupEnded None, ws_open es ws)"
proof -
  have "length (session_header m @ p) \<le> relay_buf"
    using session_header_length [OF assms(1)] assms(2) by (simp add: relay_buf_def)
  then have "Conn_Read relay_buf (ws_open (Inr (session_header m @ p) # es) ws) =
      (ReadRet (session_header m @ p) None, ws_open es ws)"
    by (simp add: Conn_Read_def ws_open_def del: take_append)
  with decode_first_message [OF assms(1), of p] assms(2) show ?thesis
    by (simp add: handleConn_setup_def)
qed

theorem short_first_payload_rejected_witness:
  "handleConn_setup (\<lambda>_ _ _. Inl ErrEOF) demo_proxy
     (ws_open [Inr (session_header (session_metadata 6 demo_id) @ [7])] []) None =
   (SetupEnded None, ws_open [] [])"
  using short_first_payload_rejected [OF session_metadata_wf [of demo_id 6], of "[7]"]
  by (simp add: demo_id_def)

text \<open>
  C2. Upload, end to end. The client writes the chunks of a session to a pooled connection; the
  server gets the messages, dials the destination the session named and relays. If the first
  chunk has at least two bytes, every chunk leaves room for the header in the server's buffer, and
  the destination takes what it is given, then the destination receives exactly the chunks, in order.
\<close>

theorem upload_end_to_end:
  assumes "metadata_wf m" and "\<not> addr_is4in6 (md_DstIP m)" and "md_Network m \<in> {1, 6, 17}"
    and "g_wr c = []" and "g_msgs c = []"
    and "2 \<le> length p" and "\<forall>q \<in> set (p # ps). length q + 20 \<le> relay_buf"
    and "Proxy_Dial net_Dial px 0 (network_String (md_Network m)) (DestinationAddress m) = Some (Inr r)"
    and "\<not> oc_closed (rc_conn r)" and "oc_wr (rc_conn r) = []"
    and "length ps < fuel"
    and "msgs = g_msgs (ac_Conn (write_many (argo_Write GorillaConn_Write) (p # ps) (pooled_session m c)))"
  shows "\<exists>r1 w1 res r2 w2.
    handleConn_setup net_Dial px (ws_open (map Inr msgs) []) None = (SetupReady r1, w1) \<and>
    relay remote_write Conn_Read relay_buf [] fuel r1 w1 = Some (res, r2, w2) \<and>
    oc_out (rc_conn r2) = oc_out (rc_conn r) @ p @ concat ps"
proof -
  have "addr_is_valid (md_DstIP m)" using assms(1) by (simp add: metadata_wf_def)
  then have msgs: "msgs = (session_header m @ p) # ps"
    using pooled_session_msgs assms(4,5,12) by simp
  let ?r1 = "r\<lparr>rc_conn := (rc_conn r)\<lparr>oc_out := oc_out (rc_conn r) @ p\<rparr>\<rparr>"
  have s: "handleConn_setup net_Dial px (ws_open (map Inr msgs) []) None =
      (SetupReady ?r1, ws_open (map Inr ps) [])"
    using setup_first_message [OF assms(1-3,6) _ assms(8-10), of "map Inr ps" "[]"] assms(7) msgs by simp
  have "\<forall>q \<in> set ps. length q \<le> relay_buf" using assms(7) by auto
  from ws_relay_all [OF this, of ?r1 fuel "[]"] assms(9-11) s show ?thesis by auto
qed

lemma demo_dest: "DestinationAddress (session_metadata 6 demo_id) \<noteq> []"
  by (simp add: DestinationAddress_def DestinationAddrPort_def addr_port_string_def)

definition demo_direct :: "remote_conn proxy" where
  "demo_direct = \<lparr>px_DialFunc = (\<lambda>_ _ _. Inr demo_remote), px_Proxy4 = True, px_Proxy6 = True\<rparr>"

theorem upload_end_to_end_witness:
  "\<exists>r1 w1 res r2 w2.
    handleConn_setup (\<lambda>_ _ _. Inl ErrEOF) demo_direct (ws_open (map Inr (g_msgs (ac_Conn (write_many
      (argo_Write GorillaConn_Write) [[7, 8], [9]] (pooled_session (session_metadata 6 demo_id)
        (gorilla_open [] [])))))) []) None = (SetupReady r1, w1) \<and>
    relay remote_write Conn_Read relay_buf [] 2 r1 w1 = Some (res, r2, w2) \<and>
    oc_out (rc_conn r2) = [7, 8, 9]"
proof -
  let ?m = "session_metadata 6 demo_id"
  have 1: "metadata_wf ?m" by (rule session_metadata_wf) (simp add: demo_id_def)
  have 2: "\<not> addr_is4in6 (md_DstIP ?m)" "md_Network ?m \<in> {1, 6, 17}"
    by (simp_all add: session_metadata_def demo_id_def parseTCPIPAddress_def Let_def)
  have 3: "Proxy_Dial (\<lambda>_ _ _. Inl ErrEOF) demo_direct 0 (network_String (md_Network ?m))
      (DestinationAddress ?m) = Some (Inr demo_remote)"
    using demo_dest by (cases "DestinationAddress ?m") (simp_all add: Proxy_Dial_def demo_direct_def Let_def)
  have 4: "\<not> oc_closed (rc_conn demo_remote)" "oc_wr (rc_conn demo_remote) = []"
    "oc_out (rc_conn demo_remote) = []"
    by (simp_all add: demo_remote_def os_open_def)
  show ?thesis
    using upload_end_to_end [OF 1 2 _ _ _ _ 3 4(1,2), of "gorilla_open [] []" "[7, 8]" "[[9]]" 2]
    by (simp add: gorilla_open_def relay_buf_def 4(3))
qed

text \<open>
  C39. The two ends disagree on the size of a message: the port-forwarding client reads up to 64 KiB at
  a time and sends it as one message; of a message longer than 32 KiB the server relays the first
  32 KiB and drops the rest without an error.
\<close>

theorem large_message_truncated:
  assumes "relay_buf < length d" and "length d \<le> defaultBufferSize"
    and "\<not> oc_closed conn" and "oc_in conn = InData d # es" and "g_wr ws = []"
    and "\<not> oc_closed (rc_conn r)" and "oc_wr (rc_conn r) = []"
  shows "\<exists>ws' conn'. handleUpstream_round False ws conn = (None, ws', conn') \<and>
      g_msgs ws' = g_msgs ws @ [d] \<and>
    (\<exists>r' w'. relay_iter remote_write Conn_Read relay_buf False r (ws_open [Inr d] []) = (None, r', w') \<and>
      oc_out (rc_conn r') = oc_out (rc_conn r) @ take relay_buf d \<and> ws_pending w' = [])"
  using assms
  by (auto simp: up_defs relay_iter_def sock_read_def os_read_def GorillaConn_Write_def
      Conn_Read_def ws_open_def remote_write_def os_write_def ws_pending_def)

theorem large_message_truncated_witness:
  "\<exists>r' w'. relay_iter remote_write Conn_Read relay_buf False demo_remote
      (ws_open [Inr (replicate 40000 1)] []) = (None, r', w') \<and>
    oc_out (rc_conn r') = replicate 32768 1 \<and> ws_pending w' = []"
  using large_message_truncated [of "replicate 40000 1" "os_open [InData (replicate 40000 1)] []" "[]"
      "gorilla_open [] []" demo_remote]
  by (auto simp: relay_buf_def defaultBufferSize_def os_open_def gorilla_open_def demo_remote_def)

end
