(* ===== verification/NetSession.thy ===== *)
theory NetSession
  imports EndToEnd
begin

text \<open>
  A whole session, from the application behind the TUN device to the destination and back: the
  client's \<open>pipe\<close> over a connection of the pool, the network, and the server's stream handler with
  its two relay loops run side by side. Each step of either end, each message that crosses the
  network and each event of the two outer peers is a step of its own, in any order.
\<close>

section \<open>Model\<close>

text \<open>
  The server's handler: before the first message, between its two loops, or returned. The last
  state keeps a remote connection that was dialled and then left behind.
\<close>

datatype server_phase =
    Waiting ws_conn
  | Serving session
  | Gone ws_conn "remote_conn option"

fun server_ws :: "server_phase \<Rightarrow> ws_conn" where
  "server_ws (Waiting w) = w"
| "server_ws (Serving sn) = sn_ws sn"
| "server_ws (Gone w r) = w"

fun map_ws :: "(ws_conn \<Rightarrow> ws_conn) \<Rightarrow> server_phase \<Rightarrow> server_phase" where
  "map_ws f (Waiting w) = Waiting (f w)"
| "map_ws f (Serving sn) = Serving (sn\<lparr>sn_ws := f (sn_ws sn)\<rparr>)"
| "map_ws f (Gone w r) = Gone (f w) r"

text \<open>
  The state of both ends. \<open>ns_up\<close> and \<open>ns_down\<close> count the client's messages and the server's frames that
  have crossed the network; \<open>ns_dev\<close> and \<open>ns_dest\<close> record what the application and the destination have
  sent.
\<close>

record net_session =
  ns_pipe :: tun_pipe
  ns_server :: server_phase
  ns_up :: nat
  ns_down :: nat
  ns_dev :: bytes
  ns_dest :: bytes

fun proxied_msgs :: "proxied_conn \<Rightarrow> bytes list" where
  "proxied_msgs (Plain c) = g_msgs c"
| "proxied_msgs (Wrapped w) = g_msgs (ac_Conn w)"

fun proxied_in :: "proxied_conn \<Rightarrow> (go_error + bytes) list" where
  "proxied_in (Plain c) = g_in c"
| "proxied_in (Wrapped w) = g_in (ac_Conn w)"

text \<open>What the network and the peers add to the connections' scripts.\<close>

fun proxied_arrive :: "go_error + bytes \<Rightarrow> proxied_conn \<Rightarrow> proxied_conn" where
  "proxied_arrive x (Plain c) = Plain (c\<lparr>g_in := g_in c @ [x]\<rparr>)"
| "proxied_arrive x (Wrapped w) = Wrapped (w\<lparr>ac_Conn := (ac_Conn w)\<lparr>g_in := g_in (ac_Conn w) @ [x]\<rparr>\<rparr>)"

definition ws_arrive :: "go_error + bytes \<Rightarrow> ws_conn \<Rightarrow> ws_conn" where
  "ws_arrive x w = w\<lparr>wc_in := wc_in w @ [x]\<rparr>"

text \<open>A control frame of the client's side, with what the server's library will answer.\<close>

definition ws_control :: "bytes list \<Rightarrow> ws_conn \<Rightarrow> ws_conn" where
  "ws_control rs w = w\<lparr>wc_answers := wc_answers w @ [rs]\<rparr>"

definition origin_arrive :: "read_event \<Rightarrow> origin_conn \<Rightarrow> origin_conn" where
  "origin_arrive x o1 = o1\<lparr>or_conn := (or_conn o1)\<lparr>oc_in := oc_in (or_conn o1) @ [x]\<rparr>\<rparr>"

definition remote_arrive :: "read_event \<Rightarrow> remote_conn \<Rightarrow> remote_conn" where
  "remote_arrive x r = r\<lparr>rc_conn := (rc_conn r)\<lparr>oc_in := oc_in (rc_conn r) @ [x]\<rparr>\<rparr>"

definition msg_failed :: "(go_error + bytes) list \<Rightarrow> bool" where
  "msg_failed xs = list_ex isl xs"

definition read_failed :: "read_event list \<Rightarrow> bool" where
  "read_failed xs = list_ex (\<lambda>x. case x of InErr e \<Rightarrow> True | InData d \<Rightarrow> False) xs"

abbreviation dest_size_ok :: "remote_conn \<Rightarrow> bytes \<Rightarrow> bool" where
  "dest_size_ok r d \<equiv> rc_udp r \<noteq> None \<longrightarrow> length d \<le> relay_buf"

text \<open>
  The steps. A connection that has failed delivers nothing further; a UDP peer's datagrams fit the buffer
  that reads them. \<open>n\<close> and \<open>k\<close> are the sizes of the client's two buffers. Control frames of either
  direction carry no data: a ping of the server is passed over by the client's library, and what the
  server's library answers to the client's ends there too.
\<close>

inductive net_step :: "nat \<Rightarrow> nat \<Rightarrow> remote_conn dialer \<Rightarrow> remote_conn proxy \<Rightarrow> net_session
    \<Rightarrow> net_session \<Rightarrow> bool" for n k net_Dial px where
  client: "pipe_step n k (ns_pipe s) d \<Longrightarrow> net_step n k net_Dial px s (s\<lparr>ns_pipe := d\<rparr>)"
| device_sends: "\<not> read_failed (oc_in (or_conn (dx_a (ns_pipe s)))) \<Longrightarrow>
    (or_udp (dx_a (ns_pipe s)) \<longrightarrow> length d \<le> n) \<Longrightarrow>
    net_step n k net_Dial px s (s\<lparr>ns_dev := ns_dev s @ d,
      ns_pipe := (ns_pipe s)\<lparr>dx_a := origin_arrive (InData d) (dx_a (ns_pipe s))\<rparr>\<rparr>)"
| device_fails: "net_step n k net_Dial px s
    (s\<lparr>ns_pipe := (ns_pipe s)\<lparr>dx_a := origin_arrive (InErr e) (dx_a (ns_pipe s))\<rparr>\<rparr>)"
| uplink: "ns_up s < length (proxied_msgs (dx_b (ns_pipe s))) \<Longrightarrow>
    \<not> msg_failed (wc_in (server_ws (ns_server s))) \<Longrightarrow>
    net_step n k net_Dial px s (s\<lparr>ns_up := ns_up s + 1,
      ns_server := map_ws (ws_arrive (Inr (proxied_msgs (dx_b (ns_pipe s)) ! ns_up s))) (ns_server s)\<rparr>)"
| uplink_fails: "\<not> msg_failed (wc_in (server_ws (ns_server s))) \<Longrightarrow>
    net_step n k net_Dial px s (s\<lparr>ns_server := map_ws (ws_arrive (Inl e)) (ns_server s)\<rparr>)"
| uplink_control: "net_step n k net_Dial px s (s\<lparr>ns_server := map_ws (ws_control rs) (ns_server s)\<rparr>)"
| downlink: "ns_down s < length (wc_frames (server_ws (ns_server s))) \<Longrightarrow>
    wc_frames (server_ws (ns_server s)) ! ns_down s = FrameBinary p \<Longrightarrow>
    \<not> msg_failed (proxied_in (dx_b (ns_pipe s))) \<Longrightarrow>
    net_step n k net_Dial px s (s\<lparr>ns_down := ns_down s + 1,
      ns_pipe := (ns_pipe s)\<lparr>dx_b := proxied_arrive (Inr p) (dx_b (ns_pipe s))\<rparr>\<rparr>)"
| downlink_ping: "ns_down s < length (wc_frames (server_ws (ns_server s))) \<Longrightarrow>
    wc_frames (server_ws (ns_server s)) ! ns_down s = FramePing \<Longrightarrow>
    net_step n k net_Dial px s (s\<lparr>ns_down := ns_down s + 1\<rparr>)"
| downlink_fails: "net_step n k net_Dial px s
    (s\<lparr>ns_pipe := (ns_pipe s)\<lparr>dx_b := proxied_arrive (Inl e) (dx_b (ns_pipe s))\<rparr>\<rparr>)"
| server_ping: "ns_server s = Waiting w \<Longrightarrow>
    net_step n k net_Dial px s (s\<lparr>ns_server := Waiting (snd (Conn_ping w))\<rparr>)"
| server_control: "ns_server s = Waiting w \<Longrightarrow>
    net_step n k net_Dial px s (s\<lparr>ns_server := Waiting (snd (handle_control w))\<rparr>)"
| server_answer: "ns_server s = Waiting w \<Longrightarrow>
    net_step n k net_Dial px s (s\<lparr>ns_server := Waiting (answer_control w)\<rparr>)"
| server_ready: "ns_server s = Waiting w \<Longrightarrow>
    handleConn_setup net_Dial px w None = (SetupReady r, w') \<Longrightarrow>
    net_step n k net_Dial px s (s\<lparr>ns_server := Serving (start_session w' r)\<rparr>)"
| server_ended: "ns_server s = Waiting w \<Longrightarrow>
    handleConn_setup net_Dial px w None = (SetupEnded r, w') \<Longrightarrow>
    net_step n k net_Dial px s (s\<lparr>ns_server := Gone (Conn_Close w') r\<rparr>)"
| server: "ns_server s = Serving sn \<Longrightarrow> session_step sn sn' \<Longrightarrow>
    net_step n k net_Dial px s (s\<lparr>ns_server := Serving sn'\<rparr>)"
| dest_sends: "ns_server s = Serving sn \<Longrightarrow> \<not> read_failed (oc_in (rc_conn (sn_remote sn))) \<Longrightarrow>
    dest_size_ok (sn_remote sn) d \<Longrightarrow>
    net_step n k net_Dial px s (s\<lparr>ns_dest := ns_dest s @ d,
      ns_server := Serving (sn\<lparr>sn_remote := remote_arrive (InData d) (sn_remote sn)\<rparr>)\<rparr>)"
| dest_fails: "ns_server s = Serving sn \<Longrightarrow>
    net_step n k net_Dial px s
      (s\<lparr>ns_server := Serving (sn\<lparr>sn_remote := remote_arrive (InErr e) (sn_remote sn)\<rparr>)\<rparr>)"

text \<open>
  The start: a new connection of the device, one of the pool for its metadata, and a stream at the
  server whose frame writes will have the results \<open>wrs\<close>.
\<close>

definition net_start :: "metadata \<Rightarrow> origin_conn \<Rightarrow> gorilla_conn \<Rightarrow> go_error option list \<Rightarrow> net_session" where
  "net_start m origin c wrs =
     \<lparr>ns_pipe = duplex_start origin (Wrapped (pooled_session m c)), ns_server = Waiting (ws_open [] wrs),
      ns_up = 0, ns_down = 0, ns_dev = [], ns_dest = []\<rparr>"

text \<open>What has reached the two outer peers.\<close>

definition dest_got :: "net_session \<Rightarrow> bytes" where
  "dest_got s = (case ns_server s of
       Serving sn \<Rightarrow> oc_out (rc_conn (sn_remote sn))
     | Gone w (Some r) \<Rightarrow> oc_out (rc_conn r)
     | _ \<Rightarrow> [])"

definition dev_got :: "net_session \<Rightarrow> bytes" where
  "dev_got s = oc_out (or_conn (dx_a (ns_pipe s)))"

section \<open>More input\<close>

lemma pending_msgs_append: "\<not> msg_failed xs \<Longrightarrow> pending_msgs (xs @ ys) = pending_msgs xs @ pending_msgs ys"
  by (induction xs rule: pending_msgs.induct) (auto simp: msg_failed_def)

lemma pending_msgs_error [simp]: "pending_msgs (xs @ [Inl e]) = pending_msgs xs"
  by (induction xs rule: pending_msgs.induct) auto

lemma pending_events_append:
  "\<not> read_failed xs \<Longrightarrow> pending_events (xs @ ys) = pending_events xs @ pending_events ys"
  by (induction xs rule: pending_events.induct) (auto simp: read_failed_def)

lemma pending_events_error [simp]: "pending_events (xs @ [InErr e]) = pending_events xs"
  by (induction xs rule: pending_events.induct) auto

lemma origin_arrive_simps [simp]:
  "oc_out (or_conn (origin_arrive x o1)) = oc_out (or_conn o1)"
  "or_udp (origin_arrive x o1) = or_udp o1"
  "origin_pending (origin_arrive (InErr e) o1) = origin_pending o1"
  "origin_fits n (origin_arrive (InErr e) o1) = origin_fits n o1"
  by (simp_all add: origin_arrive_def os_pending_def origin_fits_def)

lemma origin_arrive_data:
  assumes "\<not> read_failed (oc_in (or_conn o1))"
  shows "origin_pending (origin_arrive (InData d) o1) = origin_pending o1 @ d"
  using assms by (simp add: origin_arrive_def os_pending_def pending_events_append)

lemma origin_arrive_fits:
  "origin_fits n o1 \<Longrightarrow> (or_udp o1 \<longrightarrow> length d \<le> n) \<Longrightarrow> origin_fits n (origin_arrive (InData d) o1)"
  by (auto simp: origin_arrive_def origin_fits_def)

lemma proxied_arrive_simps [simp]:
  "proxied_sent (proxied_arrive x c) = proxied_sent c"
  "proxied_ok (proxied_arrive x c) = proxied_ok c"
  "proxied_msgs (proxied_arrive x c) = proxied_msgs c"
  "proxied_pending (proxied_arrive (Inl e) c) = proxied_pending c"
  by (cases c; simp add: gorilla_sent_def argo_sent_def argo_ok_def gorilla_pending_def)+

lemma proxied_arrive_data:
  "\<not> msg_failed (proxied_in c) \<Longrightarrow> proxied_pending (proxied_arrive (Inr p) c) = proxied_pending c @ p"
  by (cases c) (simp_all add: gorilla_pending_def pending_msgs_append)

lemma ws_arrive_simps [simp]:
  "ws_sent (ws_arrive x w) = ws_sent w" "wc_done (ws_arrive x w) = wc_done w"
  "wc_frames (ws_arrive x w) = wc_frames w"
  "ws_pending (ws_arrive (Inl e) w) = ws_pending w" "ws_fits j (ws_arrive (Inl e) w) = ws_fits j w"
  by (simp_all add: ws_arrive_def ws_sent_def ws_pending_def ws_fits_def)

lemma ws_arrive_data:
  "\<not> msg_failed (wc_in w) \<Longrightarrow> ws_pending (ws_arrive (Inr p) w) = ws_pending w @ p"
  "ws_fits j w \<Longrightarrow> length p \<le> j \<Longrightarrow> ws_fits j (ws_arrive (Inr p) w)"
  by (auto simp: ws_arrive_def ws_pending_def ws_fits_def pending_msgs_append)

lemma remote_arrive_simps [simp]:
  "oc_out (rc_conn (remote_arrive x r)) = oc_out (rc_conn r)"
  "oc_closed (rc_conn (remote_arrive x r)) = oc_closed (rc_conn r)"
  "remote_pending (remote_arrive (InErr e) r) = remote_pending r"
  "remote_fits j (remote_arrive (InErr e) r) = remote_fits j r"
  by (simp_all add: remote_arrive_def remote_pending_def os_pending_def remote_fits_def)

lemma remote_arrive_data:
  "\<not> read_failed (oc_in (rc_conn r)) \<Longrightarrow> remote_fits j r \<Longrightarrow>
    remote_pending (remote_arrive (InData d) r) = remote_pending r @ d"
  "remote_fits relay_buf r \<Longrightarrow> dest_size_ok r d \<Longrightarrow> remote_fits relay_buf (remote_arrive (InData d) r)"
  by (auto simp: remote_arrive_def remote_pending_def remote_fits_def os_pending_def pending_events_append)

text \<open>Input that arrives extends what a session is to deliver.\<close>

lemma prefix_extend: "\<exists>rest. a @ rest = u \<Longrightarrow> \<exists>rest. a @ rest = u @ d"
  by auto

lemma session_inv_uplink:
  "session_inv U D sn \<Longrightarrow> \<not> msg_failed (wc_in (sn_ws sn)) \<Longrightarrow> length q \<le> relay_buf \<Longrightarrow>
    session_inv (U @ q) D (sn\<lparr>sn_ws := ws_arrive (Inr q) (sn_ws sn)\<rparr>)"
  by (auto simp: session_inv_def ws_arrive_data)

lemma session_inv_dest:
  "session_inv U D sn \<Longrightarrow> \<not> read_failed (oc_in (rc_conn (sn_remote sn))) \<Longrightarrow>
    dest_size_ok (sn_remote sn) d \<Longrightarrow>
    session_inv U (D @ d) (sn\<lparr>sn_remote := remote_arrive (InData d) (sn_remote sn)\<rparr>)"
  by (auto simp: session_inv_def remote_arrive_data)

lemma session_inv_errors:
  "session_inv U D (sn\<lparr>sn_ws := ws_arrive (Inl e) (sn_ws sn)\<rparr>) = session_inv U D sn"
  "session_inv U D (sn\<lparr>sn_remote := remote_arrive (InErr e) (sn_remote sn)\<rparr>) = session_inv U D sn"
  by (simp_all add: session_inv_def)

lemma pipe_inv_device:
  "tun_duplex.dx_inv n k U D d \<Longrightarrow> \<not> read_failed (oc_in (or_conn (dx_a d))) \<Longrightarrow>
    (or_udp (dx_a d) \<longrightarrow> length q \<le> n) \<Longrightarrow>
    tun_duplex.dx_inv n k (U @ q) D (d\<lparr>dx_a := origin_arrive (InData q) (dx_a d)\<rparr>)"
  unfolding tun_duplex.dx_inv_def dir_inv_def
  by (auto simp: origin_arrive_data origin_arrive_fits split: if_splits)

lemma pipe_inv_downlink:
  "tun_duplex.dx_inv n k U D d \<Longrightarrow> \<not> msg_failed (proxied_in (dx_b d)) \<Longrightarrow>
    tun_duplex.dx_inv n k U (D @ q) (d\<lparr>dx_b := proxied_arrive (Inr q) (dx_b d)\<rparr>)"
  unfolding tun_duplex.dx_inv_def dir_inv_def by (auto simp: proxied_arrive_data split: if_splits)

lemma pipe_inv_errors:
  "tun_duplex.dx_inv n k U D (d\<lparr>dx_a := origin_arrive (InErr e) (dx_a d)\<rparr>) = tun_duplex.dx_inv n k U D d"
  "tun_duplex.dx_inv n k U D (d\<lparr>dx_b := proxied_arrive (Inl e) (dx_b d)\<rparr>) = tun_duplex.dx_inv n k U D d"
  unfolding tun_duplex.dx_inv_def by simp_all

section \<open>The client's messages\<close>

text \<open>
  What the client has written: nothing, or one message with the header in front and then only chunks,
  none empty and none longer than the buffer.
\<close>

definition session_msgs :: "nat \<Rightarrow> bytes \<Rightarrow> bytes list \<Rightarrow> bool" where
  "session_msgs n hdr ms \<longleftrightarrow>
     ms = [] \<or> (\<exists>p ps. ms = (hdr @ p) # ps \<and> (\<forall>q \<in> set (p # ps). q \<noteq> [] \<and> length q \<le> n))"

definition client_msgs :: "nat \<Rightarrow> metadata \<Rightarrow> proxied_conn \<Rightarrow> bool" where
  "client_msgs n m x \<longleftrightarrow>
     (\<exists>w. x = Wrapped w \<and> ac_header w = session_header m \<and> session_msgs n (session_header m) (g_msgs (ac_Conn w)) \<and>
       (g_msgs (ac_Conn w) \<noteq> [] \<longrightarrow> ac_headerSent w))"

definition payload_of :: "metadata \<Rightarrow> bytes list \<Rightarrow> bytes" where
  "payload_of m ms = drop (length (session_header m)) (concat ms)"

lemma session_msgs_snoc:
  "session_msgs n hdr ms \<Longrightarrow> ms \<noteq> [] \<Longrightarrow> q \<noteq> [] \<Longrightarrow> length q \<le> n \<Longrightarrow> session_msgs n hdr (ms @ [q])"
  by (auto simp: session_msgs_def)

lemma session_msgs_take: "session_msgs n hdr ms \<Longrightarrow> session_msgs n hdr (take j ms)"
  by (cases j) (fastforce simp: session_msgs_def dest: in_set_takeD)+

lemma session_msgs_length:
  "session_msgs n (session_header m) ms \<Longrightarrow> metadata_wf m \<Longrightarrow> q \<in> set ms \<Longrightarrow> length q \<le> n + 20"
  using session_header_length [of m] by (fastforce simp: session_msgs_def)

lemma payload_of_snoc:
  "session_msgs n (session_header m) ms \<Longrightarrow> ms \<noteq> [] \<Longrightarrow> payload_of m (ms @ [q]) = payload_of m ms @ q"
  by (auto simp: session_msgs_def payload_of_def)

lemma client_msgs_sent: "client_msgs n m x \<Longrightarrow> proxied_sent x = payload_of m (proxied_msgs x)"
  by (auto simp: client_msgs_def payload_of_def argo_sent_def gorilla_sent_def)

lemma client_msgs_write:
  assumes c: "client_msgs n m x" and ok: "proxied_ok x" and q: "q \<noteq> []" "length q \<le> n"
    and w: "proxied_Write q x = (r, y)"
  shows "client_msgs n m y \<and> (\<exists>qs. proxied_msgs y = proxied_msgs x @ qs)"
proof -
  obtain v where x: "x = Wrapped v" and h: "ac_header v = session_header m"
    and ms: "session_msgs n (session_header m) (g_msgs (ac_Conn v))"
    and hs: "g_msgs (ac_Conn v) \<noteq> [] \<longrightarrow> ac_headerSent v"
    using c by (auto simp: client_msgs_def)
  have ok': "argo_ok v" using ok x by simp
  have h2: "session_header m \<noteq> []" by (simp add: session_header_def)
  show ?thesis
  proof (cases "ac_headerSent v")
    case True
    have ne: "g_msgs (ac_Conn v) \<noteq> []"
      using ok' True h h2 by (auto simp: argo_ok_def gorilla_sent_def)
    with w x True h ms hs q gorilla_write_cases [of q "ac_Conn v"] show ?thesis
      by (auto simp: argo_Write_def client_msgs_def intro: session_msgs_snoc split: prod.splits)
  next
    case False
    then have "g_msgs (ac_Conn v) = []" using hs by blast
    moreover have "argo_addHeader (v\<lparr>ac_headerSent := True\<rparr>) q = session_header m @ q"
      using addHeader_append [of "v\<lparr>ac_headerSent := True\<rparr>" q] ok' h by (simp add: argo_ok_def)
    ultimately show ?thesis
      using w x False h q gorilla_write_cases [of "session_header m @ q" "ac_Conn v"]
      by (auto simp: argo_Write_def client_msgs_def session_msgs_def Let_def split: prod.splits option.splits)
  qed
qed

lemma gorilla_read_msgs [simp]: "g_msgs (snd (GorillaConn_Read j c)) = g_msgs c"
  using gorilla_read_cases [of c j] by auto

lemma client_msgs_read:
  "proxied_Read j x = (r, y) \<Longrightarrow> client_msgs n m x \<Longrightarrow> client_msgs n m y \<and> proxied_msgs y = proxied_msgs x"
  by (cases x) (auto simp: client_msgs_def argo_Read_eq)

lemma client_msgs_close [simp]:
  "client_msgs n m (proxied_Close x) = client_msgs n m x" "proxied_msgs (proxied_Close x) = proxied_msgs x"
  by (cases x; auto simp: client_msgs_def GorillaConn_Close_def)+

lemma client_msgs_arrive [simp]: "client_msgs n m (proxied_arrive e x) = client_msgs n m x"
  by (cases x) (auto simp: client_msgs_def)

text \<open>A copy loop writes only what it has read, and nothing when that is empty.\<close>

lemma copy_iter_writes:
  assumes "copy_iter wr rd n dst src = (q, dst', src')"
  shows "dst' = dst \<or> (\<exists>p er r. p \<noteq> [] \<and> rd n src = (ReadRet p er, src') \<and> wr p dst = (r, dst'))"
  using assms by (auto simp: copy_iter_def Let_def
      split: if_splits prod.splits read_result.splits option.splits)

lemma origin_to_remote_msgs:
  assumes "origin_to_remote n st b a = (q, b', a')" "client_msgs n m b" "proxied_ok b"
  shows "client_msgs n m b' \<and> (\<exists>qs. proxied_msgs b' = proxied_msgs b @ qs)"
proof (cases "b' = b")
  case False
  with copy_iter_writes [OF assms(1) [unfolded origin_to_remote_def]] obtain p er r where
    p: "p \<noteq> []" "origin_read n a = (ReadRet p er, a')" "proxied_Write p b = (r, b')" by blast
  from client_msgs_write [OF assms(2,3) p(1) origin_reader.read_bound [OF p(2)] p(3)] show ?thesis .
qed (use assms(2) in simp)

lemma remote_to_origin_msgs:
  assumes "remote_to_origin k st a b = (q, a', b')" "client_msgs n m b"
  shows "client_msgs n m b' \<and> proxied_msgs b' = proxied_msgs b"
  using copy_iter_reads [OF assms(1) [unfolded remote_to_origin_def]] client_msgs_read assms(2) by metis

lemma pipe_step_msgs:
  assumes "pipe_step n k d d'" "tun_duplex.dx_inv n k U D d" "client_msgs n m (dx_b d)"
  shows "client_msgs n m (dx_b d') \<and> (\<exists>qs. proxied_msgs (dx_b d') = proxied_msgs (dx_b d) @ qs)"
proof -
  have ok: "proxied_ok (dx_b d)" if "dx_ab d"
    using assms(2) that unfolding tun_duplex.dx_inv_def dir_inv_def by simp
  from assms(1) show ?thesis
  proof cases
    case (ab_go b a)
    with origin_to_remote_msgs [OF ab_go(3) assms(3)] ok show ?thesis by simp
  next
    case (ab_end e b a)
    with origin_to_remote_msgs [OF ab_end(3) assms(3)] ok show ?thesis by (simp add: stream_end_ab_def)
  next
    case (ba_go a b)
    with remote_to_origin_msgs [OF ba_go(3) assms(3)] show ?thesis by simp
  next
    case (ba_end e a b)
    with remote_to_origin_msgs [OF ba_end(3) assms(3)] show ?thesis by (simp add: stream_end_ba_def)
  qed
qed

section \<open>The server's frames\<close>

lemma relay_frames:
  assumes "relay_iter Conn_Write rd n st w r = (q, w', r')"
  shows "\<exists>fs. wc_frames w' = wc_frames w @ fs"
proof (cases "w' = w")
  case False
  with assms obtain p res where "Conn_Write p w = (res, w')"
    by (auto simp: relay_iter_def split: if_splits prod.splits read_result.splits option.splits)
  with conn_step_frames [OF conn_step.step_write [of w p]] show ?thesis by simp
qed simp

lemma read_frames: "relay_iter wr Conn_Read n st r w = (q, r', w') \<Longrightarrow> wc_frames w' = wc_frames w"
  using Conn_Read_cases [of w n]
  by (auto simp: relay_iter_def split: if_splits prod.splits read_result.splits option.splits)

lemma session_step_frames:
  assumes "session_step s s'"
  shows "\<exists>fs. wc_frames (sn_ws s') = wc_frames (sn_ws s) @ fs"
  using assms
proof cases
  case up
  then show ?thesis
    by (auto simp: handleConn_round_def Conn_Close_def dest: read_frames
        split: prod.splits option.splits loop_end.splits)
next
  case down
  then show ?thesis
    by (auto simp: handleRemoteConn_round_def Conn_Close_def dest!: relay_frames
        split: prod.splits option.splits loop_end.splits)
qed (use conn_step_frames [OF conn_step.step_ping] conn_step_frames [OF conn_step.step_control] in auto)

section \<open>The server's setup\<close>

text \<open>
  What the environment has to provide: the session is one of the device, the client's buffer leaves
  room for the header in the server's, and a dialled connection is new.
\<close>

definition dial_result :: "remote_conn dialer \<Rightarrow> remote_conn proxy \<Rightarrow> metadata \<Rightarrow> (go_error + remote_conn) option" where
  "dial_result net_Dial px m =
     fst (DialWithRetry net_Dial px (network_String (md_Network m)) (DestinationAddress m) 3)"

definition session_ok :: "nat \<Rightarrow> metadata \<Rightarrow> remote_conn dialer \<Rightarrow> remote_conn proxy \<Rightarrow> bool" where
  "session_ok n m net_Dial px \<longleftrightarrow>
     metadata_wf m \<and> \<not> addr_is4in6 (md_DstIP m) \<and> md_Network m \<in> {1, 6, 17} \<and> n + 20 \<le> relay_buf \<and>
     (case dial_result net_Dial px m of
        Some (Inr r) \<Rightarrow> oc_in (rc_conn r) = [] \<and> oc_out (rc_conn r) = [] \<and> \<not> oc_closed (rc_conn r)
      | _ \<Rightarrow> True)"

text \<open>The messages that have arrived at a server that has read none of them, and then at most an error.\<close>

definition arrived :: "bytes list \<Rightarrow> ws_conn \<Rightarrow> bool" where
  "arrived ms w \<longleftrightarrow> (\<exists>es. wc_in w = map Inr ms @ es \<and> (es = [] \<or> (\<exists>e. es = [Inl e])))"

lemma pending_msgs_map: "pending_msgs (map Inr ms) = concat ms"
  by (induction ms) auto

lemma arrived_pending: "arrived ms w \<Longrightarrow> ws_pending w = concat ms"
  by (auto simp: arrived_def ws_pending_def pending_msgs_map)

lemma arrived_fits: "arrived ms w \<Longrightarrow> \<forall>q \<in> set ms. length q \<le> j \<Longrightarrow> ws_fits j w"
  by (auto simp: arrived_def ws_fits_def)

lemma arrived_more:
  "arrived ms w \<Longrightarrow> \<not> msg_failed (wc_in w) \<Longrightarrow> arrived (ms @ [q]) (ws_arrive (Inr q) w)"
  "arrived ms w \<Longrightarrow> \<not> msg_failed (wc_in w) \<Longrightarrow> arrived ms (ws_arrive (Inl e) w)"
  by (auto simp: arrived_def ws_arrive_def msg_failed_def)

lemma arrived_idle [simp]:
  "arrived ms (snd (Conn_ping w)) = arrived ms w" "arrived ms (snd (handle_control w)) = arrived ms w"
  "arrived ms (answer_control w) = arrived ms w"
  by (auto simp: arrived_def Conn_ping_def write_frame_def handle_control_def
      split: list.splits option.splits prod.splits)

lemma idle_sent [simp]:
  "ws_sent (snd (Conn_ping w)) = ws_sent w" "ws_sent (snd (handle_control w)) = ws_sent w"
  by (auto simp: ws_sent_def Conn_ping_def write_frame_def handle_control_def
      split: list.splits option.splits prod.splits)

lemma setup_read:
  assumes ok: "session_ok n m net_Dial px" and ms: "session_msgs n (session_header m) ms" and w: "arrived ms w"
  shows "handleConn_setup net_Dial px w None = (SetupWaits, w) \<or>
    (\<exists>w'. handleConn_setup net_Dial px w None = (SetupEnded None, w') \<and> wc_frames w' = wc_frames w) \<or>
    (\<exists>p ps w'. ms = (session_header m @ p) # ps \<and> arrived ps w' \<and> wc_frames w' = wc_frames w \<and>
      handleConn_setup net_Dial px w None =
        (case dial_result net_Dial px m of
           Some (Inr r) \<Rightarrow>
             (case remote_write p r of
                ((nw, Some e), r') \<Rightarrow> (SetupEnded (Some r'), w')
              | ((nw, None), r') \<Rightarrow>
                  if nw \<noteq> length p then (SetupEnded (Some r'), w') else (SetupReady r', w'))
         | _ \<Rightarrow> (SetupEnded None, w')))"
proof (cases ms)
  case Nil
  with w show ?thesis by (auto simp: arrived_def handleConn_setup_def Conn_Read_def)
next
  case (Cons q ps)
  with ms obtain p where q: "q = session_header m @ p" and p: "length p \<le> n" by (auto simp: session_msgs_def)
  have m: "metadata_wf m" "\<not> addr_is4in6 (md_DstIP m)" "md_Network m \<in> {1, 6, 17}"
    using ok by (auto simp: session_ok_def)
  have "length q \<le> relay_buf"
    using session_header_length [OF m(1)] p ok by (simp add: q session_ok_def)
  then have t: "take relay_buf q = q" by simp
  from w Cons obtain es where es: "wc_in w = Inr q # map Inr ps @ es" "es = [] \<or> (\<exists>e. es = [Inl e])"
    by (auto simp: arrived_def)
  let ?w = "(answer_control w)\<lparr>wc_in := map Inr ps @ es\<rparr>"
  have r: "Conn_Read relay_buf w = (ReadRet q None, ?w)" by (simp add: Conn_Read_def es(1) t)
  have a: "arrived ps ?w" using es(2) by (auto simp: arrived_def)
  show ?thesis
  proof (cases "2 \<le> length p")
    case False
    with r decode_first_message [OF m(1), of p] show ?thesis by (simp add: handleConn_setup_def q)
  next
    case True
    have d: "fst (DialWithRetry net_Dial px (protocol (first_packet m p)) (address (first_packet m p)) 3) =
        dial_result net_Dial px m"
      by (simp add: first_packet_protocol [OF m(3)] first_packet_address [OF m(1,2)] dial_result_def)
    have "dial_result net_Dial px m \<noteq> None"
      unfolding d [of, symmetric] by simp
    moreover have "pkt_Payload (first_packet m p) = p" by (simp add: first_packet_def)
    ultimately show ?thesis
      using a decode_first_message [OF m(1), of p] True
      by (intro disjI2 exI [of _ p] exI [of _ ps] exI [of _ ?w])
        (auto simp: Cons q [symmetric] handleConn_setup_def r d split: option.splits sum.splits)
  qed
qed

lemma setup_ready:
  assumes "session_ok n m net_Dial px" "session_msgs n (session_header m) ms" "arrived ms w"
    and h: "handleConn_setup net_Dial px w None = (SetupReady r, w')"
  obtains p ps r0 where "ms = (session_header m @ p) # ps" "arrived ps w'" "wc_frames w' = wc_frames w"
    "dial_result net_Dial px m = Some (Inr r0)" "remote_write p r0 = ((length p, None), r)"
  using setup_read [OF assms(1-3)] unfolding h
  by (elim disjE exE conjE) (auto split: option.split_asm sum.split_asm prod.split_asm if_split_asm)

lemma setup_ended:
  assumes "session_ok n m net_Dial px" "session_msgs n (session_header m) ms" "arrived ms w"
    and h: "handleConn_setup net_Dial px w None = (SetupEnded ro, w')"
  shows "wc_frames w' = wc_frames w \<and> (ro = None \<or> (\<exists>p ps r0 j er r. ro = Some r \<and>
    ms = (session_header m @ p) # ps \<and> dial_result net_Dial px m = Some (Inr r0) \<and>
    remote_write p r0 = ((j, er), r)))"
  using setup_read [OF assms(1-3)] unfolding h
  by (elim disjE exE conjE) (auto split: option.split_asm sum.split_asm prod.split_asm if_split_asm)

section \<open>The invariant\<close>

text \<open>
  The server relative to the messages \<open>ms\<close> that have arrived and the bytes \<open>D\<close> the destination has sent.
\<close>

definition dialled :: "remote_conn dialer \<Rightarrow> remote_conn proxy \<Rightarrow> metadata \<Rightarrow> bool" where
  "dialled net_Dial px m \<longleftrightarrow> (\<exists>r. dial_result net_Dial px m = Some (Inr r))"

fun phase_inv :: "remote_conn dialer \<Rightarrow> remote_conn proxy \<Rightarrow> metadata \<Rightarrow> bytes list \<Rightarrow> bytes
    \<Rightarrow> server_phase \<Rightarrow> bool" where
  "phase_inv net_Dial px m ms D (Waiting w) \<longleftrightarrow> arrived ms w \<and> ws_sent w = [] \<and> D = []"
| "phase_inv net_Dial px m ms D (Serving sn) \<longleftrightarrow>
     ms \<noteq> [] \<and> dialled net_Dial px m \<and> session_inv (payload_of m ms) D sn"
| "phase_inv net_Dial px m ms D (Gone w r) \<longleftrightarrow>
     ws_sent w = [] \<and> D = [] \<and>
     (case r of
        None \<Rightarrow> True
      | Some r' \<Rightarrow> ms \<noteq> [] \<and> dialled net_Dial px m \<and>
          (\<exists>rest. oc_out (rc_conn r') @ rest = payload_of m ms))"

definition net_frames :: "net_session \<Rightarrow> frame list" where
  "net_frames s = wc_frames (server_ws (ns_server s))"

definition net_msgs :: "net_session \<Rightarrow> bytes list" where
  "net_msgs s = proxied_msgs (dx_b (ns_pipe s))"

definition frames_data :: "frame list \<Rightarrow> bytes" where
  "frames_data fs = concat (map frame_payload fs)"

definition net_inv :: "nat \<Rightarrow> nat \<Rightarrow> metadata \<Rightarrow> remote_conn dialer \<Rightarrow> remote_conn proxy \<Rightarrow> net_session \<Rightarrow> bool" where
  "net_inv n k m net_Dial px s \<longleftrightarrow>
     session_ok n m net_Dial px \<and>
     tun_duplex.dx_inv n k (ns_dev s) (frames_data (take (ns_down s) (net_frames s))) (ns_pipe s) \<and>
     client_msgs n m (dx_b (ns_pipe s)) \<and>
     ns_up s \<le> length (net_msgs s) \<and> ns_down s \<le> length (net_frames s) \<and>
     phase_inv net_Dial px m (take (ns_up s) (net_msgs s)) (ns_dest s) (ns_server s)"

lemma net_inv_session_msgs:
  "net_inv n k m net_Dial px s \<Longrightarrow> session_msgs n (session_header m) (net_msgs s)"
  by (auto simp: net_inv_def net_msgs_def client_msgs_def)

text \<open>The server's own steps leave what has arrived and what was sent at the other end alone.\<close>

lemma setup_phase_inv:
  assumes ok: "session_ok n m net_Dial px" and ms: "session_msgs n (session_header m) ms"
    and inv: "phase_inv net_Dial px m ms D (Waiting w)"
  shows "handleConn_setup net_Dial px w None = (SetupReady r, w') \<Longrightarrow>
      phase_inv net_Dial px m ms D (Serving (start_session w' r)) \<and> wc_frames w' = wc_frames w"
    and "handleConn_setup net_Dial px w None = (SetupEnded ro, w') \<Longrightarrow>
      phase_inv net_Dial px m ms D (Gone (Conn_Close w') ro) \<and> wc_frames w' = wc_frames w"
proof -
  have w: "arrived ms w" "ws_sent w = []" "D = []" using inv by simp_all
  have sent: "ws_sent v = []" if "wc_frames v = wc_frames w" for v
    using that w(2) by (simp add: ws_sent_def)
  {
    assume "handleConn_setup net_Dial px w None = (SetupReady r, w')"
    with setup_ready [OF ok ms w(1)] obtain p ps r0 where p: "ms = (session_header m @ p) # ps"
      "arrived ps w'" "wc_frames w' = wc_frames w" "dial_result net_Dial px m = Some (Inr r0)"
      "remote_write p r0 = ((length p, None), r)" by metis
    have r0: "oc_in (rc_conn r0) = []" "oc_out (rc_conn r0) = []" "\<not> oc_closed (rc_conn r0)"
      using ok p(4) by (simp_all add: session_ok_def)
    have r0': "remote_fits relay_buf r0" "remote_pending r0 = []"
      using r0 by (simp_all add: remote_fits_def remote_pending_def os_pending_def relay_buf_def)
    have r: "oc_out (rc_conn r) = p" "remote_fits relay_buf r" "remote_pending r = []"
      using remote_writer.write_sent [OF TrueI p(5)] remote_write_frame [OF p(5)] r0(2) r0' by simp_all
    have "\<forall>q \<in> set ps. length q \<le> relay_buf"
      using session_msgs_length [OF ms] ok by (fastforce simp: p(1) session_ok_def)
    then have "session_inv (payload_of m ms) D (start_session w' r)"
      using r arrived_pending [OF p(2)] arrived_fits [OF p(2)] sent [OF p(3)] w(3)
      by (simp add: session_inv_def start_session_def p(1) payload_of_def)
    with p show "phase_inv net_Dial px m ms D (Serving (start_session w' r)) \<and> wc_frames w' = wc_frames w"
      by (simp add: dialled_def)
  }
  {
    assume "handleConn_setup net_Dial px w None = (SetupEnded ro, w')"
    note e = setup_ended [OF ok ms w(1) this]
    show "phase_inv net_Dial px m ms D (Gone (Conn_Close w') ro) \<and> wc_frames w' = wc_frames w"
    proof (cases ro)
      case None
      with e w(3) sent show ?thesis by simp
    next
      case (Some r)
      with e obtain p ps r0 j er where p: "ms = (session_header m @ p) # ps"
        "dial_result net_Dial px m = Some (Inr r0)" "remote_write p r0 = ((j, er), r)" by auto
      have "oc_out (rc_conn r0) = []" using ok p(2) by (simp add: session_ok_def)
      with remote_writer.write_prefix [OF TrueI p(3)] obtain i where "oc_out (rc_conn r) = take i p" by auto
      then have "oc_out (rc_conn r) @ drop i p @ concat ps = payload_of m ms"
        by (simp add: p(1) payload_of_def)
      with p e w(3) sent Some show ?thesis by (auto simp: dialled_def)
    qed
  }
qed

lemma phase_inv_sent: "phase_inv net_Dial px m ms D sv \<Longrightarrow> \<exists>rest. frames_data (wc_frames (server_ws sv)) @ rest = D"
  by (cases sv) (auto simp: frames_data_def ws_sent_def [symmetric] session_inv_def)

lemma phase_inv_uplink:
  assumes "phase_inv net_Dial px m ms D sv" "\<not> msg_failed (wc_in (server_ws sv))"
    "session_msgs n (session_header m) (ms @ [q])" "session_ok n m net_Dial px"
  shows "phase_inv net_Dial px m (ms @ [q]) D (map_ws (ws_arrive (Inr q)) sv)"
proof -
  have q: "length q \<le> relay_buf"
    using session_msgs_length [OF assms(3)] assms(4) by (fastforce simp: session_ok_def)
  have "session_msgs n (session_header m) ms" using session_msgs_take [OF assms(3), of "length ms"] by simp
  then have "ms \<noteq> [] \<Longrightarrow> payload_of m (ms @ [q]) = payload_of m ms @ q" by (rule payload_of_snoc)
  with assms(1,2) q show ?thesis
    by (cases sv) (auto simp: arrived_more session_inv_uplink split: option.splits intro: prefix_extend)
qed

lemma phase_inv_uplink_fails:
  "phase_inv net_Dial px m ms D sv \<Longrightarrow> \<not> msg_failed (wc_in (server_ws sv)) \<Longrightarrow>
    phase_inv net_Dial px m ms D (map_ws (ws_arrive (Inl e)) sv)"
  by (cases sv) (simp_all add: arrived_more session_inv_errors)

lemma ws_control_simps [simp]:
  "ws_sent (ws_control rs w) = ws_sent w" "wc_done (ws_control rs w) = wc_done w"
  "wc_frames (ws_control rs w) = wc_frames w" "ws_pending (ws_control rs w) = ws_pending w"
  "ws_fits j (ws_control rs w) = ws_fits j w" "arrived ms (ws_control rs w) = arrived ms w"
  "wc_frames (server_ws (map_ws (ws_control rs) sv)) = wc_frames (server_ws sv)"
  by (simp_all add: ws_control_def ws_sent_def ws_pending_def ws_fits_def arrived_def)
    (cases sv; simp add: ws_control_def)

lemma phase_inv_control:
  "phase_inv net_Dial px m ms D sv \<Longrightarrow> phase_inv net_Dial px m ms D (map_ws (ws_control rs) sv)"
  by (cases sv) (simp_all add: session_inv_def)

lemma map_ws_frames [simp]:
  "wc_frames (server_ws (map_ws (ws_arrive x) sv)) = wc_frames (server_ws sv)"
  by (cases sv) simp_all

section \<open>The invariant holds\<close>

lemma take_prefix [simp]: "i \<le> length xs \<Longrightarrow> take i (xs @ ys) = take i xs"
  by simp

lemma frames_data_snoc:
  "j < length fs \<Longrightarrow> frames_data (take (Suc j) fs) = frames_data (take j fs) @ frame_payload (fs ! j)"
  by (simp add: frames_data_def take_Suc_conv_app_nth)

lemma net_client_inv:
  assumes inv: "net_inv n k m net_Dial px s" and st: "pipe_step n k (ns_pipe s) d"
  shows "net_inv n k m net_Dial px (s\<lparr>ns_pipe := d\<rparr>)"
proof -
  have i: "tun_duplex.dx_inv n k (ns_dev s) (frames_data (take (ns_down s) (net_frames s))) (ns_pipe s)"
    and c: "client_msgs n m (dx_b (ns_pipe s))" using inv by (simp_all add: net_inv_def)
  obtain qs where qs: "proxied_msgs (dx_b d) = proxied_msgs (dx_b (ns_pipe s)) @ qs"
    and c': "client_msgs n m (dx_b d)" using pipe_step_msgs [OF st i c] by blast
  from tun_duplex.dx_inv_step [OF i st] c' inv show ?thesis
    by (simp add: net_inv_def net_msgs_def net_frames_def qs)
qed

lemma net_uplink_inv:
  assumes inv: "net_inv n k m net_Dial px s" and j: "ns_up s < length (net_msgs s)"
    and nf: "\<not> msg_failed (wc_in (server_ws (ns_server s)))"
  shows "net_inv n k m net_Dial px (s\<lparr>ns_up := ns_up s + 1,
    ns_server := map_ws (ws_arrive (Inr (net_msgs s ! ns_up s))) (ns_server s)\<rparr>)"
proof -
  let ?ms = "take (ns_up s) (net_msgs s)" and ?q = "net_msgs s ! ns_up s"
  have t: "take (Suc (ns_up s)) (net_msgs s) = ?ms @ [?q]" using j by (simp add: take_Suc_conv_app_nth)
  have "session_msgs n (session_header m) (?ms @ [?q])"
    unfolding t [symmetric] by (rule session_msgs_take [OF net_inv_session_msgs [OF inv]])
  with phase_inv_uplink [OF _ nf, of net_Dial px m ?ms "ns_dest s" n ?q] inv
  have "phase_inv net_Dial px m (?ms @ [?q]) (ns_dest s) (map_ws (ws_arrive (Inr ?q)) (ns_server s))"
    by (simp add: net_inv_def)
  with inv j t show ?thesis
    by (simp add: net_inv_def net_msgs_def net_frames_def del: take_Suc)
qed

lemma net_server_inv:
  assumes inv: "net_inv n k m net_Dial px s"
    and ph: "phase_inv net_Dial px m (take (ns_up s) (net_msgs s)) (ns_dest s) sv"
    and fr: "wc_frames (server_ws sv) = net_frames s @ fs"
  shows "net_inv n k m net_Dial px (s\<lparr>ns_server := sv\<rparr>)"
  using inv ph by (simp add: net_inv_def net_msgs_def net_frames_def fr)

lemma net_server_step_inv:
  assumes inv: "net_inv n k m net_Dial px s" and sv: "ns_server s = Serving sn" and st: "session_step sn sn'"
  shows "net_inv n k m net_Dial px (s\<lparr>ns_server := Serving sn'\<rparr>)"
proof -
  obtain fs where "wc_frames (sn_ws sn') = wc_frames (sn_ws sn) @ fs" using session_step_frames [OF st] by blast
  then have "wc_frames (server_ws (Serving sn')) = net_frames s @ fs" by (simp add: net_frames_def sv)
  moreover have "phase_inv net_Dial px m (take (ns_up s) (net_msgs s)) (ns_dest s) (Serving sn')"
    using inv session_inv_step [OF _ st] by (simp add: net_inv_def sv)
  ultimately show ?thesis using net_server_inv [OF inv] by blast
qed

lemma net_inv_step:
  assumes inv: "net_inv n k m net_Dial px s" and st: "net_step n k net_Dial px s s'"
  shows "net_inv n k m net_Dial px s'"
proof -
  have i: "tun_duplex.dx_inv n k (ns_dev s) (frames_data (take (ns_down s) (net_frames s))) (ns_pipe s)"
    and ph: "phase_inv net_Dial px m (take (ns_up s) (net_msgs s)) (ns_dest s) (ns_server s)"
    and ok: "session_ok n m net_Dial px" using inv by (simp_all add: net_inv_def)
  note ms = session_msgs_take [OF net_inv_session_msgs [OF inv], of "ns_up s"]
  from st show ?thesis
  proof cases
    case (client d)
    with net_client_inv [OF inv] show ?thesis by simp
  next
    case (device_sends d)
    with inv pipe_inv_device [OF i] show ?thesis by (simp add: net_inv_def net_msgs_def net_frames_def)
  next
    case (device_fails e)
    with inv show ?thesis by (simp add: net_inv_def net_msgs_def net_frames_def pipe_inv_errors)
  next
    case uplink
    with net_uplink_inv [OF inv] show ?thesis by (simp add: net_msgs_def)
  next
    case (uplink_fails e)
    with net_server_inv [OF inv phase_inv_uplink_fails [OF ph], of e "[]"] show ?thesis
      by (simp add: net_frames_def)
  next
    case (uplink_control rs)
    with net_server_inv [OF inv phase_inv_control [OF ph], of rs "[]"] show ?thesis
      by (simp add: net_frames_def)
  next
    case (server_answer w)
    with net_server_inv [OF inv, of "Waiting (answer_control w)" "[]"] ph show ?thesis
      by (simp add: net_frames_def)
  next
    case (downlink p)
    then have "frames_data (take (Suc (ns_down s)) (net_frames s)) =
        frames_data (take (ns_down s) (net_frames s)) @ p"
      by (simp add: frames_data_snoc net_frames_def)
    with downlink inv pipe_inv_downlink [OF i, of p] show ?thesis
      by (simp add: net_inv_def net_msgs_def net_frames_def)
  next
    case downlink_ping
    then have "frames_data (take (Suc (ns_down s)) (net_frames s)) = frames_data (take (ns_down s) (net_frames s))"
      by (simp add: frames_data_snoc net_frames_def)
    with downlink_ping inv show ?thesis by (simp add: net_inv_def net_msgs_def net_frames_def)
  next
    case (downlink_fails e)
    with inv show ?thesis by (simp add: net_inv_def net_msgs_def net_frames_def pipe_inv_errors)
  next
    case (server_ping w)
    obtain fs where "wc_frames (snd (Conn_ping w)) = wc_frames w @ fs"
      using conn_step_frames [OF conn_step.step_ping] by blast
    with net_server_inv [OF inv, of "Waiting (snd (Conn_ping w))" fs] ph server_ping show ?thesis
      by (simp add: net_frames_def)
  next
    case (server_control w)
    obtain fs where "wc_frames (snd (handle_control w)) = wc_frames w @ fs"
      using conn_step_frames [OF conn_step.step_control] by blast
    with net_server_inv [OF inv, of "Waiting (snd (handle_control w))" fs] ph server_control show ?thesis
      by (simp add: net_frames_def)
  next
    case (server_ready w r w')
    with setup_phase_inv(1) [OF ok ms, of "ns_dest s" w r w'] ph
      net_server_inv [OF inv, of "Serving (start_session w' r)" "[]"] show ?thesis
      by (simp add: net_frames_def start_session_def)
  next
    case (server_ended w r w')
    with setup_phase_inv(2) [OF ok ms, of "ns_dest s" w r w'] ph
      net_server_inv [OF inv, of "Gone (Conn_Close w') r" "[]"] show ?thesis
      by (simp add: net_frames_def Conn_Close_def)
  next
    case (server sn sn')
    with net_server_step_inv [OF inv] show ?thesis by simp
  next
    case (dest_sends sn d)
    with inv session_inv_dest show ?thesis by (simp add: net_inv_def net_msgs_def net_frames_def)
  next
    case (dest_fails sn e)
    with inv show ?thesis by (simp add: net_inv_def net_msgs_def net_frames_def session_inv_errors)
  qed
qed

interpretation whole_session:
  invariant_system "net_inv n k m net_Dial px" "net_step n k net_Dial px" "net_inv n k m net_Dial px"
  for n k m net_Dial px
proof unfold_locales
qed (assumption, rule net_inv_step)

definition fresh_session :: "nat \<Rightarrow> nat \<Rightarrow> origin_conn \<Rightarrow> gorilla_conn \<Rightarrow> bool" where
  "fresh_session n k origin c \<longleftrightarrow> 0 < n \<and> 0 < k \<and>
     oc_in (or_conn origin) = [] \<and> oc_out (or_conn origin) = [] \<and>
     g_msgs c = [] \<and> g_in c = [] \<and> g_readBuf c = []"

lemma pooled_session_valid:
  "metadata_wf m \<Longrightarrow> pooled_session m c = \<lparr>ac_Conn = c, ac_header = session_header m,
    ac_hdrLen = length (session_header m), ac_headerSent = False\<rparr>"
  using parseHeader_valid [of m "new_argo_conn c"]
  by (simp add: pooled_session_def new_argo_conn_def metadata_wf_def)

lemma net_start_inv:
  assumes ok: "session_ok n m net_Dial px" and f: "fresh_session n k origin c"
  shows "net_inv n k m net_Dial px (net_start m origin c wrs)"
proof -
  have p: "pooled_session m c = \<lparr>ac_Conn = c, ac_header = session_header m,
      ac_hdrLen = length (session_header m), ac_headerSent = False\<rparr>"
    using ok by (intro pooled_session_valid) (simp add: session_ok_def)
  show ?thesis
    using assms unfolding net_inv_def tun_duplex.dx_inv_def dir_inv_def
    by (simp add: net_start_def p duplex_start_def fresh_session_def client_msgs_def session_msgs_def
        origin_fits_def os_pending_def argo_sent_def argo_ok_def gorilla_sent_def gorilla_pending_def
        frames_data_def net_msgs_def net_frames_def arrived_def ws_open_def ws_sent_def)
qed

lemmas net_reachable_inv = whole_session.steps_inv [OF _ net_start_inv]

text \<open>What the invariant says of the bytes under way.\<close>

lemma payload_of_split:
  "session_msgs n (session_header m) ms \<Longrightarrow> take j ms \<noteq> [] \<Longrightarrow>
    payload_of m (take j ms) @ concat (drop j ms) = payload_of m ms"
  by (cases j) (auto simp: session_msgs_def payload_of_def concat_append [symmetric] simp del: concat_append)

lemma dest_got_prefix:
  "phase_inv net_Dial px m ms D (ns_server s) \<Longrightarrow> \<exists>rest. dest_got s @ rest = payload_of m ms"
  by (cases "ns_server s") (auto simp: dest_got_def session_inv_def split: option.splits)

lemma net_inv_up:
  assumes inv: "net_inv n k m net_Dial px s"
  shows "\<exists>rest. dest_got s @ rest = ns_dev s"
    and "ns_server s = Serving sn \<Longrightarrow> sn_up sn \<Longrightarrow> dx_ab (ns_pipe s) \<Longrightarrow>
      dest_got s @ ws_pending (sn_ws sn) @ concat (drop (ns_up s) (net_msgs s)) @
        origin_pending (dx_a (ns_pipe s)) = ns_dev s"
proof -
  let ?ms = "net_msgs s" and ?j = "ns_up s"
  have ph: "phase_inv net_Dial px m (take ?j ?ms) (ns_dest s) (ns_server s)"
    and sent: "proxied_sent (dx_b (ns_pipe s)) = payload_of m ?ms"
    using inv client_msgs_sent by (auto simp: net_inv_def net_msgs_def)
  have d: "dir_inv (dx_ab (ns_pipe s)) (payload_of m ?ms) (origin_pending (dx_a (ns_pipe s)))
      (proxied_ok (dx_b (ns_pipe s))) (ns_dev s)"
    using inv unfolding net_inv_def tun_duplex.dx_inv_def sent by simp
  note sp = payload_of_split [OF net_inv_session_msgs [OF inv], of ?j]
  obtain r1 where r1: "dest_got s @ r1 = payload_of m (take ?j ?ms)" using dest_got_prefix [OF ph] by blast
  have "\<exists>r2. payload_of m (take ?j ?ms) @ r2 = payload_of m ?ms"
    using sp by (cases "take ?j ?ms = []") (auto simp: payload_of_def)
  moreover have "\<exists>r3. payload_of m ?ms @ r3 = ns_dev s" using d by (auto simp: dir_inv_def split: if_splits)
  ultimately show "\<exists>rest. dest_got s @ rest = ns_dev s" using r1 by (metis append.assoc)
  assume sv: "ns_server s = Serving sn" and up: "sn_up sn" and ab: "dx_ab (ns_pipe s)"
  then have "dest_got s @ ws_pending (sn_ws sn) = payload_of m (take ?j ?ms)" "take ?j ?ms \<noteq> []"
    using ph by (auto simp: session_inv_def dest_got_def)
  with sp d ab show "dest_got s @ ws_pending (sn_ws sn) @ concat (drop ?j ?ms) @
      origin_pending (dx_a (ns_pipe s)) = ns_dev s"
    by (simp add: dir_inv_def) (metis append.assoc)
qed

lemma net_inv_down:
  assumes inv: "net_inv n k m net_Dial px s"
  shows "\<exists>rest. dev_got s @ rest = ns_dest s"
    and "ns_server s = Serving sn \<Longrightarrow> sn_down sn \<Longrightarrow> dx_ba (ns_pipe s) \<Longrightarrow>
      dev_got s @ proxied_pending (dx_b (ns_pipe s)) @ frames_data (drop (ns_down s) (net_frames s)) @
        remote_pending (sn_remote sn) = ns_dest s"
proof -
  let ?fs = "net_frames s" and ?j = "ns_down s"
  have ph: "phase_inv net_Dial px m (take (ns_up s) (net_msgs s)) (ns_dest s) (ns_server s)"
    and d: "dir_inv (dx_ba (ns_pipe s)) (dev_got s) (proxied_pending (dx_b (ns_pipe s))) True
      (frames_data (take ?j ?fs))"
    using inv unfolding net_inv_def tun_duplex.dx_inv_def dev_got_def by simp_all
  have sp: "frames_data (take ?j ?fs) @ frames_data (drop ?j ?fs) = frames_data ?fs"
    by (simp add: frames_data_def flip: concat_append map_append)
  obtain r1 where "dev_got s @ r1 = frames_data (take ?j ?fs)"
    using d by (auto simp: dir_inv_def split: if_splits)
  moreover obtain r2 where "frames_data ?fs @ r2 = ns_dest s"
    using phase_inv_sent [OF ph] by (auto simp: net_frames_def)
  ultimately show "\<exists>rest. dev_got s @ rest = ns_dest s" using sp by (metis append.assoc)
  assume sv: "ns_server s = Serving sn" and dn: "sn_down sn" and ba: "dx_ba (ns_pipe s)"
  then have "frames_data ?fs @ remote_pending (sn_remote sn) = ns_dest s"
    using ph by (simp add: session_inv_def net_frames_def frames_data_def ws_sent_def)
  with sp d ba show "dev_got s @ proxied_pending (dx_b (ns_pipe s)) @ frames_data (drop ?j ?fs) @
      remote_pending (sn_remote sn) = ns_dest s"
    by (simp add: dir_inv_def) (metis append.assoc)
qed

lemma net_inv_silent:
  assumes inv: "net_inv n k m net_Dial px s" and dev: "ns_dev s = []"
  shows "net_msgs s = [] \<and> (\<forall>sn. ns_server s \<noteq> Serving sn) \<and> ns_dest s = []"
proof -
  have "\<exists>r. proxied_sent (dx_b (ns_pipe s)) @ r = ns_dev s"
    using inv unfolding net_inv_def tun_duplex.dx_inv_def dir_inv_def by (auto split: if_splits)
  then have "payload_of m (net_msgs s) = []"
    using dev inv client_msgs_sent by (fastforce simp: net_inv_def net_msgs_def)
  with net_inv_session_msgs [OF inv] have ms: "net_msgs s = []"
    by (auto simp: session_msgs_def payload_of_def)
  with inv show ?thesis by (cases "ns_server s") (auto simp: net_inv_def)
qed

section \<open>A run\<close>

text \<open>One request and its answer through all the steps, for the witnesses.\<close>

definition demo_md :: metadata where "demo_md = session_metadata 6 demo_id"

definition fresh_remote :: "read_event list \<Rightarrow> bytes \<Rightarrow> remote_conn" where
  "fresh_remote ins out_bytes = \<lparr>rc_conn = (os_open ins [])\<lparr>oc_out := out_bytes\<rparr>, rc_udp = None, rc_timeouts = []\<rparr>"

definition demo_dial :: "remote_conn dialer" where "demo_dial = (\<lambda>_ _ _. Inr (fresh_remote [] []))"

definition demo_px :: "remote_conn proxy" where
  "demo_px = \<lparr>px_DialFunc = demo_dial, px_Proxy4 = False, px_Proxy6 = False\<rparr>"

definition demo_client :: "read_event list \<Rightarrow> bytes \<Rightarrow> (go_error + bytes) list \<Rightarrow> bytes list \<Rightarrow> tun_pipe" where
  "demo_client ins got arrived_msgs msgs = duplex_start
     \<lparr>or_conn = (os_open ins [])\<lparr>oc_out := got\<rparr>, or_udp = False\<rparr>
     (Wrapped \<lparr>ac_Conn = (gorilla_open arrived_msgs [])\<lparr>g_msgs := msgs\<rparr>, ac_header = session_header demo_md,
       ac_hdrLen = length (session_header demo_md), ac_headerSent = (msgs \<noteq> [])\<rparr>)"

definition demo_server :: "frame list \<Rightarrow> read_event list \<Rightarrow> server_phase" where
  "demo_server fs ins =
     Serving (start_session ((ws_open [] [])\<lparr>wc_frames := fs\<rparr>) (fresh_remote ins [7, 8]))"

definition demo_net :: "tun_pipe \<Rightarrow> server_phase \<Rightarrow> nat \<Rightarrow> nat \<Rightarrow> bytes \<Rightarrow> bytes \<Rightarrow> net_session" where
  "demo_net p sv up down dev dest =
     \<lparr>ns_pipe = p, ns_server = sv, ns_up = up, ns_down = down, ns_dev = dev, ns_dest = dest\<rparr>"

abbreviation "demo_msg \<equiv> session_header demo_md @ [7, 8]"
abbreviation "demo_step \<equiv> net_step 1280 1280 demo_dial demo_px"

lemma demo_md_wf: "metadata_wf demo_md" "\<not> addr_is4in6 (md_DstIP demo_md)" "md_Network demo_md \<in> {1, 6, 17}"
  "addr_is_valid (md_DstIP demo_md)"
proof -
  show 1: "metadata_wf demo_md" unfolding demo_md_def by (rule session_metadata_wf) (simp add: demo_id_def)
  show "\<not> addr_is4in6 (md_DstIP demo_md)" "md_Network demo_md \<in> {1, 6, 17}"
    by (simp_all add: demo_md_def session_metadata_def demo_id_def parseTCPIPAddress_def Let_def)
  show "addr_is_valid (md_DstIP demo_md)" using 1 by (simp add: metadata_wf_def)
qed

lemma demo_dials: "Proxy_Dial demo_dial demo_px i nw (DestinationAddress demo_md) = Some (Inr (fresh_remote [] []))"
  using demo_dest by (cases "DestinationAddress demo_md")
    (simp_all add: Proxy_Dial_def demo_px_def demo_dial_def demo_md_def Let_def)

lemma demo_ok: "session_ok 1280 demo_md demo_dial demo_px"
  using demo_md_wf demo_dials
  by (simp add: session_ok_def dial_result_def DialWithRetry_def retry_loop.simps relay_buf_def
      fresh_remote_def os_open_def)

definition demo_origin_conn :: origin_conn where
  "demo_origin_conn = \<lparr>or_conn = os_open [] [], or_udp = False\<rparr>"

lemma demo_fresh: "fresh_session 1280 1280 demo_origin_conn (gorilla_open [] [])"
  by (simp add: fresh_session_def demo_origin_conn_def os_open_def gorilla_open_def)

lemma demo_start: "net_start demo_md demo_origin_conn (gorilla_open [] []) [] =
    demo_net (demo_client [] [] [] []) (Waiting (ws_open [] [])) 0 0 [] []"
  by (simp add: net_start_def demo_net_def demo_client_def pooled_session_valid demo_md_wf
      demo_origin_conn_def os_open_def gorilla_open_def)

lemmas demo_defs = demo_net_def demo_client_def duplex_start_def os_open_def gorilla_open_def ws_open_def
  read_failed_def msg_failed_def origin_arrive_def ws_arrive_def remote_arrive_def demo_server_def
  start_session_def fresh_remote_def

lemma demo_1: "demo_step (demo_net (demo_client [] [] [] []) (Waiting (ws_open [] [])) 0 0 [] [])
    (demo_net (demo_client [InData [7, 8]] [] [] []) (Waiting (ws_open [] [])) 0 0 [7, 8] [])"
  using net_step.device_sends [of "demo_net (demo_client [] [] [] []) (Waiting (ws_open [] [])) 0 0 [] []"
      "[7, 8]" 1280 1280 demo_dial demo_px]
  by (simp add: demo_defs)

lemma demo_2: "demo_step (demo_net (demo_client [InData [7, 8]] [] [] []) (Waiting (ws_open [] [])) 0 0 [7, 8] [])
    (demo_net (demo_client [] [] [] [demo_msg]) (Waiting (ws_open [] [])) 0 0 [7, 8] [])"
proof -
  let ?s = "demo_net (demo_client [InData [7, 8]] [] [] []) (Waiting (ws_open [] [])) 0 0 [7, 8] []"
  have "pipe_step 1280 1280 (ns_pipe ?s) (demo_client [] [] [] [demo_msg])"
    using duplex_step.ab_go [of "ns_pipe ?s" "origin_to_remote 1280" "dx_b (demo_client [] [] [] [demo_msg])"
        "dx_a (demo_client [] [] [] [demo_msg])"]
    by (simp add: demo_defs origin_to_remote_def copy_iter_def origin_read_def os_read_def argo_Write_def
        addHeader_append GorillaConn_Write_def Let_def)
  from net_step.client [OF this] show ?thesis by (simp add: demo_net_def)
qed

lemma demo_3: "demo_step (demo_net (demo_client [] [] [] [demo_msg]) (Waiting (ws_open [] [])) 0 0 [7, 8] [])
    (demo_net (demo_client [] [] [] [demo_msg]) (Waiting (ws_open [Inr demo_msg] [])) 1 0 [7, 8] [])"
  using net_step.uplink [of "demo_net (demo_client [] [] [] [demo_msg]) (Waiting (ws_open [] [])) 0 0 [7, 8] []"
      1280 1280 demo_dial demo_px]
  by (simp add: demo_defs)

lemma demo_4: "demo_step (demo_net (demo_client [] [] [] [demo_msg]) (Waiting (ws_open [Inr demo_msg] [])) 1 0 [7, 8] [])
    (demo_net (demo_client [] [] [] [demo_msg]) (demo_server [] []) 1 0 [7, 8] [])"
proof -
  let ?s = "demo_net (demo_client [] [] [] [demo_msg]) (Waiting (ws_open [Inr demo_msg] [])) 1 0 [7, 8] []"
  have "handleConn_setup demo_dial demo_px (ws_open [Inr demo_msg] []) None =
      (SetupReady (fresh_remote [] [7, 8]), ws_open [] [])"
    using setup_first_message [OF demo_md_wf(1-3) _ _ demo_dials, of "[7, 8]" "[]" "[]"]
    by (simp add: relay_buf_def fresh_remote_def os_open_def)
  from net_step.server_ready [OF _ this, of ?s] show ?thesis
    by (simp add: demo_net_def demo_server_def ws_open_def)
qed

lemma demo_5: "demo_step (demo_net (demo_client [] [] [] [demo_msg]) (demo_server [] []) 1 0 [7, 8] [])
    (demo_net (demo_client [] [] [] [demo_msg]) (demo_server [] [InData [5]]) 1 0 [7, 8] [5])"
  using net_step.dest_sends [of "demo_net (demo_client [] [] [] [demo_msg]) (demo_server [] []) 1 0 [7, 8] []" _
      "[5]" 1280 1280 demo_dial demo_px]
  by (simp add: demo_defs)

lemma demo_6: "demo_step (demo_net (demo_client [] [] [] [demo_msg]) (demo_server [] [InData [5]]) 1 0 [7, 8] [5])
    (demo_net (demo_client [] [] [] [demo_msg]) (demo_server [FrameBinary [5]] []) 1 0 [7, 8] [5])"
proof -
  let ?s = "\<lambda>fs ins. start_session ((ws_open [] [])\<lparr>wc_frames := fs\<rparr>) (fresh_remote ins [7, 8])"
  have "session_step (?s [] [InData [5]]) (?s [FrameBinary [5]] [])"
    by (rule session_step.down)
      (simp_all add: demo_defs handleRemoteConn_round_def relay_iter_def deadline_read_def setReadDeadline_def
        remote_read_def os_read_def Conn_Write_def write_frame_def relay_buf_def)
  from net_step.server [OF _ this, of "demo_net (demo_client [] [] [] [demo_msg]) (demo_server [] [InData [5]]) 1 0 [7, 8] [5]"]
  show ?thesis by (simp add: demo_net_def demo_server_def)
qed

lemma demo_7: "demo_step (demo_net (demo_client [] [] [] [demo_msg]) (demo_server [FrameBinary [5]] []) 1 0 [7, 8] [5])
    (demo_net (demo_client [] [] [Inr [5]] [demo_msg]) (demo_server [FrameBinary [5]] []) 1 1 [7, 8] [5])"
  using net_step.downlink [of "demo_net (demo_client [] [] [] [demo_msg]) (demo_server [FrameBinary [5]] []) 1 0 [7, 8] [5]"
      "[5]" 1280 1280 demo_dial demo_px]
  by (simp add: demo_defs)

lemma demo_8: "demo_step (demo_net (demo_client [] [] [Inr [5]] [demo_msg]) (demo_server [FrameBinary [5]] []) 1 1 [7, 8] [5])
    (demo_net (demo_client [] [5] [] [demo_msg]) (demo_server [FrameBinary [5]] []) 1 1 [7, 8] [5])"
proof -
  let ?s = "demo_net (demo_client [] [] [Inr [5]] [demo_msg]) (demo_server [FrameBinary [5]] []) 1 1 [7, 8] [5]"
  have "pipe_step 1280 1280 (ns_pipe ?s) (demo_client [] [5] [] [demo_msg])"
    using duplex_step.ba_go [of "ns_pipe ?s" "remote_to_origin 1280" "dx_a (demo_client [] [5] [] [demo_msg])"
        "dx_b (demo_client [] [5] [] [demo_msg])"]
    by (simp add: demo_defs remote_to_origin_def copy_iter_def argo_Read_def GorillaConn_Read_def
        origin_write_def sock_write_def os_write_def)
  from net_step.client [OF this] show ?thesis by (simp add: demo_net_def)
qed

definition demo_end :: net_session where
  "demo_end = demo_net (demo_client [] [5] [] [demo_msg]) (demo_server [FrameBinary [5]] []) 1 1 [7, 8] [5]"

lemma demo_run: "demo_step\<^sup>*\<^sup>* (net_start demo_md demo_origin_conn (gorilla_open [] []) []) demo_end"
  unfolding demo_start demo_end_def
  by (rule demo_1 demo_2 demo_3 demo_4 demo_5 demo_6 demo_7 demo_8 rtranclp.rtrancl_refl
    converse_rtranclp_into_rtranclp)+

section \<open>Properties\<close>

text \<open>
  C1. A session of the device over a pooled connection, both ends at once, under every interleaving of
  the client's two copies, the server's setup and two relay loops, the pinger, the network and the
  two outer peers, with every socket free to fail at any time: the destination has received a prefix
  of what the application sent and the application a prefix of what the destination sent; and as long
  as the loops of a direction run, every byte of it is in exactly one place: delivered, at the
  receiving end, under way, or not yet read. The server relays only after a dial to
  the destination the session names.
\<close>

theorem session_transparent:
  assumes "session_ok n m net_Dial px" and "fresh_session n k origin c"
    and "(net_step n k net_Dial px)\<^sup>*\<^sup>* (net_start m origin c wrs) s"
  shows "(\<exists>rest. dest_got s @ rest = ns_dev s) \<and> (\<exists>rest. dev_got s @ rest = ns_dest s) \<and>
    (\<forall>sn. ns_server s = Serving sn \<longrightarrow>
      (\<exists>r. dial_result net_Dial px m = Some (Inr r)) \<and>
      (sn_up sn \<and> dx_ab (ns_pipe s) \<longrightarrow>
        dest_got s @ ws_pending (sn_ws sn) @ concat (drop (ns_up s) (net_msgs s)) @
          origin_pending (dx_a (ns_pipe s)) = ns_dev s) \<and>
      (sn_down sn \<and> dx_ba (ns_pipe s) \<longrightarrow>
        dev_got s @ proxied_pending (dx_b (ns_pipe s)) @ frames_data (drop (ns_down s) (net_frames s)) @
          remote_pending (sn_remote sn) = ns_dest s))"
proof -
  have inv: "net_inv n k m net_Dial px s" using net_reachable_inv [OF assms(3,1,2)] .
  then have "\<exists>r. dial_result net_Dial px m = Some (Inr r)" if "ns_server s = Serving sn" for sn
    using that by (simp add: net_inv_def dialled_def)
  then show ?thesis using net_inv_up [OF inv] net_inv_down [OF inv] by blast
qed

theorem session_transparent_witness:
  "demo_step\<^sup>*\<^sup>* (net_start demo_md demo_origin_conn (gorilla_open [] []) []) demo_end \<and>
   dest_got demo_end = [7, 8] \<and> dev_got demo_end = [5] \<and> (\<exists>rest. [7, 8] @ rest = ns_dev demo_end)"
proof -
  have g: "dest_got demo_end = [7, 8]" "dev_got demo_end = [5]"
    by (simp_all add: demo_end_def dest_got_def dev_got_def demo_defs)
  from session_transparent [OF demo_ok demo_fresh demo_run] have "\<exists>rest. dest_got demo_end @ rest = ns_dev demo_end"
    by blast
  with g demo_run show ?thesis by simp
qed

text \<open>
  C11. What a session puts on the wire is well formed at all times: nothing, or one message with the
  session's header in front, which the server decodes into the session's network, destination and
  first chunk when the chunk has two bytes, and after it only chunks of the client's buffer; no message
  is empty or exceeds the server's buffer.
\<close>

theorem wire_well_formed:
  assumes "session_ok n m net_Dial px" and "fresh_session n k origin c"
    and "(net_step n k net_Dial px)\<^sup>*\<^sup>* (net_start m origin c wrs) s"
  shows "(net_msgs s = [] \<or> (\<exists>p ps. net_msgs s = (session_header m @ p) # ps \<and>
      (2 \<le> length p \<longrightarrow> Decode (hd (net_msgs s)) = Inr (first_packet m p)) \<and>
      (\<forall>q \<in> set (p # ps). q \<noteq> [] \<and> length q \<le> n))) \<and>
    (\<forall>q \<in> set (net_msgs s). q \<noteq> [] \<and> length q \<le> relay_buf)"
proof -
  have ms: "session_msgs n (session_header m) (net_msgs s)"
    by (rule net_inv_session_msgs [OF net_reachable_inv [OF assms(3,1,2)]])
  have wf: "metadata_wf m" "n + 20 \<le> relay_buf" using assms(1) by (simp_all add: session_ok_def)
  have "\<forall>q \<in> set (net_msgs s). q \<noteq> [] \<and> length q \<le> relay_buf"
    using ms session_msgs_length [OF ms wf(1)] wf(2) by (fastforce simp: session_msgs_def)
  moreover have "net_msgs s = [] \<or> (\<exists>p ps. net_msgs s = (session_header m @ p) # ps \<and>
      (2 \<le> length p \<longrightarrow> Decode (hd (net_msgs s)) = Inr (first_packet m p)) \<and>
      (\<forall>q \<in> set (p # ps). q \<noteq> [] \<and> length q \<le> n))"
    using ms decode_first_message [OF wf(1)] by (auto simp: session_msgs_def)
  ultimately show ?thesis by blast
qed

theorem wire_well_formed_witness:
  "net_msgs demo_end = [demo_msg] \<and> demo_msg \<noteq> [] \<and> length demo_msg \<le> relay_buf"
proof -
  have m: "net_msgs demo_end = [demo_msg]" by (simp add: demo_end_def net_msgs_def demo_defs)
  with wire_well_formed [OF demo_ok demo_fresh demo_run] show ?thesis by simp
qed

text \<open>
  C12. The destination is dialled only once the application has sent a byte: until then no message has
  left the client, the server is not relaying and the application receives nothing, however long the
  session lasts. A protocol in which the server speaks first does not get off the ground on a pooled
  connection.
\<close>

theorem silent_session_never_served:
  assumes "session_ok n m net_Dial px" and "fresh_session n k origin c"
    and "(net_step n k net_Dial px)\<^sup>*\<^sup>* (net_start m origin c wrs) s" and "ns_dev s = []"
  shows "net_msgs s = [] \<and> (\<forall>sn. ns_server s \<noteq> Serving sn) \<and> dest_got s = [] \<and> dev_got s = []"
proof -
  have inv: "net_inv n k m net_Dial px s" using net_reachable_inv [OF assms(3,1,2)] .
  from net_inv_up(1) [OF inv] net_inv_down(1) [OF inv] net_inv_silent [OF inv assms(4)] assms(4)
  show ?thesis by auto
qed

theorem silent_session_never_served_witness:
  "net_msgs (net_start demo_md demo_origin_conn (gorilla_open [] []) []) = [] \<and>
   dest_got (net_start demo_md demo_origin_conn (gorilla_open [] []) []) = []"
  using silent_session_never_served [OF demo_ok demo_fresh rtranclp.rtrancl_refl, of "[]"]
  by (simp add: net_start_def)

end
