(* ===== verification/ClientUdp.thy ===== *)
theory ClientUdp
  imports ClientConfig
begin

text \<open>
  \<open>src/client/udp.go\<close>: a forwarded UDP port. Every source address gets a connector with a websocket, a
  queue of datagrams to send, and three goroutines (reading the websocket, draining the queue,
  closing the connector when nothing was read for a while). One global queue carries the answers back
  to the listeners. All of it runs concurrently, so the model is a step relation whose steps are the
  operations below; every datagram carries its source address.
\<close>

section \<open>State\<close>

definition UdpBufSize :: nat where "UdpBufSize = 64 * 1024"
definition InboundQueueSize :: nat where "InboundQueueSize = 1024"
definition OutboundQueueSize :: nat where "OutboundQueueSize = 65536"

type_synonym datagram = "string \<times> bytes"

text \<open>
  Where \<open>handleRemote\<close> is: at its test of \<open>closed\<close>, inside a read of the websocket, with a datagram that
  was read, or returned.
\<close>

datatype remote_pc = Testing | Reading | Pushing bytes | Returned

record connector =
  cn_srcAddr :: string
  cn_inboundQueue :: "datagram chan"
  cn_lastRecvTime :: int
  cn_idleTimeout :: int
  cn_closed :: bool
  cn_remoteClosed :: bool
  cn_sent :: "datagram list" \<comment> \<open>written to the websocket, in order\<close>
  cn_checking :: bool \<comment> \<open>\<open>healthCheck\<close> has not returned\<close>
  cn_remote :: remote_pc

text \<open>The goroutine started for the first datagram of a source, at its three stages.\<close>

datatype first_task =
    Dialing datagram
  | Storing datagram nat
  | Sending datagram nat

record udp_sys =
  us_conns :: "connector list" \<comment> \<open>all connectors ever made\<close>
  us_udpConns :: "string \<rightharpoonup> nat"
  us_tasks :: "first_task list"
  us_outbound :: "(nat \<times> datagram) chan" \<comment> \<open>with the connector that read it\<close>
  us_delivered :: "(nat \<times> datagram) list" \<comment> \<open>written to the listener\<close>
  us_timeout :: int \<comment> \<open>the tunnel's setting\<close>
  us_now :: int
  us_panic :: bool

definition udp_start :: "int \<Rightarrow> udp_sys" where
  "udp_start timeout = \<lparr>us_conns = [], us_udpConns = Map.empty, us_tasks = [],
     us_outbound = make_chan OutboundQueueSize, us_delivered = [], us_timeout = timeout,
     us_now = 0, us_panic = False\<rparr>"

definition set_conn :: "nat \<Rightarrow> connector \<Rightarrow> udp_sys \<Rightarrow> udp_sys" where
  "set_conn i c s = s\<lparr>us_conns := (us_conns s)[i := c]\<rparr>"

section \<open>Operations\<close>

text \<open>
  The body of \<open>UdpListen\<close>'s loop for one datagram: queue it at its source's connector, drop it if that
  is closed, or start a connector. \<open>None\<close>: it waits, holding the connector's lock.
\<close>

definition UdpListen_recv :: "datagram \<Rightarrow> udp_sys \<Rightarrow> udp_sys option" where
  "UdpListen_recv d s =
     (case us_udpConns s (fst d) of
        Some i \<Rightarrow>
          (let c = us_conns s ! i in
           if cn_closed c then Some s
           else case chan_send d (cn_inboundQueue c) of
                  SendOk q \<Rightarrow> Some (set_conn i (c\<lparr>cn_inboundQueue := q\<rparr>) s)
                | SendBlock \<Rightarrow> None
                | SendPanic \<Rightarrow> Some (s\<lparr>us_panic := True\<rparr>))
      | None \<Rightarrow> Some (s\<lparr>us_tasks := us_tasks s @ [Dialing d]\<rparr>))"

text \<open>\<open>NewConn\<close>, given whether the websocket could be dialled.\<close>

definition Udp_NewConn :: "bool \<Rightarrow> string \<Rightarrow> udp_sys \<Rightarrow> connector option" where
  "Udp_NewConn dialled src s =
     (if \<not> dialled then None
      else Some \<lparr>cn_srcAddr = src, cn_inboundQueue = make_chan InboundQueueSize,
                 cn_lastRecvTime = us_now s,
                 cn_idleTimeout = (if us_timeout s < 1 then 30 else us_timeout s),
                 cn_closed = False, cn_remoteClosed = False, cn_sent = [],
                 cn_checking = True, cn_remote = Testing\<rparr>)"

text \<open>The next stage of a first-datagram goroutine; \<open>None\<close>: it waits on a full queue.\<close>

definition task_step :: "bool \<Rightarrow> first_task \<Rightarrow> udp_sys \<Rightarrow> (first_task option \<times> udp_sys) option" where
  "task_step dialled t s =
     (case t of
        Dialing d \<Rightarrow>
          (case Udp_NewConn dialled (fst d) s of
             None \<Rightarrow> Some (None, s)
           | Some c \<Rightarrow> Some (Some (Storing d (length (us_conns s))), s\<lparr>us_conns := us_conns s @ [c]\<rparr>))
      | Storing d i \<Rightarrow> Some (Some (Sending d i), s\<lparr>us_udpConns := (us_udpConns s)(fst d \<mapsto> i)\<rparr>)
      | Sending d i \<Rightarrow>
          (let c = us_conns s ! i in
           case chan_send d (cn_inboundQueue c) of
             SendOk q \<Rightarrow> Some (None, set_conn i (c\<lparr>cn_inboundQueue := q\<rparr>) s)
           | SendBlock \<Rightarrow> None
           | SendPanic \<Rightarrow> Some (None, s\<lparr>us_panic := True\<rparr>)))"

text \<open>One round of \<open>processInboundQueue\<close>; a failed write is ignored.\<close>

definition processInboundQueue :: "bool \<Rightarrow> nat \<Rightarrow> udp_sys \<Rightarrow> udp_sys option" where
  "processInboundQueue write_ok i s =
     (let c = us_conns s ! i in
      case chan_recv (cn_inboundQueue c) of
        RecvVal d q \<Rightarrow>
          Some (set_conn i (c\<lparr>cn_inboundQueue := q,
                             cn_sent := (if write_ok then cn_sent c @ [d] else cn_sent c)\<rparr>) s)
      | _ \<Rightarrow> None)"

definition processOutboundQueue :: "bool \<Rightarrow> udp_sys \<Rightarrow> udp_sys option" where
  "processOutboundQueue write_ok s =
     (case chan_recv (us_outbound s) of
        RecvVal x q \<Rightarrow>
          Some (s\<lparr>us_outbound := q,
                  us_delivered := (if write_ok then us_delivered s @ [x] else us_delivered s)\<rparr>)
      | _ \<Rightarrow> None)"

text \<open>
  \<open>handleRemote\<close>, one step at a time. \<open>ReadFromRemote\<close> notes the time and then reads; the read blocks, and
  other goroutines may close the connector meanwhile. \<open>res\<close> is what the read gives when it returns.
  \<open>None\<close>: it waits on a full outbound queue, or has returned.
\<close>

definition ReadFromRemote :: "int \<Rightarrow> connector \<Rightarrow> connector" where
  "ReadFromRemote now c = c\<lparr>cn_lastRecvTime := now, cn_remote := Reading\<rparr>"

definition handleRemote :: "go_error + bytes \<Rightarrow> nat \<Rightarrow> udp_sys \<Rightarrow> udp_sys option" where
  "handleRemote res i s =
     (let c = us_conns s ! i in
      case cn_remote c of
        Testing \<Rightarrow>
          if cn_closed c then Some (set_conn i (c\<lparr>cn_remote := Returned\<rparr>) s)
          else Some (set_conn i (ReadFromRemote (us_now s) c) s)
      | Reading \<Rightarrow>
          (case res of
             Inl e \<Rightarrow>
               Some ((set_conn i (c\<lparr>cn_closed := True, cn_remoteClosed := True, cn_remote := Returned\<rparr>) s)
                     \<lparr>us_udpConns := (us_udpConns s)(cn_srcAddr c := None)\<rparr>)
           | Inr b \<Rightarrow> Some (set_conn i (c\<lparr>cn_remote := Pushing b\<rparr>) s))
      | Pushing b \<Rightarrow>
          (case chan_send (i, cn_srcAddr c, b) (us_outbound s) of
             SendOk q \<Rightarrow> Some ((set_conn i (c\<lparr>cn_remote := Testing\<rparr>) s)\<lparr>us_outbound := q\<rparr>)
           | SendBlock \<Rightarrow> None
           | SendPanic \<Rightarrow> Some (s\<lparr>us_panic := True\<rparr>))
      | Returned \<Rightarrow> None)"

text \<open>One round of \<open>healthCheck\<close>: close the connector once it was idle for too long.\<close>

definition healthCheck :: "nat \<Rightarrow> udp_sys \<Rightarrow> udp_sys" where
  "healthCheck i s =
     (let c = us_conns s ! i in
      if us_now s > cn_lastRecvTime c + cn_idleTimeout c then
        (case chan_close (cn_inboundQueue c) of
           None \<Rightarrow> s\<lparr>us_panic := True\<rparr>
         | Some q \<Rightarrow>
             (set_conn i (c\<lparr>cn_closed := True, cn_inboundQueue := q, cn_remoteClosed := True,
                           cn_checking := False\<rparr>) s)
             \<lparr>us_udpConns := (us_udpConns s)(cn_srcAddr c := None)\<rparr>)
      else s)"

section \<open>Steps\<close>

inductive udp_step :: "udp_sys \<Rightarrow> udp_sys \<Rightarrow> bool" where
  recv: "UdpListen_recv d s = Some s' \<Longrightarrow> udp_step s s'"
| task: "us_tasks s = ts @ t # us \<Longrightarrow> task_step dialled t s = Some (r, s') \<Longrightarrow>
    udp_step s (s'\<lparr>us_tasks := ts @ (case r of None \<Rightarrow> [] | Some t' \<Rightarrow> [t']) @ us\<rparr>)"
| inbound: "i < length (us_conns s) \<Longrightarrow> processInboundQueue ok i s = Some s' \<Longrightarrow> udp_step s s'"
| outbound: "processOutboundQueue ok s = Some s' \<Longrightarrow> udp_step s s'"
| remote: "i < length (us_conns s) \<Longrightarrow> handleRemote res i s = Some s' \<Longrightarrow> udp_step s s'"
| health: "i < length (us_conns s) \<Longrightarrow> cn_checking (us_conns s ! i) \<Longrightarrow> udp_step s (healthCheck i s)"
| tick: "us_now s \<le> t \<Longrightarrow> udp_step s (s\<lparr>us_now := t\<rparr>)"

section \<open>Invariant\<close>

definition conn_inv :: "connector \<Rightarrow> bool" where
  "conn_inv c \<longleftrightarrow>
     (\<forall>d \<in> set (ch_buf (cn_inboundQueue c)) \<union> set (cn_sent c). fst d = cn_srcAddr c) \<and>
     (ch_closed (cn_inboundQueue c) \<longleftrightarrow> \<not> cn_checking c) \<and>
     (ch_closed (cn_inboundQueue c) \<longrightarrow> cn_closed c) \<and>
     (cn_remoteClosed c \<longleftrightarrow> cn_closed c) \<and>
     chan_wf (cn_inboundQueue c) \<and> ch_cap (cn_inboundQueue c) = InboundQueueSize"

definition owned :: "udp_sys \<Rightarrow> nat \<Rightarrow> string \<Rightarrow> bool" where
  "owned s i src \<longleftrightarrow> i < length (us_conns s) \<and> cn_srcAddr (us_conns s ! i) = src"

fun task_inv :: "udp_sys \<Rightarrow> first_task \<Rightarrow> bool" where
  "task_inv s (Dialing d) = True"
| "task_inv s (Storing d i) = owned s i (fst d)"
| "task_inv s (Sending d i) = owned s i (fst d)"

definition udp_inv :: "udp_sys \<Rightarrow> bool" where
  "udp_inv s \<longleftrightarrow>
     (\<forall>c \<in> set (us_conns s). conn_inv c) \<and>
     (\<forall>src i. us_udpConns s src = Some i \<longrightarrow> owned s i src) \<and>
     (\<forall>t \<in> set (us_tasks s). task_inv s t) \<and>
     (\<forall>x \<in> set (ch_buf (us_outbound s)) \<union> set (us_delivered s). owned s (fst x) (fst (snd x))) \<and>
     \<not> ch_closed (us_outbound s)"

text \<open>Replacing a connector by one with the same source keeps all but its own conditions.\<close>

lemma set_conn_simps [simp]:
  "us_udpConns (set_conn i c s) = us_udpConns s" "us_tasks (set_conn i c s) = us_tasks s"
  "us_outbound (set_conn i c s) = us_outbound s" "us_delivered (set_conn i c s) = us_delivered s"
  "length (us_conns (set_conn i c s)) = length (us_conns s)"
  by (simp_all add: set_conn_def)

lemma owned_set_conn:
  assumes "cn_srcAddr c = cn_srcAddr (us_conns s ! i)"
  shows "owned (set_conn i c s) j src = owned s j src"
  using assms by (cases "i = j") (auto simp: owned_def set_conn_def)

lemma task_inv_owned: "(\<And>j src. owned s' j src = owned s j src) \<Longrightarrow> task_inv s' t = task_inv s t"
  by (cases t) simp_all

lemma udp_inv_set_conn:
  assumes "udp_inv s" "conn_inv c" "cn_srcAddr c = cn_srcAddr (us_conns s ! i)"
  shows "udp_inv (set_conn i c s)"
proof -
  note o = owned_set_conn [OF assms(3)]
  have "\<forall>x \<in> set (us_conns (set_conn i c s)). conn_inv x"
    using assms(1,2) set_update_subset_insert [of "us_conns s" i c]
    unfolding udp_inv_def set_conn_def by (simp add: subset_iff) blast
  with assms(1) show ?thesis
    unfolding udp_inv_def by (simp add: o task_inv_owned [OF o])
qed

lemma owned_cong: "us_conns s' = us_conns s \<Longrightarrow> owned s' = owned s"
  by (auto simp: owned_def fun_eq_iff)

lemma udp_inv_frame:
  assumes "udp_inv s" "us_conns s' = us_conns s"
    and "\<And>src i. us_udpConns s' src = Some i \<Longrightarrow> owned s i src"
    and "\<And>t. t \<in> set (us_tasks s') \<Longrightarrow> task_inv s t"
    and "\<And>x. x \<in> set (ch_buf (us_outbound s')) \<union> set (us_delivered s') \<Longrightarrow> owned s (fst x) (fst (snd x))"
    and "\<not> ch_closed (us_outbound s')"
  shows "udp_inv s'"
proof -
  note o = owned_cong [OF assms(2)]
  have "task_inv s' t = task_inv s t" for t by (rule task_inv_owned) (simp add: o)
  with assms o show ?thesis by (simp add: udp_inv_def)
qed

lemma udp_inv_parts:
  assumes "udp_inv s"
  shows "i < length (us_conns s) \<Longrightarrow> conn_inv (us_conns s ! i)"
    and "us_udpConns s src = Some i \<Longrightarrow> owned s i src"
    and "t \<in> set (us_tasks s) \<Longrightarrow> task_inv s t"
    and "x \<in> set (ch_buf (us_outbound s)) \<Longrightarrow> owned s (fst x) (fst (snd x))"
    and "x \<in> set (us_delivered s) \<Longrightarrow> owned s (fst x) (fst (snd x))"
    and "\<not> ch_closed (us_outbound s)"
  using assms by (simp_all add: udp_inv_def)

lemma enqueue_inv:
  assumes "conn_inv c" "fst d = cn_srcAddr c" "chan_send d (cn_inboundQueue c) = SendOk q"
  shows "conn_inv (c\<lparr>cn_inboundQueue := q\<rparr>)"
  using assms chan_send_wf [OF _ assms(3)] by (auto simp: conn_inv_def chan_send_Ok_iff)

lemma owned_frames [simp]:
  "owned (s\<lparr>us_tasks := x1\<rparr>) = owned s" "owned (s\<lparr>us_udpConns := x2\<rparr>) = owned s"
  "owned (s\<lparr>us_panic := x3\<rparr>) = owned s" "owned (s\<lparr>us_now := x4\<rparr>) = owned s"
  by (rule owned_cong, simp)+

lemma task_inv_frames [simp]:
  "task_inv (s\<lparr>us_tasks := x1\<rparr>) t = task_inv s t" "task_inv (s\<lparr>us_udpConns := x2\<rparr>) t = task_inv s t"
  "task_inv (s\<lparr>us_panic := x3\<rparr>) t = task_inv s t" "task_inv (s\<lparr>us_now := x4\<rparr>) t = task_inv s t"
  by (rule task_inv_owned, simp)+

lemma udp_inv_tasks:
  "udp_inv s \<Longrightarrow> (\<forall>t \<in> set ts. task_inv s t) \<Longrightarrow> udp_inv (s\<lparr>us_tasks := ts\<rparr>)"
  by (simp add: udp_inv_def)

lemma udp_inv_panic: "udp_inv s \<Longrightarrow> udp_inv (s\<lparr>us_panic := True\<rparr>)"
  by (simp add: udp_inv_def)

lemma udp_inv_map:
  "udp_inv s \<Longrightarrow> (\<forall>src i. m src = Some i \<longrightarrow> owned s i src) \<Longrightarrow> udp_inv (s\<lparr>us_udpConns := m\<rparr>)"
  by (simp add: udp_inv_def)

lemma udp_inv_unmap: "udp_inv s \<Longrightarrow> udp_inv (s\<lparr>us_udpConns := (us_udpConns s)(k := None)\<rparr>)"
  by (rule udp_inv_map) (auto simp: udp_inv_def)

lemma recv_preserves:
  assumes inv: "udp_inv s" and r: "UdpListen_recv d s = Some s'"
  shows "udp_inv s'"
proof (cases "us_udpConns s (fst d)")
  case None
  with r have "s' = s\<lparr>us_tasks := us_tasks s @ [Dialing d]\<rparr>" by (simp add: UdpListen_recv_def)
  moreover have "\<forall>t \<in> set (us_tasks s @ [Dialing d]). task_inv s t"
    using udp_inv_parts(3) [OF inv] by auto
  ultimately show ?thesis by (simp add: udp_inv_tasks [OF inv])
next
  case (Some i)
  then have o: "i < length (us_conns s)" "fst d = cn_srcAddr (us_conns s ! i)"
    using udp_inv_parts(2) [OF inv] by (auto simp: owned_def)
  note e = enqueue_inv [OF udp_inv_parts(1) [OF inv o(1)] o(2)]
  show ?thesis
  proof (cases "cn_closed (us_conns s ! i)")
    case True
    with r Some inv show ?thesis by (simp add: UdpListen_recv_def Let_def)
  next
    case False
    with r Some inv e show ?thesis
      by (cases "chan_send d (cn_inboundQueue (us_conns s ! i))")
        (auto simp: UdpListen_recv_def Let_def udp_inv_panic intro!: udp_inv_set_conn)
  qed
qed

text \<open>A new connector takes the next place; nobody else's changes.\<close>

lemma udp_inv_new_conn:
  assumes inv: "udp_inv s" and c: "conn_inv c"
  shows "udp_inv (s\<lparr>us_conns := us_conns s @ [c]\<rparr>)"
    and "owned s j src \<Longrightarrow> owned (s\<lparr>us_conns := us_conns s @ [c]\<rparr>) j src"
    and "owned (s\<lparr>us_conns := us_conns s @ [c]\<rparr>) (length (us_conns s)) (cn_srcAddr c)"
    and "task_inv s t \<Longrightarrow> task_inv (s\<lparr>us_conns := us_conns s @ [c]\<rparr>) t"
proof -
  let ?s = "s\<lparr>us_conns := us_conns s @ [c]\<rparr>"
  show own: "owned ?s j src" if "owned s j src" for j src
    using that by (auto simp: owned_def nth_append)
  then show tk: "task_inv ?s t" if "task_inv s t" for t using that by (cases t) auto
  show "owned ?s (length (us_conns s)) (cn_srcAddr c)" by (simp add: owned_def)
  have "owned ?s (fst x) (fst (snd x))" if "x \<in> set (ch_buf (us_outbound s)) \<union> set (us_delivered s)" for x
    using that udp_inv_parts(4,5) [OF inv, of x] own by blast
  with own tk inv c show "udp_inv ?s"
    unfolding udp_inv_def by simp
qed

lemma enqueue_preserves:
  assumes inv: "udp_inv s" and o: "owned s i (fst d)" and q: "chan_send d (cn_inboundQueue (us_conns s ! i)) = SendOk q"
  shows "udp_inv (set_conn i ((us_conns s ! i)\<lparr>cn_inboundQueue := q\<rparr>) s)"
proof -
  have "i < length (us_conns s)" "fst d = cn_srcAddr (us_conns s ! i)" using o by (auto simp: owned_def)
  from enqueue_inv [OF udp_inv_parts(1) [OF inv this(1)] this(2) q] show ?thesis
    by (rule udp_inv_set_conn [OF inv]) simp
qed

lemma task_preserves:
  assumes inv: "udp_inv s" and ts: "us_tasks s = ts @ t # us" and st: "task_step dialled t s = Some (r, s')"
  shows "udp_inv (s'\<lparr>us_tasks := ts @ (case r of None \<Rightarrow> [] | Some t' \<Rightarrow> [t']) @ us\<rparr>)"
proof -
  have rest: "task_inv s x" if "x \<in> set ts \<union> set us" for x
    using udp_inv_parts(3) [OF inv] ts that by auto
  have drop: "udp_inv (s\<lparr>us_tasks := ts @ us\<rparr>)"
    using rest by (intro udp_inv_tasks [OF inv]) auto
  show ?thesis
  proof (cases t)
    case (Dialing d)
    show ?thesis
    proof (cases "Udp_NewConn dialled (fst d) s")
      case (Some c)
      then have c: "conn_inv c" "cn_srcAddr c = fst d"
        by (auto simp: Udp_NewConn_def conn_inv_def split: if_splits)
      note new = udp_inv_new_conn [OF inv c(1)]
      from udp_inv_tasks [OF new(1), of "ts @ Storing d (length (us_conns s)) # us"] new(3,4) rest c(2)
        st Dialing Some show ?thesis by (auto simp: task_step_def)
    qed (use st Dialing drop in \<open>simp add: task_step_def\<close>)
  next
    case (Storing d i)
    have o: "owned s i (fst d)" using udp_inv_parts(3) [OF inv, of t] ts Storing by simp
    have "udp_inv (s\<lparr>us_udpConns := (us_udpConns s)(fst d \<mapsto> i)\<rparr>)" (is "udp_inv ?t")
      using o udp_inv_parts(2) [OF inv] by (intro udp_inv_map [OF inv]) (auto split: if_splits)
    then have "udp_inv (?t\<lparr>us_tasks := ts @ Sending d i # us\<rparr>)"
      using o rest by (intro udp_inv_tasks) auto
    with st Storing show ?thesis by (auto simp: task_step_def)
  next
    case (Sending d i)
    have "owned s i (fst d)" using udp_inv_parts(3) [OF inv, of t] ts Sending by simp
    with enqueue_preserves [OF drop, of i d]
    have "udp_inv (set_conn i ((us_conns s ! i)\<lparr>cn_inboundQueue := q\<rparr>) (s\<lparr>us_tasks := ts @ us\<rparr>))"
      if "chan_send d (cn_inboundQueue (us_conns s ! i)) = SendOk q" for q using that by simp
    moreover have "(set_conn i x s)\<lparr>us_tasks := y\<rparr> = set_conn i x (s\<lparr>us_tasks := y\<rparr>)" for x y
      by (cases s) (simp add: set_conn_def)
    moreover have "udp_inv (s\<lparr>us_panic := True, us_tasks := ts @ us\<rparr>)"
      using drop by (simp add: udp_inv_def)
    ultimately show ?thesis
      using st Sending by (auto simp: task_step_def Let_def split: send_result.splits)
  qed
qed

lemma inbound_preserves:
  assumes inv: "udp_inv s" and i: "i < length (us_conns s)" and st: "processInboundQueue ok i s = Some s'"
  shows "udp_inv s'"
proof -
  let ?c = "us_conns s ! i"
  from st obtain d q where r: "chan_recv (cn_inboundQueue ?c) = RecvVal d q"
    and s': "s' = set_conn i (?c\<lparr>cn_inboundQueue := q,
      cn_sent := (if ok then cn_sent ?c @ [d] else cn_sent ?c)\<rparr>) s"
    by (auto simp: processInboundQueue_def Let_def split: recv_result.splits)
  have "conn_inv (?c\<lparr>cn_inboundQueue := q, cn_sent := (if ok then cn_sent ?c @ [d] else cn_sent ?c)\<rparr>)"
    using udp_inv_parts(1) [OF inv i] r chan_recv_wf [OF _ r]
    by (auto simp: conn_inv_def chan_recv_Val_iff)
  with s' show ?thesis by (simp add: udp_inv_set_conn [OF inv])
qed

lemma outbound_preserves:
  assumes inv: "udp_inv s" and st: "processOutboundQueue ok s = Some s'"
  shows "udp_inv s'"
proof -
  from st obtain x q where r: "chan_recv (us_outbound s) = RecvVal x q"
    and s': "s' = s\<lparr>us_outbound := q, us_delivered := (if ok then us_delivered s @ [x] else us_delivered s)\<rparr>"
    by (auto simp: processOutboundQueue_def split: recv_result.splits)
  from r obtain xs where q: "ch_buf (us_outbound s) = x # xs" "q = (us_outbound s)\<lparr>ch_buf := xs\<rparr>"
    by (auto simp: chan_recv_Val_iff)
  show ?thesis
  proof (rule udp_inv_frame [OF inv])
    fix y
    assume "y \<in> set (ch_buf (us_outbound s')) \<union> set (us_delivered s')"
    then have "y \<in> set (ch_buf (us_outbound s)) \<or> y \<in> set (us_delivered s)"
      using s' q by (auto split: if_splits)
    then show "owned s (fst y) (fst (snd y))" using udp_inv_parts(4,5) [OF inv] by blast
  qed (use s' q udp_inv_parts(2,3,6) [OF inv] in simp_all)
qed

lemma handleRemote_cases:
  assumes st: "handleRemote res i s = Some s'"
  obtains (own) c' where "s' = set_conn i c' s" "cn_srcAddr c' = cn_srcAddr (us_conns s ! i)"
      "conn_inv (us_conns s ! i) \<Longrightarrow> conn_inv c'"
  | (forget) c' where "s' = (set_conn i c' s)\<lparr>us_udpConns := (us_udpConns s)(cn_srcAddr (us_conns s ! i) := None)\<rparr>"
      "cn_srcAddr c' = cn_srcAddr (us_conns s ! i)" "conn_inv (us_conns s ! i) \<Longrightarrow> conn_inv c'"
  | (push) b q where "chan_send (i, cn_srcAddr (us_conns s ! i), b) (us_outbound s) = SendOk q"
      "s' = (set_conn i ((us_conns s ! i)\<lparr>cn_remote := Testing\<rparr>) s)\<lparr>us_outbound := q\<rparr>"
  | (panic) "s' = s\<lparr>us_panic := True\<rparr>" "ch_closed (us_outbound s)"
proof (cases "cn_remote (us_conns s ! i)")
  case Testing
  with st show ?thesis
    by (intro own [of "if cn_closed (us_conns s ! i) then (us_conns s ! i)\<lparr>cn_remote := Returned\<rparr>
          else ReadFromRemote (us_now s) (us_conns s ! i)"])
      (auto simp: handleRemote_def ReadFromRemote_def conn_inv_def Let_def split: if_splits)
next
  case Reading
  show ?thesis
  proof (cases res)
    case (Inl e)
    with st Reading show ?thesis
      by (intro forget [of "(us_conns s ! i)\<lparr>cn_closed := True, cn_remoteClosed := True, cn_remote := Returned\<rparr>"])
        (auto simp: handleRemote_def conn_inv_def Let_def)
  next
    case (Inr b)
    with st Reading show ?thesis
      by (intro own [of "(us_conns s ! i)\<lparr>cn_remote := Pushing b\<rparr>"])
        (auto simp: handleRemote_def conn_inv_def Let_def)
  qed
next
  case (Pushing b)
  with st show ?thesis
    by (cases "chan_send (i, cn_srcAddr (us_conns s ! i), b) (us_outbound s)")
      (auto simp: handleRemote_def Let_def chan_send_def split: if_splits intro: push panic)
qed (use st in \<open>simp add: handleRemote_def Let_def\<close>)

lemma remote_preserves:
  assumes inv: "udp_inv s" and i: "i < length (us_conns s)" and st: "handleRemote res i s = Some s'"
  shows "udp_inv s'"
  using st
proof (cases rule: handleRemote_cases)
  case (own c')
  with udp_inv_set_conn [OF inv, of c' i] udp_inv_parts(1) [OF inv i] show ?thesis by simp
next
  case (forget c')
  with udp_inv_set_conn [OF inv, of c' i] udp_inv_parts(1) [OF inv i] have "udp_inv (set_conn i c' s)" by simp
  from udp_inv_unmap [OF this] forget show ?thesis by simp
next
  case (push b q)
  let ?c = "us_conns s ! i"
  let ?t = "set_conn i (?c\<lparr>cn_remote := Testing\<rparr>) s"
  have "conn_inv (?c\<lparr>cn_remote := Testing\<rparr>)" using udp_inv_parts(1) [OF inv i] by (simp add: conn_inv_def)
  then have t: "udp_inv ?t" by (rule udp_inv_set_conn [OF inv]) simp
  have own: "owned ?t i (cn_srcAddr ?c)" using i by (simp add: owned_def set_conn_def)
  show ?thesis
  proof (rule udp_inv_frame [OF t])
    fix y
    assume "y \<in> set (ch_buf (us_outbound s')) \<union> set (us_delivered s')"
    then have "y = (i, cn_srcAddr ?c, b) \<or> y \<in> set (ch_buf (us_outbound ?t)) \<or> y \<in> set (us_delivered ?t)"
      using push by (auto simp: chan_send_Ok_iff)
    then show "owned ?t (fst y) (fst (snd y))"
      by (elim disjE) (simp add: own, rule udp_inv_parts(4) [OF t], assumption,
          rule udp_inv_parts(5) [OF t], assumption)
  qed (use push udp_inv_parts(2,3,6) [OF t] in \<open>simp_all add: chan_send_Ok_iff\<close>)
qed (simp add: udp_inv_panic [OF inv])

lemma health_preserves:
  assumes inv: "udp_inv s" and i: "i < length (us_conns s)"
  shows "udp_inv (healthCheck i s)"
proof -
  let ?c = "us_conns s ! i"
  have "udp_inv (set_conn i (?c\<lparr>cn_closed := True, cn_inboundQueue := q, cn_remoteClosed := True,
      cn_checking := False\<rparr>) s)" if "chan_close (cn_inboundQueue ?c) = Some q" for q
  proof (rule udp_inv_set_conn [OF inv])
    show "conn_inv (?c\<lparr>cn_closed := True, cn_inboundQueue := q, cn_remoteClosed := True, cn_checking := False\<rparr>)"
      using udp_inv_parts(1) [OF inv i] that
      by (auto simp: conn_inv_def chan_close_def chan_wf_def split: if_splits)
  qed simp
  from udp_inv_unmap [OF this] inv show ?thesis
    by (auto simp: healthCheck_def Let_def udp_inv_panic split: option.splits)
qed

lemma udp_inv_step:
  assumes inv: "udp_inv s" and "udp_step s s'"
  shows "udp_inv s'"
  using assms(2)
proof cases
  case (recv d)
  then show ?thesis by (rule recv_preserves [OF inv])
next
  case (task ts t us dialled r s1)
  then show ?thesis using task_preserves [OF inv] by blast
next
  case (inbound i ok)
  then show ?thesis using inbound_preserves [OF inv] by blast
next
  case (outbound ok)
  then show ?thesis by (rule outbound_preserves [OF inv])
next
  case (remote i res)
  then show ?thesis using remote_preserves [OF inv] by blast
next
  case (health i)
  then show ?thesis using health_preserves [OF inv] by blast
next
  case (tick t)
  with inv show ?thesis by (simp add: udp_inv_def)
qed

interpretation udp_tunnel: invariant_system "\<lambda>s. \<exists>t. s = udp_start t" udp_step udp_inv
proof unfold_locales
  show "udp_inv s" if "\<exists>t. s = udp_start t" for s
    using that by (auto simp: udp_inv_def udp_start_def)
qed (rule udp_inv_step)

lemma udp_reachable:
  assumes "udp_step\<^sup>*\<^sup>* (udp_start t) s"
  shows "udp_inv s"
  using udp_tunnel.reachable_inv [OF _ assms] by blast

section \<open>Properties\<close>

definition demo_dgram :: datagram where "demo_dgram = (''10.0.0.2:9'', [1])"

definition demo_conn :: connector where
  "demo_conn = the (Udp_NewConn True (fst demo_dgram) (udp_start 60))"

text \<open>Two datagrams of one source, both received before a connector is stored; each gets its own.\<close>

definition race_state :: "first_task list \<Rightarrow> connector list \<Rightarrow> (string \<rightharpoonup> nat) \<Rightarrow> udp_sys" where
  "race_state ts cs m = (udp_start 60)\<lparr>us_tasks := ts, us_conns := cs, us_udpConns := m\<rparr>"

lemma race_start: "udp_start 60 = race_state [] [] Map.empty"
  by (simp add: race_state_def udp_start_def)

lemma race_recv: "m (fst demo_dgram) = None \<Longrightarrow>
    udp_step (race_state ts cs m) (race_state (ts @ [Dialing demo_dgram]) cs m)"
  by (rule udp_step.recv [of demo_dgram]) (simp add: UdpListen_recv_def race_state_def)

lemma race_dial: "udp_step (race_state (ts @ Dialing demo_dgram # us) cs m)
    (race_state (ts @ Storing demo_dgram (length cs) # us) (cs @ [demo_conn]) m)"
  using udp_step.task [of "race_state (ts @ Dialing demo_dgram # us) cs m" ts "Dialing demo_dgram" us True]
  by (simp add: race_state_def task_step_def Udp_NewConn_def demo_conn_def udp_start_def)

lemma race_store: "udp_step (race_state (ts @ Storing demo_dgram i # us) cs m)
    (race_state (ts @ Sending demo_dgram i # us) cs (m(fst demo_dgram \<mapsto> i)))"
  using udp_step.task [of "race_state (ts @ Storing demo_dgram i # us) cs m" ts "Storing demo_dgram i" us True]
  by (simp add: race_state_def task_step_def udp_start_def)

lemma demo_conn_simps [simp]:
  "\<not> cn_closed demo_conn" "cn_remote demo_conn = Testing" "cn_srcAddr demo_conn = fst demo_dgram"
  "ch_buf (cn_inboundQueue demo_conn) = []" "\<not> ch_closed (cn_inboundQueue demo_conn)"
  by (simp_all add: demo_conn_def Udp_NewConn_def)

definition race_mid :: udp_sys where
  "race_mid = race_state [Sending demo_dgram 0, Sending demo_dgram 1] [demo_conn, demo_conn]
     [fst demo_dgram \<mapsto> 1]"

lemma race_mid_conn: "us_conns race_mid ! 1 \<in> set (us_conns race_mid)"
  by (simp add: race_mid_def race_state_def)

lemma race_mid_reachable: "udp_step\<^sup>*\<^sup>* (udp_start 60) race_mid"
proof -
  have "udp_step\<^sup>*\<^sup>* (udp_start 60) (race_state [Dialing demo_dgram] [] Map.empty)"
    using race_recv [of Map.empty "[]" "[]"] by (simp add: race_start r_into_rtranclp)
  also have "udp_step \<dots> (race_state [Dialing demo_dgram, Dialing demo_dgram] [] Map.empty)"
    using race_recv [of Map.empty "[Dialing demo_dgram]" "[]"] by simp
  also have "udp_step \<dots> (race_state [Storing demo_dgram 0, Dialing demo_dgram] [demo_conn] Map.empty)"
    using race_dial [of "[]" "[Dialing demo_dgram]" "[]" Map.empty] by simp
  also have "udp_step \<dots> (race_state [Storing demo_dgram 0, Storing demo_dgram 1] [demo_conn, demo_conn] Map.empty)"
    using race_dial [of "[Storing demo_dgram 0]" "[]" "[demo_conn]" Map.empty] by simp
  also have "udp_step \<dots> (race_state [Sending demo_dgram 0, Storing demo_dgram 1] [demo_conn, demo_conn]
      [fst demo_dgram \<mapsto> 0])"
    using race_store [of "[]" 0 "[Storing demo_dgram 1]" _ Map.empty] by simp
  also have "udp_step \<dots> race_mid"
    using race_store [of "[Sending demo_dgram 0]" 1 "[]" "[demo_conn, demo_conn]" "[fst demo_dgram \<mapsto> 0]"] by (simp add: race_mid_def)
  finally show ?thesis .
qed

text \<open>The steps that can panic.\<close>

lemma recv_no_panic:
  assumes inv: "udp_inv s" and r: "UdpListen_recv d s = Some s'"
  shows "us_panic s' = us_panic s"
proof (cases "us_udpConns s (fst d)")
  case (Some i)
  then have "conn_inv (us_conns s ! i)"
    using udp_inv_parts(1,2) [OF inv] by (simp add: owned_def)
  then have "chan_send d (cn_inboundQueue (us_conns s ! i)) \<noteq> SendPanic"
    if "\<not> cn_closed (us_conns s ! i)"
    using that by (auto simp: conn_inv_def chan_send_def)
  with r Some show ?thesis
    by (auto simp: UdpListen_recv_def Let_def set_conn_def split: if_splits send_result.splits)
qed (use r in \<open>auto simp: UdpListen_recv_def\<close>)

lemma set_conn_panic [simp]: "us_panic (set_conn i c s) = us_panic s"
  by (simp add: set_conn_def)

lemma step_panics:
  assumes inv: "udp_inv s" and st: "udp_step s s'" and p: "us_panic s'" "\<not> us_panic s"
  shows "\<exists>d i. Sending d i \<in> set (us_tasks s) \<and> owned s i (fst d) \<and>
    ch_closed (cn_inboundQueue (us_conns s ! i)) \<and> \<not> cn_checking (us_conns s ! i)"
  using st
proof cases
  case (recv d)
  with recv_no_panic [OF inv] p show ?thesis by blast
next
  case (task ts t us dialled r s1)
  then obtain d i where t: "t = Sending d i"
    and "chan_send d (cn_inboundQueue (us_conns s ! i)) = SendPanic"
    using p by (cases t) (auto simp: task_step_def Let_def split: option.splits send_result.splits)
  then have c: "ch_closed (cn_inboundQueue (us_conns s ! i))" by (auto simp: chan_send_def split: if_splits)
  have m: "t \<in> set (us_tasks s)" using task by simp
  then have o: "owned s i (fst d)" using udp_inv_parts(3) [OF inv m] t by simp
  then have "\<not> cn_checking (us_conns s ! i)"
    using udp_inv_parts(1) [OF inv] c by (simp add: owned_def conn_inv_def)
  with m t o c show ?thesis by blast
next
  case (inbound i ok)
  with p show ?thesis by (auto simp: processInboundQueue_def Let_def split: recv_result.splits)
next
  case (outbound ok)
  with p show ?thesis by (auto simp: processOutboundQueue_def split: recv_result.splits)
next
  case (remote i res)
  from remote(2) show ?thesis
    by (cases rule: handleRemote_cases) (use p udp_inv_parts(6) [OF inv] in auto)
next
  case (health i)
  with udp_inv_parts(1) [OF inv health(2)] p show ?thesis
    by (auto simp: healthCheck_def Let_def chan_close_def conn_inv_def split: if_splits)
next
  case (tick t)
  with p show ?thesis by simp
qed

text \<open>
  A goroutine that is held up before its send: the connector is made and stored, its time runs out, the
  health check closes the queue, and the send panics.
\<close>

lemma held_up_panics: "\<exists>s. udp_step\<^sup>*\<^sup>* (udp_start t) s \<and> us_panic s"
proof -
  let ?s0 = "udp_start t" and ?d = demo_dgram
  let ?c = "the (Udp_NewConn True (fst ?d) ?s0)"
  let ?s1 = "?s0\<lparr>us_tasks := [Dialing ?d]\<rparr>"
  let ?s2 = "?s0\<lparr>us_tasks := [Storing ?d 0], us_conns := [?c]\<rparr>"
  let ?s3 = "?s0\<lparr>us_tasks := [Sending ?d 0], us_conns := [?c], us_udpConns := [fst ?d \<mapsto> 0]\<rparr>"
  let ?s4 = "?s3\<lparr>us_now := cn_idleTimeout ?c + 1\<rparr>"
  let ?s5 = "healthCheck 0 ?s4"
  let ?s6 = "?s5\<lparr>us_panic := True, us_tasks := []\<rparr>"
  have "udp_step\<^sup>*\<^sup>* ?s0 ?s1"
    using udp_step.recv [of ?d ?s0 ?s1] by (simp add: UdpListen_recv_def udp_start_def r_into_rtranclp)
  also have "udp_step ?s1 ?s2"
    using udp_step.task [of ?s1 "[]" "Dialing ?d" "[]" True "Some (Storing ?d 0)" "?s1\<lparr>us_conns := [?c]\<rparr>"]
    by (simp add: task_step_def Udp_NewConn_def udp_start_def)
  also have "udp_step ?s2 ?s3"
    using udp_step.task [of ?s2 "[]" "Storing ?d 0" "[]" True "Some (Sending ?d 0)" "?s2\<lparr>us_udpConns := [fst ?d \<mapsto> 0]\<rparr>"]
    by (simp add: task_step_def udp_start_def)
  also have "udp_step ?s3 ?s4"
    by (rule udp_step.tick) (simp add: Udp_NewConn_def udp_start_def)
  also have "udp_step ?s4 ?s5"
    by (rule udp_step.health) (simp_all add: Udp_NewConn_def)
  also have "udp_step ?s5 ?s6"
    using udp_step.task [of ?s5 "[]" "Sending ?d 0" "[]" True None "?s5\<lparr>us_panic := True\<rparr>"]
    by (simp add: task_step_def healthCheck_def Udp_NewConn_def udp_start_def chan_close_def make_chan_def
        set_conn_def chan_send_def)
  finally show ?thesis by (intro exI [of _ ?s6]) simp
qed

text \<open>
  C7. No cross-talk, under every interleaving of the listener, the connectors' goroutines and time:
  a connector only ever queues and sends datagrams of its own source, and an answer is delivered to
  the source of the connector that read it; a connector's queue never exceeds its bound.
\<close>

theorem udp_no_crosstalk:
  assumes "udp_step\<^sup>*\<^sup>* (udp_start t) s"
  shows "(\<forall>c \<in> set (us_conns s).
      (\<forall>d \<in> set (ch_buf (cn_inboundQueue c)) \<union> set (cn_sent c). fst d = cn_srcAddr c) \<and>
      length (ch_buf (cn_inboundQueue c)) \<le> InboundQueueSize) \<and>
    (\<forall>(i, d) \<in> set (us_delivered s). i < length (us_conns s) \<and> fst d = cn_srcAddr (us_conns s ! i))"
proof -
  have inv: "udp_inv s" by (rule udp_reachable [OF assms])
  have "i < length (us_conns s) \<and> fst d = cn_srcAddr (us_conns s ! i)" if "(i, d) \<in> set (us_delivered s)" for i d
    using udp_inv_parts(5) [OF inv that] by (simp add: owned_def)
  with inv show ?thesis by (auto simp: udp_inv_def conn_inv_def chan_wf_def)
qed

theorem udp_no_crosstalk_witness:
  "udp_step\<^sup>*\<^sup>* (udp_start 60) race_mid \<and>
   length (ch_buf (cn_inboundQueue (us_conns race_mid ! 1))) \<le> InboundQueueSize"
  using udp_no_crosstalk [OF race_mid_reachable] race_mid_reachable race_mid_conn by blast

text \<open>
  C26. Who can panic. The receive loop never sends on a closed queue, whose lock and flag it respects, and
  no queue is closed twice: a health check on a connector that read nothing for longer than its timeout
  closes it, its queue and its websocket, and forgets its source; one within the timeout changes nothing.
  A connector is marked closed exactly when its websocket is. The goroutine that \<open>UdpListen\<close> starts for
  the first datagram of a source takes no lock: every panic is such a goroutine's send on the queue of a
  connector that its health check has closed, and this does happen, when the goroutine is held up for
  longer than the timeout between making the connector and the send.
\<close>

theorem udp_listener_safe:
  assumes "udp_step\<^sup>*\<^sup>* (udp_start t) s"
  shows "(\<forall>d s'. UdpListen_recv d s = Some s' \<longrightarrow> us_panic s' = us_panic s) \<and>
    (\<forall>i < length (us_conns s). cn_checking (us_conns s ! i) \<longrightarrow>
      (let c = us_conns s ! i; s' = healthCheck i s; c' = us_conns s' ! i in
       us_panic s' = us_panic s \<and>
       (if us_now s > cn_lastRecvTime c + cn_idleTimeout c
        then cn_closed c' \<and> cn_remoteClosed c' \<and> ch_closed (cn_inboundQueue c') \<and>
             us_udpConns s' (cn_srcAddr c) = None
        else s' = s))) \<and>
    (\<forall>c \<in> set (us_conns s). cn_remoteClosed c \<longleftrightarrow> cn_closed c) \<and>
    (\<forall>s'. udp_step s s' \<and> us_panic s' \<and> \<not> us_panic s \<longrightarrow>
      (\<exists>d i. Sending d i \<in> set (us_tasks s) \<and> owned s i (fst d) \<and> ch_closed (cn_inboundQueue (us_conns s ! i)) \<and>
        \<not> cn_checking (us_conns s ! i))) \<and>
    (\<exists>s'. udp_step\<^sup>*\<^sup>* (udp_start t) s' \<and> us_panic s')"
proof (intro conjI)
  have inv: "udp_inv s" by (rule udp_reachable [OF assms])
  show "\<forall>d s'. UdpListen_recv d s = Some s' \<longrightarrow> us_panic s' = us_panic s"
    using recv_no_panic [OF inv] by blast
  show "\<forall>i < length (us_conns s). cn_checking (us_conns s ! i) \<longrightarrow>
      (let c = us_conns s ! i; s' = healthCheck i s; c' = us_conns s' ! i in
       us_panic s' = us_panic s \<and>
       (if us_now s > cn_lastRecvTime c + cn_idleTimeout c
        then cn_closed c' \<and> cn_remoteClosed c' \<and> ch_closed (cn_inboundQueue c') \<and>
             us_udpConns s' (cn_srcAddr c) = None
        else s' = s))"
    using udp_inv_parts(1) [OF inv] by (simp add: conn_inv_def healthCheck_def Let_def chan_close_def set_conn_def)
  show "\<forall>c \<in> set (us_conns s). cn_remoteClosed c \<longleftrightarrow> cn_closed c"
    using inv by (simp add: udp_inv_def conn_inv_def)
  show "\<forall>s'. udp_step s s' \<and> us_panic s' \<and> \<not> us_panic s \<longrightarrow>
      (\<exists>d i. Sending d i \<in> set (us_tasks s) \<and> owned s i (fst d) \<and> ch_closed (cn_inboundQueue (us_conns s ! i)) \<and>
        \<not> cn_checking (us_conns s ! i))"
    using step_panics [OF inv] by blast
  show "\<exists>s'. udp_step\<^sup>*\<^sup>* (udp_start t) s' \<and> us_panic s'"
    using held_up_panics by blast
qed

theorem udp_listener_safe_witness:
  "udp_step\<^sup>*\<^sup>* (udp_start 60) race_mid \<and>
   (cn_remoteClosed (us_conns race_mid ! 1) \<longleftrightarrow> cn_closed (us_conns race_mid ! 1)) \<and>
   (\<exists>s'. udp_step\<^sup>*\<^sup>* (udp_start 60) s' \<and> us_panic s')"
  using udp_listener_safe [OF race_mid_reachable] race_mid_reachable race_mid_conn by blast

text \<open>
  C40. A live connector can lose its entry: when two datagrams of one source arrive before the first
  connector is stored, each gets a connector, and the end of the first one deletes the source's
  entry although it belongs to the second, which stays open. The next datagram then gets a third.
\<close>

theorem udp_entry_lost:
  "\<exists>s. udp_step\<^sup>*\<^sup>* (udp_start 60) s \<and> us_udpConns s (fst demo_dgram) = None \<and>
     owned s 1 (fst demo_dgram) \<and> \<not> cn_closed (us_conns s ! 1) \<and>
     (\<exists>s'. UdpListen_recv demo_dgram s = Some s' \<and> Dialing demo_dgram \<in> set (us_tasks s'))"
proof -
  let ?r = "the (handleRemote (Inl ErrEOF) 0 race_mid)"
  let ?s = "the (handleRemote (Inl ErrEOF) 0 ?r)"
  note defs = handleRemote_def ReadFromRemote_def race_mid_def race_state_def set_conn_def
  have "udp_step race_mid ?r"
    by (rule udp_step.remote [of 0 _ "Inl ErrEOF"]) (simp_all add: defs Let_def)
  moreover have "udp_step ?r ?s"
    by (rule udp_step.remote [of 0 _ "Inl ErrEOF"]) (simp_all add: defs Let_def)
  moreover have "us_udpConns ?s (fst demo_dgram) = None" "owned ?s 1 (fst demo_dgram)"
    "\<not> cn_closed (us_conns ?s ! 1)"
    by (simp_all add: defs owned_def Let_def)
  moreover have "UdpListen_recv demo_dgram ?s = Some (?s\<lparr>us_tasks := us_tasks ?s @ [Dialing demo_dgram]\<rparr>)"
    using calculation(3) by (simp add: UdpListen_recv_def)
  ultimately show ?thesis
    using race_mid_reachable by (intro exI [of _ ?s]) (auto intro: rtranclp.rtrancl_into_rtrancl)
qed

end
