(* ===== verification/JsonString.thy ===== *)
theory JsonString
  imports Prelude
begin

text \<open>
  Strings in \<open>encoding/json\<close>: quoting with the HTML escapes, the scanner's view of a quoted string and
  unquoting. Go strings are bytes, so UTF-8 is handled by the bytes: \<open>utf8_fix\<close> is what a string becomes
  when it is written and read back, and it is the same string when it is valid.
\<close>

section \<open>UTF-8\<close>

abbreviation code :: "char \<Rightarrow> nat" where "code c \<equiv> of_char c"

definition cont_byte :: "nat \<Rightarrow> nat \<Rightarrow> char \<Rightarrow> bool" where
  "cont_byte lo hi c \<longleftrightarrow> lo \<le> code c \<and> code c \<le> hi"

text \<open>\<open>utf8.DecodeRune\<close> on a byte from 128 on: the length of the valid sequence at the head, if there is one.\<close>

fun utf8_len :: "string \<Rightarrow> nat option" where
  "utf8_len (a # b # s) =
     (let n = code a in
      if 0xC2 \<le> n \<and> n \<le> 0xDF then (if cont_byte 0x80 0xBF b then Some 2 else None)
      else if 0xE0 \<le> n \<and> n \<le> 0xEF then
        (case s of
           c # _ \<Rightarrow>
             if cont_byte (if n = 0xE0 then 0xA0 else 0x80) (if n = 0xED then 0x9F else 0xBF) b \<and> cont_byte 0x80 0xBF c
             then Some 3 else None
         | [] \<Rightarrow> None)
      else if 0xF0 \<le> n \<and> n \<le> 0xF4 then
        (case s of
           c # d # _ \<Rightarrow>
             if cont_byte (if n = 0xF0 then 0x90 else 0x80) (if n = 0xF4 then 0x8F else 0xBF) b \<and>
                cont_byte 0x80 0xBF c \<and> cont_byte 0x80 0xBF d
             then Some 4 else None
         | _ \<Rightarrow> None)
      else None)"
| "utf8_len s = None"

text \<open>\<open>utf8.EncodeRune\<close> of a code point that is no surrogate, and the encoding of U+FFFD.\<close>

definition utf8_encode :: "nat \<Rightarrow> string" where
  "utf8_encode r = map char_of
     (if r < 0x80 then [r]
      else if r < 0x800 then [0xC0 + r div 64, 0x80 + r mod 64]
      else if r < 0x10000 then [0xE0 + r div 4096, 0x80 + r div 64 mod 64, 0x80 + r mod 64]
      else [0xF0 + r div 262144, 0x80 + r div 4096 mod 64, 0x80 + r div 64 mod 64, 0x80 + r mod 64])"

definition replacement :: string where
  "replacement = [CHR 0xEF, CHR 0xBF, CHR 0xBD]"

text \<open>Invalid bytes, one by one, become U+FFFD.\<close>

function utf8_fix :: "string \<Rightarrow> string" where
  "utf8_fix [] = []"
| "utf8_fix (c # cs) =
     (if code c < 128 then c # utf8_fix cs
      else case utf8_len (c # cs) of
             None \<Rightarrow> replacement @ utf8_fix cs
           | Some n \<Rightarrow> take n (c # cs) @ utf8_fix (drop (n - 1) cs))"
  by pat_completeness auto
termination by (relation "measure length") auto

definition valid_utf8 :: "string \<Rightarrow> bool" where
  "valid_utf8 s \<longleftrightarrow> utf8_fix s = s"

section \<open>Strings\<close>

definition hex_digit :: "nat \<Rightarrow> char" where
  "hex_digit n = ''0123456789abcdef'' ! n"

text \<open>\<open>htmlSafeSet\<close>.\<close>

definition html_safe :: "char \<Rightarrow> bool" where
  "html_safe c \<longleftrightarrow> 32 \<le> code c \<and> code c < 128 \<and>
     c \<notin> {CHR 0x22, CHR 0x5C, CHR ''<'', CHR ''>'', CHR ''&''}"

definition escape_char :: "char \<Rightarrow> string" where
  "escape_char c =
     (if c = CHR 0x5C \<or> c = CHR 0x22 then [CHR 0x5C, c]
      else if c = CHR 0x08 then [CHR 0x5C, CHR ''b'']
      else if c = CHR 0x0C then [CHR 0x5C, CHR ''f'']
      else if c = CHR 0x0A then [CHR 0x5C, CHR ''n'']
      else if c = CHR 0x0D then [CHR 0x5C, CHR ''r'']
      else if c = CHR 0x09 then [CHR 0x5C, CHR ''t'']
      else [CHR 0x5C, CHR ''u'', CHR ''0'', CHR ''0'', hex_digit (code c div 16), hex_digit (code c mod 16)])"

definition line_separators :: "string list" where
  "line_separators = [[CHR 0xE2, CHR 0x80, CHR 0xA8], [CHR 0xE2, CHR 0x80, CHR 0xA9]]"

text \<open>\<open>appendString\<close>, without the quotes around.\<close>

function json_quote :: "string \<Rightarrow> string" where
  "json_quote [] = []"
| "json_quote (c # cs) =
     (if code c < 128 then (if html_safe c then [c] else escape_char c) @ json_quote cs
      else case utf8_len (c # cs) of
             None \<Rightarrow> [CHR 0x5C] @ ''ufffd'' @ json_quote cs
           | Some n \<Rightarrow>
               (let u = take n (c # cs) in
                if u \<in> set line_separators then [CHR 0x5C] @ ''u202'' @ [hex_digit (code (last u) mod 16)] else u) @
               json_quote (drop (n - 1) cs))"
  by pat_completeness auto
termination by (relation "measure length") auto

text \<open>\<open>getu4\<close>, without the backslash and the letter: four hexadecimal digits.\<close>

fun get_u4 :: "string \<Rightarrow> nat option" where
  "get_u4 (a # b # c # d # s) = (if list_all is_hex [a, b, c, d] then Some (hex_value [a, b, c, d]) else None)"
| "get_u4 s = None"

text \<open>The scanner on a string behind its opening quote: the text up to the closing one, and what follows it.\<close>

definition scan_cons :: "string \<Rightarrow> (string \<times> string) option \<Rightarrow> (string \<times> string) option" where
  "scan_cons p r = map_option (\<lambda>(raw, rest). (p @ raw, rest)) r"

function scan_string :: "string \<Rightarrow> (string \<times> string) option" where
  "scan_string [] = None"
| "scan_string (c # cs) =
     (if c = CHR 0x22 then Some ([], cs)
      else if c = CHR 0x5C then
        (case cs of
           [] \<Rightarrow> None
         | e # ds \<Rightarrow>
             if e = CHR ''u'' then
               (if get_u4 ds = None then None else scan_cons (c # e # take 4 ds) (scan_string (drop 4 ds)))
             else if e \<in> {CHR ''b'', CHR ''f'', CHR ''n'', CHR ''r'', CHR ''t'', CHR 0x5C, CHR ''/'', CHR 0x22}
             then scan_cons [c, e] (scan_string ds) else None)
      else if code c < 32 then None
      else scan_cons [c] (scan_string cs))"
  by pat_completeness auto
termination by (relation "measure length") auto

fun unescape_char :: "char \<Rightarrow> char" where
  "unescape_char e =
     (if e = CHR ''b'' then CHR 0x08 else if e = CHR ''f'' then CHR 0x0C else if e = CHR ''n'' then CHR 0x0A
      else if e = CHR ''r'' then CHR 0x0D else if e = CHR ''t'' then CHR 0x09 else e)"

definition is_surrogate :: "nat \<Rightarrow> bool" where
  "is_surrogate r \<longleftrightarrow> 0xD800 \<le> r \<and> r < 0xE000"

text \<open>The second half of a surrogate pair behind the first (\<open>utf16.DecodeRune\<close>).\<close>

fun low_surrogate :: "nat \<Rightarrow> string \<Rightarrow> nat option" where
  "low_surrogate r (x # y # s) =
     (if x = CHR 0x5C \<and> y = CHR ''u'' then
        (case get_u4 s of
           None \<Rightarrow> None
         | Some r2 \<Rightarrow>
             if r < 0xDC00 \<and> 0xDC00 \<le> r2 \<and> r2 < 0xE000 then Some ((r - 0xD800) * 0x400 + (r2 - 0xDC00) + 0x10000)
             else None)
      else None)"
| "low_surrogate r s = None"

text \<open>\<open>unquoteBytes\<close> of a text that the scanner has accepted.\<close>

function json_unquote :: "string \<Rightarrow> string" where
  "json_unquote [] = []"
| "json_unquote (c # cs) =
     (if c = CHR 0x5C then
        (case cs of
           [] \<Rightarrow> []
         | e # ds \<Rightarrow>
             if e = CHR ''u'' then
               (case get_u4 ds of
                  None \<Rightarrow> []
                | Some r \<Rightarrow>
                    if is_surrogate r then
                      (case low_surrogate r (drop 4 ds) of
                         Some r' \<Rightarrow> utf8_encode r' @ json_unquote (drop 10 ds)
                       | None \<Rightarrow> replacement @ json_unquote (drop 4 ds))
                    else utf8_encode r @ json_unquote (drop 4 ds))
             else unescape_char e # json_unquote ds)
      else if code c < 128 then c # json_unquote cs
      else case utf8_len (c # cs) of
             None \<Rightarrow> replacement @ json_unquote cs
           | Some n \<Rightarrow> take n (c # cs) @ json_unquote (drop (n - 1) cs))"
  by pat_completeness auto
termination by (relation "measure length") auto

section \<open>Quoting and unquoting\<close>

lemma utf8_len_cases:
  assumes "utf8_len s = Some n"
  shows "2 \<le> n" "n \<le> length s" "\<forall>c \<in> set (take n s). 128 \<le> code c" "utf8_len (take n s @ t) = Some n"
proof -
  from assms obtain a b u where s: "s = a # b # u" by (cases s rule: utf8_len.cases) auto
  show "2 \<le> n" "n \<le> length s" "\<forall>c \<in> set (take n s). 128 \<le> code c" "utf8_len (take n s @ t) = Some n"
    using assms unfolding s by (auto simp: Let_def cont_byte_def split: if_splits list.splits)
qed

lemma hex_val_hex_digit:
  assumes "n < 16"
  shows "hex_val (hex_digit n) = Some n"
proof -
  have "\<forall>k \<in> set [0..<16]. hex_val (hex_digit k) = Some k" by code_simp
  with assms show ?thesis by auto
qed

lemma get_u4_quoted: "n < 256 \<Longrightarrow> get_u4 (CHR ''0'' # CHR ''0'' # hex_digit (n div 16) # hex_digit (n mod 16) # s) = Some n"
proof -
  assume "n < 256"
  then have "n div 16 < 16" "n mod 16 < 16" by auto
  moreover have "hex_val (CHR ''0'') = Some 0" by code_simp
  ultimately show ?thesis by (simp add: is_hex_def hex_val_hex_digit hex_value_def)
qed

lemma json_unquote_escape:
  assumes "code c < 128"
  shows "json_unquote (escape_char c @ s) = c # json_unquote s"
proof -
  have "is_surrogate (code c) = False" "utf8_encode (code c) = [c]"
    using assms by (simp_all add: is_surrogate_def utf8_encode_def)
  with assms get_u4_quoted [of "code c"] show ?thesis by (auto simp: escape_char_def)
qed

lemma json_unquote_valid:
  assumes "128 \<le> code c" "utf8_len (c # cs) = Some n"
  shows "json_unquote (take n (c # cs) @ s) = take n (c # cs) @ json_unquote s"
proof -
  obtain m where m: "n = Suc m" using utf8_len_cases(1) [OF assms(2)] by (cases n) auto
  have "c \<noteq> CHR 0x5C" using assms(1) by auto
  moreover have "utf8_len (c # take m cs @ s) = Some n" using utf8_len_cases(4) [OF assms(2), of s] m by simp
  moreover have "length (take m cs) = m" using utf8_len_cases(2) [OF assms(2)] m by simp
  ultimately show ?thesis using assms(1) m by simp
qed

lemma json_unquote_quote: "json_unquote (json_quote s) = utf8_fix s"
proof (induction s rule: json_quote.induct)
  case (2 c cs)
  have e: "utf8_encode 0xFFFD = replacement" "utf8_encode 0x2028 = line_separators ! 0"
      "utf8_encode 0x2029 = line_separators ! 1"
    unfolding utf8_encode_def replacement_def line_separators_def by (simp, code_simp)+
  have r: "get_u4 (''fffd'' @ json_quote cs) = Some 0xFFFD" "is_surrogate 0xFFFD = False"
    "get_u4 (''2028'' @ t) = Some 0x2028" "is_surrogate 0x2028 = False"
    "get_u4 (''2029'' @ t) = Some 0x2029" "is_surrogate 0x2029 = False" for t
    by (simp_all add: is_hex_def hex_val_def hex_value_def is_surrogate_def)
  show ?case
  proof (cases "code c < 128")
    case True
    with 2 show ?thesis by (auto simp: json_unquote_escape html_safe_def)
  next
    case False
    show ?thesis
    proof (cases "utf8_len (c # cs)")
      case None
      with False 2 r e show ?thesis by simp
    next
      case (Some n)
      let ?u = "take n (c # cs)"
      show ?thesis
      proof (cases "?u \<in> set line_separators")
        case True
        then have "?u = line_separators ! 0 \<or> ?u = line_separators ! 1" by (auto simp: line_separators_def)
        with False True Some 2 r e show ?thesis
          by (auto simp: Let_def line_separators_def hex_digit_def)
      next
        case nosep: False
        with False Some 2 json_unquote_valid [of c cs n] show ?thesis by (simp add: Let_def)
      qed
    qed
  qed
qed simp

lemma scan_cons_append: "scan_cons (p @ q) r = scan_cons p (scan_cons q r)"
  by (cases r) (auto simp: scan_cons_def)

lemma scan_cons_nil [simp]: "scan_cons [] r = r"
  by (cases r) (auto simp: scan_cons_def)

lemma scan_string_plain:
  assumes "\<forall>c \<in> set u. 32 \<le> code c \<and> c \<noteq> CHR 0x22 \<and> c \<noteq> CHR 0x5C"
  shows "scan_string (u @ t) = scan_cons u (scan_string t)"
  using assms
proof (induction u)
  case (Cons c u)
  then show ?case using scan_cons_append [of "[c]" u] by auto
qed simp

lemma scan_string_escape: "code c < 128 \<Longrightarrow> scan_string (escape_char c @ t) = scan_cons (escape_char c) (scan_string t)"
  using get_u4_quoted [of "code c"] by (auto simp: escape_char_def)

lemma scan_string_quote: "scan_string (json_quote s @ t) = scan_cons (json_quote s) (scan_string t)"
proof (induction s rule: json_quote.induct)
  case (2 c cs)
  have x: "scan_string ([CHR 0x5C] @ ''ufffd'' @ z) = scan_cons ([CHR 0x5C] @ ''ufffd'') (scan_string z)"
    "scan_string ([CHR 0x5C] @ ''u2028'' @ z) = scan_cons ([CHR 0x5C] @ ''u2028'') (scan_string z)"
    "scan_string ([CHR 0x5C] @ ''u2029'' @ z) = scan_cons ([CHR 0x5C] @ ''u2029'') (scan_string z)" for z
    by (simp_all add: is_hex_def hex_val_def)
  show ?case
  proof (cases "code c < 128")
    case True
    then have "scan_string ((if html_safe c then [c] else escape_char c) @ z) =
        scan_cons (if html_safe c then [c] else escape_char c) (scan_string z)" for z
      using scan_string_plain [of "[c]"] by (auto simp: scan_string_escape html_safe_def)
    with True 2 show ?thesis by (simp add: scan_cons_append)
  next
    case False
    show ?thesis
    proof (cases "utf8_len (c # cs)")
      case None
      with False 2 x(1) [of "json_quote cs @ t"] show ?thesis
        using scan_cons_append [of "[CHR 0x5C] @ ''ufffd''" "json_quote cs"] by simp
    next
      case (Some n)
      let ?u = "take n (c # cs)"
      define q where "q = (if ?u \<in> set line_separators then [CHR 0x5C] @ ''u202'' @ [hex_digit (code (last ?u) mod 16)] else ?u)"
      have "\<forall>d \<in> set ?u. 32 \<le> code d \<and> d \<noteq> CHR 0x22 \<and> d \<noteq> CHR 0x5C"
        using utf8_len_cases(3) [OF Some] by fastforce
      note plain = scan_string_plain [OF this]
      have "q = [CHR 0x5C] @ ''u2028'' \<or> q = [CHR 0x5C] @ ''u2029'' \<or> q = ?u"
        unfolding q_def by (simp add: line_separators_def hex_digit_def)
      then have q: "scan_string (q @ z) = scan_cons q (scan_string z)" for z
        using x(2,3) [of z] plain [of z] by (elim disjE) (simp_all only: append_assoc)
      have "json_quote (c # cs) = q @ json_quote (drop (n - 1) cs)"
        using False Some by (simp add: q_def Let_def)
      then show ?thesis using 2(3) [OF False Some] by (simp only: append_assoc q scan_cons_append)
    qed
  qed
qed simp

lemma scan_json_quote: "scan_string (json_quote s @ CHR 0x22 # r) = Some (json_quote s, r)"
  by (simp add: scan_string_quote scan_cons_def)

lemma utf8_fix_ascii: "\<forall>c \<in> set s. code c < 128 \<Longrightarrow> valid_utf8 s"
proof -
  have "\<forall>c \<in> set s. code c < 128 \<Longrightarrow> utf8_fix s = s" by (induction s) auto
  then show "\<forall>c \<in> set s. code c < 128 \<Longrightarrow> valid_utf8 s" by (simp add: valid_utf8_def)
qed

text \<open>From here on these functions are used through their lemmas.\<close>

declare utf8_fix.simps [simp del] json_quote.simps [simp del] json_unquote.simps [simp del]

lemma utf8_fix_literal: "list_all (\<lambda>c. code c < 128) s \<Longrightarrow> utf8_fix s = s"
  using utf8_fix_ascii [of s] by (simp add: valid_utf8_def list_all_iff)

end
