(* ===== verification/Json.thy ===== *)
theory Json
  imports JsonString
begin

text \<open>
  JSON values as \<open>encoding/json\<close> sees them: the compact and the indented text, the scanner with its limit
  on nesting, and the round trip between them. Strings, keys and numbers are kept as they stand in the
  text, because types with their own \<open>UnmarshalJSON\<close> see them so.
\<close>

section \<open>Values and their text\<close>

datatype json =
    JNull
  | JBool bool
  | JNum string
  | JStr string
  | JArr "json list"
  | JObj "(string \<times> json) list"

text \<open>A string value, and an object as \<open>Marshal\<close> makes it of a struct's fields.\<close>

definition jstr :: "string \<Rightarrow> json" where "jstr s = JStr (json_quote s)"
definition jint :: "int \<Rightarrow> json" where "jint i = JNum (itoa_int i)"
definition jobj :: "(string \<times> json) list \<Rightarrow> json" where "jobj ms = JObj (map (\<lambda>(k, v). (json_quote k, v)) ms)"

text \<open>
  \<open>nl k\<close> is what stands at a line break of depth \<open>k\<close>, and \<open>sp\<close> follows a colon: both are empty in the
  compact text; \<open>MarshalIndent\<close> with two spaces gives the other instance.
\<close>

fun json_print :: "(nat \<Rightarrow> string) \<Rightarrow> string \<Rightarrow> nat \<Rightarrow> json \<Rightarrow> string"
  and print_elems :: "(nat \<Rightarrow> string) \<Rightarrow> string \<Rightarrow> nat \<Rightarrow> json list \<Rightarrow> string"
  and print_members :: "(nat \<Rightarrow> string) \<Rightarrow> string \<Rightarrow> nat \<Rightarrow> (string \<times> json) list \<Rightarrow> string" where
  "json_print nl sp k JNull = ''null''"
| "json_print nl sp k (JBool b) = (if b then ''true'' else ''false'')"
| "json_print nl sp k (JNum t) = t"
| "json_print nl sp k (JStr raw) = CHR 0x22 # raw @ [CHR 0x22]"
| "json_print nl sp k (JArr vs) =
     (if vs = [] then ''[]'' else CHR ''['' # nl (Suc k) @ print_elems nl sp (Suc k) vs @ nl k @ '']'')"
| "json_print nl sp k (JObj ms) =
     (if ms = [] then ''{}'' else CHR ''{'' # nl (Suc k) @ print_members nl sp (Suc k) ms @ nl k @ ''}'')"
| "print_elems nl sp k [] = []"
| "print_elems nl sp k (v # vs) =
     json_print nl sp k v @ (if vs = [] then [] else CHR '','' # nl k @ print_elems nl sp k vs)"
| "print_members nl sp k [] = []"
| "print_members nl sp k ((key, v) # ms) =
     CHR 0x22 # key @ CHR 0x22 # CHR '':'' # sp @ json_print nl sp k v @
     (if ms = [] then [] else CHR '','' # nl k @ print_members nl sp k ms)"

definition json_compact :: "json \<Rightarrow> string" where
  "json_compact v = json_print (\<lambda>k. []) [] 0 v"

definition json_indent :: "json \<Rightarrow> string" where
  "json_indent v = json_print (\<lambda>k. CHR 0x0A # replicate (2 * k) (CHR '' '')) '' '' 0 v"

section \<open>Parsing\<close>

definition is_ws :: "char \<Rightarrow> bool" where
  "is_ws c \<longleftrightarrow> c \<in> {CHR '' '', CHR 0x09, CHR 0x0D, CHR 0x0A}"

definition skip_ws :: "string \<Rightarrow> string" where
  "skip_ws s = dropWhile is_ws s"

text \<open>A number: the integer part without leading zeros, a fraction, an exponent.\<close>

definition scan_digits :: "string \<Rightarrow> (string \<times> string) option" where
  "scan_digits s = (if takeWhile is_digit s = [] then None else Some (takeWhile is_digit s, dropWhile is_digit s))"

fun scan_int :: "string \<Rightarrow> (string \<times> string) option" where
  "scan_int [] = None"
| "scan_int (c # cs) = (if c = CHR ''0'' then Some ([c], cs) else scan_digits (c # cs))"

fun scan_fraction :: "string \<Rightarrow> (string \<times> string) option" where
  "scan_fraction [] = Some ([], [])"
| "scan_fraction (c # cs) = (if c = CHR ''.'' then scan_cons [c] (scan_digits cs) else Some ([], c # cs))"

fun scan_sign :: "string \<Rightarrow> string \<times> string" where
  "scan_sign [] = ([], [])"
| "scan_sign (c # cs) = (if c \<in> {CHR ''+'', CHR ''-''} then ([c], cs) else ([], c # cs))"

fun scan_exponent :: "string \<Rightarrow> (string \<times> string) option" where
  "scan_exponent [] = Some ([], [])"
| "scan_exponent (c # cs) =
     (if c \<in> {CHR ''e'', CHR ''E''}
      then (case scan_sign cs of (sg, r) \<Rightarrow> scan_cons (c # sg) (scan_digits r)) else Some ([], c # cs))"

definition scan_number :: "string \<Rightarrow> (string \<times> string) option" where
  "scan_number s =
     (case (if s \<noteq> [] \<and> hd s = CHR ''-'' then ([CHR ''-''], tl s) else ([], s)) of
        (sg, s1) \<Rightarrow>
          (case scan_int s1 of
             None \<Rightarrow> None
           | Some (i, s2) \<Rightarrow>
               (case scan_fraction s2 of
                  None \<Rightarrow> None
                | Some (f, s3) \<Rightarrow> scan_cons (sg @ i @ f) (scan_exponent s3))))"

definition scan_literal :: "string \<Rightarrow> 'a \<Rightarrow> string \<Rightarrow> ('a \<times> string) option" where
  "scan_literal lit v s = (if has_prefix s lit then Some (v, drop (length lit) s) else None)"

text \<open>\<open>d\<close> is how many more arrays and objects may be opened; the first argument is fuel.\<close>

fun json_value :: "nat \<Rightarrow> nat \<Rightarrow> string \<Rightarrow> (json \<times> string) option"
  and json_elems :: "nat \<Rightarrow> nat \<Rightarrow> string \<Rightarrow> (json list \<times> string) option"
  and json_members :: "nat \<Rightarrow> nat \<Rightarrow> string \<Rightarrow> ((string \<times> json) list \<times> string) option" where
  "json_value 0 d s = None"
| "json_value (Suc n) d s =
     (case skip_ws s of
        [] \<Rightarrow> None
      | c # cs \<Rightarrow>
          if c = CHR ''{'' then
            (if d = 0 then None
             else case skip_ws cs of
                    [] \<Rightarrow> None
                  | e # r \<Rightarrow> if e = CHR ''}'' then Some (JObj [], r)
                             else map_option (\<lambda>(ms, r). (JObj ms, r)) (json_members n (d - 1) (e # r)))
          else if c = CHR ''['' then
            (if d = 0 then None
             else case skip_ws cs of
                    [] \<Rightarrow> None
                  | e # r \<Rightarrow> if e = CHR '']'' then Some (JArr [], r)
                             else map_option (\<lambda>(vs, r). (JArr vs, r)) (json_elems n (d - 1) (e # r)))
          else if c = CHR 0x22 then map_option (\<lambda>(raw, r). (JStr raw, r)) (scan_string cs)
          else if c = CHR ''t'' then scan_literal ''true'' (JBool True) (c # cs)
          else if c = CHR ''f'' then scan_literal ''false'' (JBool False) (c # cs)
          else if c = CHR ''n'' then scan_literal ''null'' JNull (c # cs)
          else map_option (\<lambda>(t, r). (JNum t, r)) (scan_number (c # cs)))"
| "json_elems 0 d s = None"
| "json_elems (Suc n) d s =
     (case json_value n d s of
        None \<Rightarrow> None
      | Some (v, r) \<Rightarrow>
          (case skip_ws r of
             [] \<Rightarrow> None
           | c # cs \<Rightarrow>
               if c = CHR '']'' then Some ([v], cs)
               else if c = CHR '','' then map_option (\<lambda>(vs, r). (v # vs, r)) (json_elems n d cs)
               else None))"
| "json_members 0 d s = None"
| "json_members (Suc n) d s =
     (case skip_ws s of
        [] \<Rightarrow> None
      | q # ks \<Rightarrow>
          if q \<noteq> CHR 0x22 then None
          else case scan_string ks of
                 None \<Rightarrow> None
               | Some (key, r1) \<Rightarrow>
                   (case skip_ws r1 of
                      [] \<Rightarrow> None
                    | co # r2 \<Rightarrow>
                        if co \<noteq> CHR '':'' then None
                        else case json_value n d r2 of
                               None \<Rightarrow> None
                             | Some (v, r3) \<Rightarrow>
                                 (case skip_ws r3 of
                                    [] \<Rightarrow> None
                                  | c # cs \<Rightarrow>
                                      if c = CHR ''}'' then Some ([(key, v)], cs)
                                      else if c = CHR '','' then
                                        map_option (\<lambda>(ms, r). ((key, v) # ms, r)) (json_members n d cs)
                                      else None)))"

text \<open>A whole text: one value, at most 10000 levels deep, and nothing behind it.\<close>

definition maxNestingDepth :: nat where "maxNestingDepth = 10000"

definition json_parse :: "string \<Rightarrow> json option" where
  "json_parse s =
     (case json_value (2 * length s + 2) maxNestingDepth s of
        Some (v, r) \<Rightarrow> if skip_ws r = [] then Some v else None
      | None \<Rightarrow> None)"

section \<open>Fuel\<close>

text \<open>Every scanner returns a shorter rest, so twice the length of the text is fuel enough.\<close>

lemma skip_ws_le: "length (skip_ws s) \<le> length s"
  by (simp add: skip_ws_def length_dropWhile_le)

lemma skip_ws_Cons: "skip_ws s = c # cs \<Longrightarrow> length cs < length s"
  using skip_ws_le [of s] by simp

lemma scan_cons_Some: "scan_cons p x = Some (raw, r) \<Longrightarrow> \<exists>raw'. x = Some (raw', r) \<and> raw = p @ raw'"
  by (cases x) (auto simp: scan_cons_def)

lemma scan_string_shorter: "scan_string s = Some (raw, r) \<Longrightarrow> length r < length s"
proof (induction s arbitrary: raw rule: scan_string.induct)
  case (2 c cs)
  then show ?case
    by (fastforce split: if_splits list.splits dest!: scan_cons_Some)
qed simp

lemma scan_digits_shorter: "scan_digits s = Some (t, r) \<Longrightarrow> length r < length s"
  by (cases s) (auto simp: scan_digits_def less_Suc_eq_le length_dropWhile_le split: if_splits)

lemma scan_int_shorter: "scan_int s = Some (t, r) \<Longrightarrow> length r < length s"
  by (cases s) (auto dest: scan_digits_shorter split: if_splits)

lemma scan_fraction_le: "scan_fraction s = Some (t, r) \<Longrightarrow> length r \<le> length s"
  by (cases s) (auto dest!: scan_cons_Some dest: scan_digits_shorter split: if_splits)

lemma scan_sign_le: "scan_sign s = (t, r) \<Longrightarrow> length r \<le> length s"
  by (cases s) (auto split: if_splits)

lemma scan_exponent_le: "scan_exponent s = Some (t, r) \<Longrightarrow> length r \<le> length s"
  by (cases s) (fastforce dest!: scan_cons_Some dest: scan_digits_shorter scan_sign_le split: if_splits prod.splits)+

lemma scan_number_shorter: "scan_number s = Some (t, r) \<Longrightarrow> length r < length s"
proof -
  assume n: "scan_number s = Some (t, r)"
  define s1 where "s1 = (if s \<noteq> [] \<and> hd s = CHR ''-'' then tl s else s)"
  have "\<exists>i s2 f s3 e. scan_int s1 = Some (i, s2) \<and> scan_fraction s2 = Some (f, s3) \<and> scan_exponent s3 = Some (e, r)"
    using n by (auto simp: scan_number_def s1_def split: if_splits option.splits dest!: scan_cons_Some)
  then have "length r < length s1"
    by (fastforce dest: scan_int_shorter scan_fraction_le scan_exponent_le)
  then show ?thesis by (simp add: s1_def split: if_splits)
qed

lemma scan_literal_shorter: "scan_literal lit v s = Some (x, r) \<Longrightarrow> lit \<noteq> [] \<Longrightarrow> s \<noteq> [] \<Longrightarrow> length r < length s"
  by (auto simp: scan_literal_def split: if_splits)

lemma json_shorter:
  "json_value n d s = Some (v, r) \<Longrightarrow> length r < length s"
  "json_elems n d s = Some (vs, r) \<Longrightarrow> length r < length s"
  "json_members n d s = Some (ms, r) \<Longrightarrow> length r < length s"
proof (induction n d s and n d s and n d s arbitrary: v r and vs r and ms r
    rule: json_value_json_elems_json_members.induct)
  case (2 n d s)
  show ?case
  proof (cases "skip_ws s")
    case (Cons c cs)
    have "length r < length (c # cs)"
      using 2 Cons skip_ws_Cons [of cs]
      by (fastforce split: if_splits list.splits dest: scan_string_shorter scan_number_shorter scan_literal_shorter)
    with Cons skip_ws_le [of s] show ?thesis by simp
  qed (use 2 in simp)
next
  case (4 n d s)
  then show ?case by (fastforce split: if_splits list.splits option.splits dest!: skip_ws_Cons)
next
  case (6 n d s)
  then show ?case
    by (fastforce split: if_splits list.splits option.splits dest!: skip_ws_Cons scan_string_shorter)
qed simp_all

lemma json_fuel:
  "2 * length s < n \<Longrightarrow> json_value (Suc n) d s = json_value n d s"
  "2 * length s + 1 < n \<Longrightarrow> json_elems (Suc n) d s = json_elems n d s"
  "2 * length s + 1 < n \<Longrightarrow> json_members (Suc n) d s = json_members n d s"
proof (induction n d s and n d s and n d s rule: json_value_json_elems_json_members.induct)
  case (2 n d s)
  show ?case
  proof (cases "skip_ws s")
    case (Cons c cs)
    note cs = skip_ws_Cons [OF Cons]
    show ?thesis
    proof (cases "skip_ws cs")
      case e: (Cons e r)
      then have "2 * length (e # r) + 1 < n" using skip_ws_le [of cs] cs 2(3) by simp
      with 2 Cons e show ?thesis by (simp del: json_elems.simps json_members.simps)
    qed (simp add: Cons)
  qed simp
next
  case (4 n d s)
  have v: "json_value (Suc n) d s = json_value n d s" using 4 by simp
  show ?case
  proof (cases "json_value n d s")
    case (Some x)
    obtain w r where x: "x = (w, r)" by (cases x)
    have r: "length r < length s" using Some x by (auto dest: json_shorter)
    show ?thesis
    proof (cases "skip_ws r")
      case (Cons c cs)
      then have "2 * length cs + 1 < n" using r skip_ws_Cons [OF Cons] 4(3) by simp
      with 4 v Some x Cons show ?thesis by (simp del: json_value.simps)
    qed (use v Some x in \<open>simp del: json_value.simps\<close>)
  qed (use v in \<open>simp del: json_value.simps\<close>)
next
  case (6 n d s)
  show ?case
  proof (cases "skip_ws s")
    case (Cons q ks)
    note ks = skip_ws_Cons [OF Cons]
    show ?thesis
    proof (cases "q = CHR 0x22 \<and> scan_string ks \<noteq> None")
      case True
      then obtain key r1 where k: "q = CHR 0x22" "scan_string ks = Some (key, r1)" by auto
      have r1: "length r1 < length s" using ks scan_string_shorter [OF k(2)] by simp
      show ?thesis
      proof (cases "skip_ws r1")
        case co: (Cons co r2)
        have r2: "length r2 < length s" using r1 skip_ws_Cons [OF co] by simp
        show ?thesis
        proof (cases "co = CHR '':''")
          case c: True
          have v: "json_value (Suc n) d r2 = json_value n d r2" using 6 Cons k co c r2 by simp
          show ?thesis
          proof (cases "json_value n d r2")
            case (Some x)
            obtain w r3 where x: "x = (w, r3)" by (cases x)
            have r3: "length r3 < length s" using Some x r2 by (auto dest: json_shorter)
            show ?thesis
            proof (cases "skip_ws r3")
              case e: (Cons e cs)
              then have "2 * length cs + 1 < n" using r3 skip_ws_Cons [OF e] 6(3) by simp
              with 6 Cons k co c v Some x e show ?thesis by (simp del: json_value.simps)
            qed (use Cons k co c v Some x in \<open>simp del: json_value.simps\<close>)
          qed (use Cons k co c v in \<open>simp del: json_value.simps\<close>)
        qed (use Cons k co in \<open>simp del: json_value.simps\<close>)
      qed (use Cons k in \<open>simp del: json_value.simps\<close>)
    next
      case False
      then show ?thesis using Cons by (cases "scan_string ks") auto
    qed
  qed simp
qed simp_all

lemma json_fuel_enough:
  assumes "2 * length s < n"
  shows "json_value (n + m) d s = json_value n d s"
  using assms by (induction m) (simp_all del: json_value.simps add: json_fuel(1))

section \<open>Reading what was printed\<close>

text \<open>A number is followed by something that does not continue it.\<close>

definition num_end :: "string \<Rightarrow> bool" where
  "num_end r \<longleftrightarrow> r = [] \<or> \<not> is_digit (hd r) \<and> hd r \<notin> {CHR ''.'', CHR ''e'', CHR ''E''}"

text \<open>Values whose raw parts are strings and numbers, at most \<open>d\<close> levels deep.\<close>

definition raw_string :: "string \<Rightarrow> bool" where
  "raw_string raw \<longleftrightarrow> (\<forall>r. scan_string (raw @ CHR 0x22 # r) = Some (raw, r))"

definition raw_number :: "string \<Rightarrow> bool" where
  "raw_number t \<longleftrightarrow> t \<noteq> [] \<and> (is_digit (hd t) \<or> hd t = CHR ''-'') \<and>
     (\<forall>r. num_end r \<longrightarrow> scan_number (t @ r) = Some (t, r))"

fun json_ok :: "nat \<Rightarrow> json \<Rightarrow> bool" where
  "json_ok d JNull = True"
| "json_ok d (JBool b) = True"
| "json_ok d (JNum t) = raw_number t"
| "json_ok d (JStr raw) = raw_string raw"
| "json_ok d (JArr vs) = (0 < d \<and> (\<forall>v \<in> set vs. json_ok (d - 1) v))"
| "json_ok d (JObj ms) = (0 < d \<and> (\<forall>(key, v) \<in> set ms. raw_string key \<and> json_ok (d - 1) v))"

lemma raw_string_quote [simp]: "raw_string (json_quote s)"
  by (simp add: raw_string_def scan_json_quote)

lemma scan_digits_append:
  assumes "list_all is_digit t" "t \<noteq> []" "r = [] \<or> \<not> is_digit (hd r)"
  shows "scan_digits (t @ r) = Some (t, r)"
proof -
  have "takeWhile is_digit (t @ r) = t" "dropWhile is_digit (t @ r) = r"
    using assms by (cases r; simp add: takeWhile_append dropWhile_append list_all_iff)+
  with assms(2) show ?thesis by (simp add: scan_digits_def)
qed

lemma itoa_zero_head: "hd (itoa n) = CHR ''0'' \<Longrightarrow> itoa n = ''0''"
proof (induction n rule: itoa.induct)
  case (1 n)
  show ?case
  proof (cases "n < 10")
    case True
    with 1(2) show ?thesis by (simp add: itoa.simps [of n])
  next
    case False
    then have "hd (itoa (n div 10)) = CHR ''0''" using 1(2) by (simp add: itoa.simps [of n])
    with 1(1) False have "itoa (n div 10) = itoa 0" by (simp add: itoa.simps [of 0] digit_char_chars)
    with False show ?thesis by simp
  qed
qed

lemma scan_int_itoa:
  assumes "num_end r"
  shows "scan_int (itoa n @ r) = Some (itoa n, r)"
proof (cases "hd (itoa n) = CHR ''0''")
  case True
  then show ?thesis by (simp add: itoa_zero_head)
next
  case False
  obtain c cs where "itoa n = c # cs" using itoa_nonempty by (cases "itoa n") auto
  with False assms show ?thesis
    using scan_digits_append [of "itoa n" r] itoa_digits [of n] by (auto simp: num_end_def)
qed

lemma raw_number_itoa [simp]: "raw_number (itoa_int i)"
proof -
  have end_of: "scan_fraction r = Some ([], r)" "scan_exponent r = Some ([], r)" if "num_end r" for r
    using that by (cases r; auto simp: num_end_def)+
  obtain c cs where c: "itoa (nat \<bar>i\<bar>) = c # cs" "is_digit c"
    using itoa_nonempty itoa_digits [of "nat \<bar>i\<bar>"] by (cases "itoa (nat \<bar>i\<bar>)") auto
  then have "c \<noteq> CHR ''-''" by (auto simp: is_digit_def)
  with c end_of scan_int_itoa [of _ "nat \<bar>i\<bar>"] show ?thesis
    by (auto simp: raw_number_def itoa_int_def scan_number_def scan_cons_def)
qed

lemma skip_ws_append: "list_all is_ws u \<Longrightarrow> skip_ws (u @ s) = skip_ws s"
  by (simp add: skip_ws_def list_all_iff dropWhile_append)

lemma skip_ws_token: "\<not> is_ws c \<Longrightarrow> skip_ws (c # s) = c # s"
  by (simp add: skip_ws_def)

lemma tokens: "\<not> is_ws CHR ''{''" "\<not> is_ws CHR ''}''" "\<not> is_ws CHR ''[''" "\<not> is_ws CHR '']''" "\<not> is_ws CHR '',''"
  "\<not> is_ws CHR '':''" "\<not> is_ws CHR 0x22" "\<not> is_ws CHR ''t''" "\<not> is_ws CHR ''f''" "\<not> is_ws CHR ''n''"
  "is_digit c \<Longrightarrow> \<not> is_ws c" "\<not> is_ws CHR ''-''"
  by (auto simp: is_ws_def is_digit_def)

lemma json_print_head:
  assumes "json_ok d v"
  shows "\<exists>c cs. json_print nl sp k v = c # cs \<and> \<not> is_ws c \<and> c \<noteq> CHR '']''"
proof (cases v)
  case (JNum t)
  with assms obtain c cs where "t = c # cs" "is_digit c \<or> c = CHR ''-''" by (cases t) (auto simp: raw_number_def)
  with JNum show ?thesis by (auto simp: is_ws_def is_digit_def)
qed (simp_all add: is_ws_def)

lemma print_elems_head:
  assumes "json_ok d v"
  obtains c cs where "print_elems nl sp k (v # vs) @ w = c # cs" "\<not> is_ws c" "c \<noteq> CHR '']''"
  using json_print_head [OF assms, of nl sp k] by (metis append_Cons append_assoc print_elems.simps(2))

lemma num_end_ws: "list_all is_ws w \<Longrightarrow> c \<in> {CHR '']'', CHR ''}'', CHR '',''} \<Longrightarrow> num_end (w @ c # r)"
  by (cases w) (auto simp: num_end_def is_ws_def is_digit_def)

definition layout_ok :: "(nat \<Rightarrow> string) \<Rightarrow> string \<Rightarrow> bool" where
  "layout_ok nl sp \<longleftrightarrow> (\<forall>k. list_all is_ws (nl k)) \<and> list_all is_ws sp"

lemma json_read_back:
  shows "\<lbrakk>layout_ok nl sp; json_ok d v; num_end r; 2 * length (json_print nl sp k v) < n; list_all is_ws u\<rbrakk> \<Longrightarrow>
      json_value n d (u @ json_print nl sp k v @ r) = Some (v, r)"
    and "\<lbrakk>layout_ok nl sp; vs \<noteq> []; \<forall>v \<in> set vs. json_ok d v; 2 * length (print_elems nl sp k vs) + 1 < n;
        list_all is_ws u; list_all is_ws w\<rbrakk> \<Longrightarrow>
      json_elems n d (u @ print_elems nl sp k vs @ w @ CHR '']'' # r) = Some (vs, r)"
    and "\<lbrakk>layout_ok nl sp; ms \<noteq> []; \<forall>(key, v) \<in> set ms. raw_string key \<and> json_ok d v;
        2 * length (print_members nl sp k ms) + 1 < n; list_all is_ws u; list_all is_ws w\<rbrakk> \<Longrightarrow>
      json_members n d (u @ print_members nl sp k ms @ w @ CHR ''}'' # r) = Some (ms, r)"
proof (induction nl sp k v and nl sp k vs and nl sp k ms arbitrary: d r n u and d r n u w and d r n u w
    rule: json_print_print_elems_print_members.induct)
  case (1 nl sp k)
  then show ?case by (cases n) (auto simp: skip_ws_append skip_ws_token tokens scan_literal_def)
next
  case (2 nl sp k b)
  then show ?case by (cases n) (auto simp: skip_ws_append skip_ws_token tokens scan_literal_def)
next
  case (3 nl sp k t)
  then obtain c cs where t: "t = c # cs" "is_digit c \<or> c = CHR ''-''" by (cases t) (auto simp: raw_number_def)
  with 3 have "scan_number (c # cs @ r) = Some (c # cs, r)" by (auto simp: raw_number_def)
  moreover have "c \<notin> {CHR ''{'', CHR ''['', CHR 0x22, CHR ''t'', CHR ''f'', CHR ''n''}" "\<not> is_ws c"
    using t(2) by (auto simp: is_digit_def tokens)
  ultimately show ?case using 3 t(1) by (cases n) (auto simp: skip_ws_append skip_ws_token)
next
  case (4 nl sp k raw)
  then show ?case by (cases n) (auto simp: skip_ws_append skip_ws_token tokens raw_string_def)
next
  case (5 nl sp k vs)
  then obtain m where m: "n = Suc m" by (cases n) auto
  show ?case
  proof (cases vs)
    case Nil
    with 5 m show ?thesis by (simp add: skip_ws_append skip_ws_token tokens)
  next
    case (Cons v ws)
    have ok: "0 < d" "json_ok (d - 1) v" using 5 Cons by auto
    let ?rest = "nl k @ CHR '']'' # r"
    obtain c cs where c: "print_elems nl sp (Suc k) vs @ ?rest = c # cs" "\<not> is_ws c" "c \<noteq> CHR '']''"
      unfolding Cons by (rule print_elems_head [OF ok(2)])
    have "json_elems m (d - 1) ([] @ print_elems nl sp (Suc k) vs @ ?rest) = Some (vs, r)"
      using 5 Cons m by (intro 5(1)) (auto simp: layout_ok_def)
    moreover have "skip_ws (nl (Suc k) @ c # cs) = c # cs"
      using 5 c by (simp add: skip_ws_append skip_ws_token layout_ok_def)
    ultimately show ?thesis
      using 5 m ok c Cons by (simp add: skip_ws_append skip_ws_token tokens)
  qed
next
  case (6 nl sp k ms)
  then obtain m where m: "n = Suc m" by (cases n) auto
  show ?case
  proof (cases ms)
    case Nil
    with 6 m show ?thesis by (simp add: skip_ws_append skip_ws_token tokens)
  next
    case (Cons x xs)
    have d: "0 < d" using 6 by simp
    let ?rest = "nl k @ CHR ''}'' # r"
    obtain cs where c: "print_members nl sp (Suc k) ms @ ?rest = CHR 0x22 # cs"
      unfolding Cons by (cases x) auto
    have "json_members m (d - 1) ([] @ print_members nl sp (Suc k) ms @ ?rest) = Some (ms, r)"
      using 6 Cons m by (intro 6(1)) (auto simp: layout_ok_def)
    moreover have "skip_ws (nl (Suc k) @ CHR 0x22 # cs) = CHR 0x22 # cs"
      using 6 by (simp add: skip_ws_append skip_ws_token layout_ok_def tokens)
    ultimately show ?thesis
      using 6 m d c Cons by (simp add: skip_ws_append skip_ws_token tokens)
  qed
next
  case (8 nl sp k v vs)
  then obtain m where m: "n = Suc m" by (cases n) auto
  let ?tl = "(if vs = [] then [] else CHR '','' # nl k @ print_elems nl sp k vs) @ w @ CHR '']'' # r"
  have "num_end ?tl" using num_end_ws [of w "CHR '']''"] num_end_ws [of "[]" "CHR '',''"] 8 by auto
  then have v: "json_value m d (u @ json_print nl sp k v @ ?tl) = Some (v, ?tl)"
    using 8(3-) m by (intro 8(1)) auto
  show ?case
  proof (cases vs)
    case Nil
    with v m 8 show ?thesis by (simp add: skip_ws_append skip_ws_token tokens)
  next
    case (Cons y ys)
    then have p: "print_elems nl sp k (v # vs) = json_print nl sp k v @ CHR '','' # nl k @ print_elems nl sp k vs"
      by simp
    have "json_elems m d (nl k @ print_elems nl sp k vs @ w @ CHR '']'' # r) = Some (vs, r)"
      using 8(3-) m Cons by (intro 8(2)) (auto simp: layout_ok_def)
    then show ?thesis using v m Cons unfolding p by (simp add: skip_ws_token tokens del: print_elems.simps)
  qed
next
  case (10 nl sp k key v ms)
  then obtain m where m: "n = Suc m" by (cases n) auto
  let ?tl = "(if ms = [] then [] else CHR '','' # nl k @ print_members nl sp k ms) @ w @ CHR ''}'' # r"
  have "num_end ?tl" using num_end_ws [of w "CHR ''}''"] num_end_ws [of "[]" "CHR '',''"] 10 by auto
  then have v: "json_value m d (sp @ json_print nl sp k v @ ?tl) = Some (v, ?tl)"
    using 10(3-) m by (intro 10(1)) (auto simp: layout_ok_def)
  have key: "scan_string (key @ CHR 0x22 # z) = Some (key, z)" for z using 10 by (simp add: raw_string_def)
  show ?case
  proof (cases ms)
    case Nil
    with v m key 10 show ?thesis by (simp add: skip_ws_append skip_ws_token tokens)
  next
    case (Cons y ys)
    have "json_members m d (nl k @ print_members nl sp k ms @ w @ CHR ''}'' # r) = Some (ms, r)"
      using 10(3-) m Cons by (intro 10(2)) (auto simp: layout_ok_def)
    with v m Cons key 10 show ?thesis by (simp add: skip_ws_append skip_ws_token tokens)
  qed
qed simp_all

lemma json_parse_print:
  assumes "layout_ok nl sp" "json_ok maxNestingDepth v"
  shows "json_parse (json_print nl sp 0 v) = Some v"
  using json_read_back(1) [OF assms, of "[]" 0 "2 * length (json_print nl sp 0 v) + 2" "[]"]
  by (simp add: json_parse_def num_end_def skip_ws_def)

interpretation compact_text: codec json_compact json_parse "json_ok maxNestingDepth"
  by unfold_locales (simp add: json_compact_def json_parse_print layout_ok_def)

interpretation indented_text: codec json_indent json_parse "json_ok maxNestingDepth"
  by unfold_locales (simp add: json_indent_def json_parse_print layout_ok_def is_ws_def list_all_iff)

text \<open>What \<open>Marshal\<close> makes of flat structs is such a value.\<close>

lemma json_ok_jstr [simp]: "json_ok d (jstr s)" by (simp add: jstr_def)
lemma json_ok_jint [simp]: "json_ok d (jint i)" by (simp add: jint_def)
lemma json_ok_jobj [simp]: "json_ok d (jobj ms) \<longleftrightarrow> 0 < d \<and> (\<forall>v \<in> snd ` set ms. json_ok (d - 1) v)"
  by (auto simp: jobj_def)

end
