(* ===== verification/JsonDecode.thy ===== *)
theory JsonDecode
  imports Json Base64
begin

text \<open>
  \<open>json.Unmarshal\<close>: a parsed value is stored into an existing Go value, kind by kind. A value of the wrong
  kind is skipped and the first such error is returned at the end; an error of a type's own
  \<open>UnmarshalJSON\<close> or \<open>UnmarshalText\<close> ends the decoding. \<open>null\<close> leaves a value as it is, or makes a pointer
  or slice nil.
\<close>

section \<open>Decoders\<close>

datatype dec_status = DecOk | DecSaved go_error | DecAbort go_error

fun dec_join :: "dec_status \<Rightarrow> dec_status \<Rightarrow> dec_status" where
  "dec_join st DecOk = st"
| "dec_join st (DecAbort e) = DecAbort e"
| "dec_join DecOk (DecSaved e) = DecSaved e"
| "dec_join st (DecSaved e) = st"

type_synonym 'a decoder = "json \<Rightarrow> 'a \<Rightarrow> 'a \<times> dec_status"

definition err_json_type :: go_error where "err_json_type = ErrText ''json: cannot unmarshal''"
definition err_json_syntax :: go_error where "err_json_syntax = ErrText ''invalid character''"

definition dec_string :: "string decoder" where
  "dec_string j old =
     (case j of JStr raw \<Rightarrow> (json_unquote raw, DecOk) | JNull \<Rightarrow> (old, DecOk) | _ \<Rightarrow> (old, DecSaved err_json_type))"

definition dec_bool :: "bool decoder" where
  "dec_bool j old =
     (case j of JBool b \<Rightarrow> (b, DecOk) | JNull \<Rightarrow> (old, DecOk) | _ \<Rightarrow> (old, DecSaved err_json_type))"

text \<open>\<open>strconv.ParseInt\<close> and \<open>ParseUint\<close> on a JSON number: only digits, behind a sign if it is signed.\<close>

definition int_text :: "string \<Rightarrow> int option" where
  "int_text t =
     (if t \<noteq> [] \<and> hd t = CHR ''-''
      then (if tl t \<noteq> [] \<and> list_all is_digit (tl t) then Some (- int (dec_value (tl t))) else None)
      else if t \<noteq> [] \<and> list_all is_digit t then Some (int (dec_value t)) else None)"

definition dec_int :: "nat \<Rightarrow> int decoder" where
  "dec_int width j old =
     (case j of
        JNum t \<Rightarrow>
          (case int_text t of
             Some i \<Rightarrow> if - (2 ^ (width - 1)) \<le> i \<and> i < 2 ^ (width - 1) then (i, DecOk) else (old, DecSaved err_json_type)
           | None \<Rightarrow> (old, DecSaved err_json_type))
      | JNull \<Rightarrow> (old, DecOk)
      | _ \<Rightarrow> (old, DecSaved err_json_type))"

definition dec_uint :: "'w::len word decoder" where
  "dec_uint j old =
     (case j of
        JNum t \<Rightarrow>
          if t \<noteq> [] \<and> list_all is_digit t \<and> dec_value t < 2 ^ LENGTH('w)
          then (of_nat (dec_value t), DecOk) else (old, DecSaved err_json_type)
      | JNull \<Rightarrow> (old, DecOk)
      | _ \<Rightarrow> (old, DecSaved err_json_type))"

text \<open>A slice: elements already there are decoded into, further ones start from \<open>zero\<close>.\<close>

fun dec_elems :: "'a \<Rightarrow> 'a decoder \<Rightarrow> json list \<Rightarrow> 'a list \<Rightarrow> 'a list \<times> dec_status" where
  "dec_elems zero d [] old = ([], DecOk)"
| "dec_elems zero d (j # js) old =
     (case d j (if old = [] then zero else hd old) of
        (x, DecAbort e) \<Rightarrow> (x # tl old, DecAbort e)
      | (x, st) \<Rightarrow> (case dec_elems zero d js (tl old) of (xs, st') \<Rightarrow> (x # xs, dec_join st st')))"

definition dec_slice :: "'a \<Rightarrow> 'a decoder \<Rightarrow> 'a list option decoder" where
  "dec_slice zero d j old =
     (case j of
        JArr js \<Rightarrow> (case dec_elems zero d js (case old of Some xs \<Rightarrow> xs | None \<Rightarrow> []) of (xs, st) \<Rightarrow> (Some xs, st))
      | JNull \<Rightarrow> (None, DecOk)
      | _ \<Rightarrow> (old, DecSaved err_json_type))"

text \<open>The same where the code does not tell a nil slice from an empty one.\<close>

definition dec_list :: "'a \<Rightarrow> 'a decoder \<Rightarrow> 'a list decoder" where
  "dec_list zero d j old =
     (case dec_slice zero d j (Some old) of (v, st) \<Rightarrow> (case v of Some xs \<Rightarrow> xs | None \<Rightarrow> [], st))"

text \<open>\<open>[]byte\<close> is written as Base64, and an array of numbers is accepted as well.\<close>

definition err_base64 :: go_error where
  "err_base64 = ErrText ''illegal base64 data''"

definition dec_bytes :: "bytes option decoder" where
  "dec_bytes j old =
     (case j of
        JStr raw \<Rightarrow>
          (case b64_decode (json_unquote raw) of
             Some b \<Rightarrow> (Some b, DecOk)
           | None \<Rightarrow> (old, DecSaved err_base64))
      | _ \<Rightarrow> dec_slice 0 dec_uint j old)"

definition dec_ptr :: "'a \<Rightarrow> 'a decoder \<Rightarrow> 'a option decoder" where
  "dec_ptr zero d j old =
     (if j = JNull then (None, DecOk)
      else case d j (case old of Some x \<Rightarrow> x | None \<Rightarrow> zero) of (x, st) \<Rightarrow> (Some x, st))"

text \<open>A type with \<open>UnmarshalText\<close>, which gets the string's value, and one with \<open>UnmarshalJSON\<close>, which gets its text.\<close>

definition dec_text :: "(string \<Rightarrow> go_error + 'a) \<Rightarrow> 'a decoder" where
  "dec_text parse j old =
     (case j of
        JStr raw \<Rightarrow> (case parse (json_unquote raw) of Inr x \<Rightarrow> (x, DecOk) | Inl e \<Rightarrow> (old, DecAbort e))
      | JNull \<Rightarrow> (old, DecOk)
      | _ \<Rightarrow> (old, DecSaved err_json_type))"

section \<open>Structs\<close>

text \<open>A field: its name in the text and how a value is stored into it.\<close>

type_synonym 'r json_field = "string \<times> 'r decoder"

definition json_field :: "string \<Rightarrow> 'a decoder \<Rightarrow> ('r \<Rightarrow> 'a) \<Rightarrow> ('a \<Rightarrow> 'r \<Rightarrow> 'r) \<Rightarrow> 'r json_field" where
  "json_field name d get upd = (name, \<lambda>j r. case d j (get r) of (x, st) \<Rightarrow> (upd x r, st))"

text \<open>\<open>foldName\<close>: ASCII letters in upper case; the long s and the Kelvin sign fold to ASCII letters.\<close>

fun fold_name :: "string \<Rightarrow> string" where
  "fold_name (a # b # s) =
     (if a = CHR 0xC5 \<and> b = CHR 0xBF then CHR ''S'' # fold_name s
      else if a = CHR 0xE2 \<and> b = CHR 0x84 \<and> s \<noteq> [] \<and> hd s = CHR 0xAA then CHR ''K'' # fold_name (tl s)
      else (if 97 \<le> code a \<and> code a \<le> 122 then char_of (code a - 32) else a) # fold_name (b # s))"
| "fold_name [a] = [if 97 \<le> code a \<and> code a \<le> 122 then char_of (code a - 32) else a]"
| "fold_name [] = []"

text \<open>The field of a key: the one of that very name, else the first whose folded name is the key's.\<close>

definition find_field :: "'r json_field list \<Rightarrow> string \<Rightarrow> 'r decoder option" where
  "find_field fs key =
     (case map_of fs key of
        Some d \<Rightarrow> Some d
      | None \<Rightarrow> map_of (map (\<lambda>(name, d). (fold_name name, d)) fs) (fold_name key))"

fun dec_members :: "'r json_field list \<Rightarrow> (string \<times> json) list \<Rightarrow> 'r \<Rightarrow> 'r \<times> dec_status" where
  "dec_members fs [] r = (r, DecOk)"
| "dec_members fs ((key, j) # ms) r =
     (case find_field fs (json_unquote key) of
        None \<Rightarrow> dec_members fs ms r
      | Some d \<Rightarrow>
          (case d j r of
             (r1, DecAbort e) \<Rightarrow> (r1, DecAbort e)
           | (r1, st) \<Rightarrow> (case dec_members fs ms r1 of (r2, st') \<Rightarrow> (r2, dec_join st st'))))"

definition dec_struct :: "'r json_field list \<Rightarrow> 'r decoder" where
  "dec_struct fs j r =
     (case j of JObj ms \<Rightarrow> dec_members fs ms r | JNull \<Rightarrow> (r, DecOk) | _ \<Rightarrow> (r, DecSaved err_json_type))"

text \<open>
  \<open>Unmarshal\<close> checks the whole text first and stores nothing of an ill-formed one. It returns what the
  value became and the error.
\<close>

definition json_Unmarshal :: "'a decoder \<Rightarrow> bytes \<Rightarrow> 'a \<Rightarrow> 'a \<times> go_error option" where
  "json_Unmarshal d data x =
     (case json_parse (bytes_string data) of
        None \<Rightarrow> (x, Some err_json_syntax)
      | Some j \<Rightarrow>
          (case d j x of
             (y, DecOk) \<Rightarrow> (y, None)
           | (y, DecSaved e) \<Rightarrow> (y, Some e)
           | (y, DecAbort e) \<Rightarrow> (y, Some e)))"

section \<open>Decoding what was encoded\<close>

text \<open>\<open>Marshal\<close> of a \<open>[]byte\<close>: nil is \<open>null\<close>.\<close>

definition jbytes :: "bytes option \<Rightarrow> json" where
  "jbytes v = (case v of None \<Rightarrow> JNull | Some b \<Rightarrow> JStr (b64_encode b))"

lemma b64_encode_chars: "\<forall>c \<in> set (b64_encode bs). 32 \<le> code c \<and> code c < 128 \<and> c \<noteq> CHR 0x22 \<and> c \<noteq> CHR 0x5C"
proof -
  have "\<forall>n \<in> set [0..<64]. 32 \<le> code (b64_char n) \<and> code (b64_char n) < 128 \<and>
      b64_char n \<noteq> CHR 0x22 \<and> b64_char n \<noteq> CHR 0x5C"
    by code_simp
  then have c: "n < 64 \<Longrightarrow> 32 \<le> code (b64_char n) \<and> code (b64_char n) < 128 \<and>
      b64_char n \<noteq> CHR 0x22 \<and> b64_char n \<noteq> CHR 0x5C" for n
    by simp
  show ?thesis by (induction bs rule: b64_encode.induct) (auto simp: enc3_def c)
qed

lemma json_unquote_plain: "\<forall>c \<in> set s. code c < 128 \<and> c \<noteq> CHR 0x5C \<Longrightarrow> json_unquote s = s"
  by (induction s) (auto simp: json_unquote.simps)

lemma raw_string_plain: "\<forall>c \<in> set s. 32 \<le> code c \<and> c \<noteq> CHR 0x22 \<and> c \<noteq> CHR 0x5C \<Longrightarrow> raw_string s"
  by (simp add: raw_string_def scan_string_plain scan_cons_def)

lemma json_ok_jbytes [simp]: "json_ok d (jbytes v)"
  using b64_encode_chars by (auto simp: jbytes_def intro!: raw_string_plain split: option.split)

lemma dec_string_jstr [simp]: "dec_string (jstr s) old = (utf8_fix s, DecOk)"
  by (simp add: dec_string_def jstr_def json_unquote_quote)

lemma dec_text_jstr [simp]:
  "dec_text parse (jstr s) old = (case parse (utf8_fix s) of Inr x \<Rightarrow> (x, DecOk) | Inl e \<Rightarrow> (old, DecAbort e))"
  by (simp add: dec_text_def jstr_def json_unquote_quote)

lemma dec_bool_JBool [simp]: "dec_bool (JBool b) old = (b, DecOk)"
  by (simp add: dec_bool_def)

lemma dec_bytes_jbytes [simp]: "dec_bytes (jbytes v) old = (v, DecOk)"
  using b64_encode_chars
  by (auto simp: dec_bytes_def jbytes_def dec_slice_def json_unquote_plain b64.dec_enc split: option.split)

lemma dec_uint_jint [simp]: "dec_uint (jint (int (unat w))) old = (w, DecOk)"
proof -
  have "unat w < 2 ^ LENGTH('a)" for w :: "'a::len word" by (rule unsigned_less)
  then show ?thesis by (simp add: dec_uint_def jint_def itoa_int_def itoa_digits)
qed

lemma dec_uint_jint_uint [simp]: "dec_uint (jint (uint w)) old = (w, DecOk)"
  using dec_uint_jint [of w old] by simp

lemma int_text_itoa: "int_text (itoa_int i) = Some i"
proof (cases "i < 0")
  case False
  have "itoa (nat i) \<noteq> []" "list_all is_digit (itoa (nat i))" by (simp_all add: itoa_digits)
  then have "hd (itoa (nat i)) \<noteq> CHR ''-''" by (cases "itoa (nat i)") (auto simp: is_digit_def)
  with False show ?thesis by (simp add: int_text_def itoa_int_def itoa_digits)
qed (simp add: int_text_def itoa_int_def itoa_digits)

lemma dec_int_jint: "- (2 ^ (n - 1)) \<le> i \<Longrightarrow> i < 2 ^ (n - 1) \<Longrightarrow> dec_int n (jint i) old = (i, DecOk)"
  by (simp add: dec_int_def jint_def int_text_itoa)

text \<open>A list whose elements are read back is read back, and a pointer to such a value.\<close>

lemma dec_list_printed:
  assumes "\<And>x. x \<in> set xs \<Longrightarrow> d (f x) zero = (x, DecOk)"
  shows "dec_list zero d (JArr (map f xs)) [] = (xs, DecOk)"
proof -
  have "dec_elems zero d (map f xs) [] = (xs, DecOk)"
    using assms by (induction xs) simp_all
  then show ?thesis by (simp add: dec_list_def dec_slice_def)
qed

lemma dec_list_strings [simp]: "list_all valid_utf8 ss \<Longrightarrow> dec_list [] dec_string (JArr (map jstr ss)) [] = (ss, DecOk)"
  by (rule dec_list_printed) (auto simp: list_all_iff valid_utf8_def)

text \<open>\<open>Marshal\<close> of a pointer: nil is \<open>null\<close>.\<close>

definition jptr :: "('a \<Rightarrow> json) \<Rightarrow> 'a option \<Rightarrow> json" where
  "jptr f v = (case v of None \<Rightarrow> JNull | Some x \<Rightarrow> f x)"

lemma dec_ptr_jptr:
  assumes "\<And>x. v = Some x \<Longrightarrow> f x \<noteq> JNull \<and> d (f x) zero = (x, DecOk)"
  shows "dec_ptr zero d (jptr f v) None = (v, DecOk)"
  using assms by (auto simp: dec_ptr_def jptr_def split: option.split)

lemma json_ok_jptr: "(\<And>x. v = Some x \<Longrightarrow> json_ok d (f x)) \<Longrightarrow> json_ok d (jptr f v)"
  by (auto simp: jptr_def split: option.split)

lemma json_Unmarshal_compact:
  "json_ok maxNestingDepth j \<Longrightarrow> d j x = (y, DecOk) \<Longrightarrow> json_Unmarshal d (string_bytes (json_compact j)) x = (y, None)"
  by (simp add: json_Unmarshal_def compact_text.dec_enc)

lemma json_Unmarshal_indent:
  "json_ok maxNestingDepth j \<Longrightarrow> d j x = (y, DecOk) \<Longrightarrow> json_Unmarshal d (string_bytes (json_indent j)) x = (y, None)"
  by (simp add: json_Unmarshal_def indented_text.dec_enc)

lemma dec_struct_jobj: "dec_struct fs (jobj ms) r = dec_members fs (map (\<lambda>(k, v). (json_quote k, v)) ms) r"
  by (simp add: dec_struct_def jobj_def)

lemma dec_join_ok [simp]: "dec_join DecOk st = st"
  by (cases st) simp_all

text \<open>One member of a printed struct: the field of its very name takes the value.\<close>

lemma dec_member:
  assumes "list_all (\<lambda>c. code c < 128) key" and "map_of fs key = Some d" and "d j r = (r1, DecOk)"
  shows "dec_members fs ((json_quote key, j) # ms) r = dec_members fs ms r1"
  using assms by (simp add: json_unquote_quote utf8_fix_literal find_field_def split: prod.split)

declare dec_members.simps(2) [simp del]

lemmas json_struct = dec_struct_jobj dec_member json_field_def

end
