(* ===== verification/Token.thy ===== *)
theory Token
  imports Register JsonDecode
begin

text \<open>
  \<open>src/server/cfd/token.go\<close>: a tunnel token is the base64 form of a JSON object. \<open>src/server/key.go\<close>: the
  WireGuard keys of the WARP connection. The texts of a UUID (google/uuid) are arguments, as are the
  random source and the curve's base-point multiplication.
\<close>

section \<open>Tokens\<close>

text \<open>The struct's text and its decoder; \<open>uuid_text\<close> and \<open>uuid_parse\<close> are the library's \<open>MarshalText\<close> and \<open>UnmarshalText\<close>.\<close>

definition token_Marshal :: "(bytes \<Rightarrow> string) \<Rightarrow> tunnel_token \<Rightarrow> go_error + bytes" where
  "token_Marshal uuid_text t =
     Inr (string_bytes (json_compact (jobj
       [(''a'', jstr (tt_AccountTag t)), (''s'', jbytes (tt_TunnelSecret t)), (''t'', jstr (uuid_text (tt_TunnelID t)))])))"

definition token_decoder :: "(string \<Rightarrow> go_error + bytes) \<Rightarrow> tunnel_token decoder" where
  "token_decoder uuid_parse = dec_struct
     [json_field ''a'' dec_string tt_AccountTag (\<lambda>x t. t\<lparr>tt_AccountTag := x\<rparr>),
      json_field ''s'' dec_bytes tt_TunnelSecret (\<lambda>x t. t\<lparr>tt_TunnelSecret := x\<rparr>),
      json_field ''t'' (dec_text uuid_parse) tt_TunnelID (\<lambda>x t. t\<lparr>tt_TunnelID := x\<rparr>)]"

definition zero_token :: tunnel_token where
  "zero_token = \<lparr>tt_AccountTag = [], tt_TunnelSecret = None, tt_TunnelID = replicate 16 0\<rparr>"

definition ParseToken :: "(string \<Rightarrow> go_error + bytes) \<Rightarrow> string \<Rightarrow> go_error + tunnel_token" where
  "ParseToken uuid_parse tokenStr =
     (case b64_decode tokenStr of
        None \<Rightarrow> Inl err_base64
      | Some content \<Rightarrow>
          (case json_Unmarshal (token_decoder uuid_parse) content zero_token of
             (t, Some e) \<Rightarrow> Inl e
           | (t, None) \<Rightarrow> Inr t))"

definition GenerateToken :: "(bytes \<Rightarrow> string) \<Rightarrow> tunnel_token option \<Rightarrow> go_error + string" where
  "GenerateToken uuid_text token =
     (case token of
        None \<Rightarrow> Inl (ErrText ''token cannot be nil'')
      | Some t \<Rightarrow>
          (case token_Marshal uuid_text t of
             Inl e \<Rightarrow> Inl (ErrWrap ''failed to marshal token'' e)
           | Inr content \<Rightarrow> Inr (b64_encode content)))"

lemma token_reread:
  assumes "GenerateToken uuid_text (Some t) = Inr s"
    and "uuid_parse (utf8_fix (uuid_text (tt_TunnelID t))) = Inr uid"
  shows "ParseToken uuid_parse s = Inr (t\<lparr>tt_AccountTag := utf8_fix (tt_AccountTag t), tt_TunnelID := uid\<rparr>)"
proof -
  let ?j = "jobj [(''a'', jstr (tt_AccountTag t)), (''s'', jbytes (tt_TunnelSecret t)), (''t'', jstr (uuid_text (tt_TunnelID t)))]"
  have "token_decoder uuid_parse ?j zero_token = (t\<lparr>tt_AccountTag := utf8_fix (tt_AccountTag t), tt_TunnelID := uid\<rparr>, DecOk)"
    using assms(2) by (simp add: token_decoder_def json_struct zero_token_def)
  moreover have "s = b64_encode (string_bytes (json_compact ?j))"
    using assms(1) by (simp add: GenerateToken_def token_Marshal_def)
  ultimately show ?thesis
    using json_Unmarshal_compact [of ?j "token_decoder uuid_parse" zero_token]
    by (simp add: ParseToken_def b64.dec_enc maxNestingDepth_def)
qed

section \<open>Keys\<close>

definition Key_String :: "bytes \<Rightarrow> string" where
  "Key_String k = b64_encode k"

text \<open>\<open>subtle.ConstantTimeCompare\<close> of two keys is 1 exactly when they are equal.\<close>

definition Key_IsZero :: "bytes \<Rightarrow> bool" where
  "Key_IsZero k \<longleftrightarrow> k = replicate 32 0"

definition Key_Public :: "(bytes \<Rightarrow> bytes) \<Rightarrow> bytes \<Rightarrow> bytes" where
  "Key_Public scalarBaseMult k = scalarBaseMult k"

definition NewPresharedKey :: "go_error + bytes \<Rightarrow> go_error + bytes" where
  "NewPresharedKey rand = rand"

text \<open>A failing random source makes \<open>NewPrivateKey\<close> return nil.\<close>

definition NewPrivateKey :: "go_error + bytes \<Rightarrow> bytes option" where
  "NewPrivateKey rand =
     (case NewPresharedKey rand of
        Inl e \<Rightarrow> None
      | Inr k \<Rightarrow>
          let k1 = k[0 := (k ! 0) AND 248]
          in Some (k1[31 := ((k1 ! 31) AND 127) OR 64]))"

lemma clamp_masks: "(248::byte) = NOT (mask 3)" "(127::byte) = mask 7"
  by (simp_all add: mask_eq_exp_minus_1 not_eq_complement)

lemma bit_64: "bit (64::byte) i \<longleftrightarrow> i = 6"
  using bit_exp_iff [where 'a = byte, of 6 i] by auto

lemma clamp_first: "bit ((b::byte) AND 248) i \<longleftrightarrow> bit b i \<and> 3 \<le> i"
  unfolding clamp_masks by (auto simp: bit_simps dest: bit_imp_le_length)

lemma clamp_last: "bit (((b::byte) AND 127) OR 64) i \<longleftrightarrow> i = 6 \<or> bit b i \<and> i < 6"
  unfolding clamp_masks bit_or_iff bit_and_iff bit_mask_iff bit_64 by auto

lemma NewPrivateKey_eq: "length k = 32 \<Longrightarrow>
    NewPrivateKey (Inr k) = Some (k[0 := (k ! 0) AND 248, 31 := ((k ! 31) AND 127) OR 64])"
  by (simp add: NewPrivateKey_def NewPresharedKey_def)

section \<open>Properties\<close>

text \<open>
  C33. Tokens: \<open>ParseToken\<close> reads back what \<open>GenerateToken\<close> makes of a token whose account is valid UTF-8,
  when the UUID library reads back its own text, with the credentials the registration uses. A string with
  a character outside base64 is refused before JSON sees it, text that is no JSON is refused, a nil token
  is refused.
\<close>

theorem token_roundtrip:
  assumes "valid_utf8 (tt_AccountTag t)" and "valid_utf8 (uuid_text (tt_TunnelID t))"
    and "uuid_parse (uuid_text (tt_TunnelID t)) = Inr (tt_TunnelID t)"
  shows "(\<exists>s. GenerateToken uuid_text (Some t) = Inr s \<and> ParseToken uuid_parse s = Inr t) \<and>
    Credentials_Auth (token_Credentials t) = \<lparr>ta_AccountTag = tt_AccountTag t, ta_TunnelSecret = tt_TunnelSecret t\<rparr> \<and>
    cr_TunnelID (token_Credentials t) = tt_TunnelID t \<and>
    (\<forall>u c. c \<in> set u \<and> c \<notin> set b64_alphabet \<union> {CHR ''='', CHR 0x0A, CHR 0x0D} \<longrightarrow>
      ParseToken uuid_parse u = Inl err_base64) \<and>
    (\<forall>b. json_parse (bytes_string b) = None \<longrightarrow> ParseToken uuid_parse (b64_encode b) = Inl err_json_syntax) \<and>
    (\<exists>e. GenerateToken uuid_text None = Inl e)"
proof (intro conjI)
  obtain s where s: "GenerateToken uuid_text (Some t) = Inr s" by (simp add: GenerateToken_def token_Marshal_def)
  with token_reread [OF s, of uuid_parse "tt_TunnelID t"] assms
  show "\<exists>s. GenerateToken uuid_text (Some t) = Inr s \<and> ParseToken uuid_parse s = Inr t"
    by (simp add: valid_utf8_def)
  show "\<forall>u c. c \<in> set u \<and> c \<notin> set b64_alphabet \<union> {CHR ''='', CHR 0x0A, CHR 0x0D} \<longrightarrow>
      ParseToken uuid_parse u = Inl err_base64"
    using b64_decode_alphabet by (auto simp: ParseToken_def)
qed (simp_all add: Credentials_Auth_def token_Credentials_def GenerateToken_def ParseToken_def b64.dec_enc
    json_Unmarshal_def)

definition demo_token :: tunnel_token where
  "demo_token = \<lparr>tt_AccountTag = ''acc'', tt_TunnelSecret = Some [1, 2, 3], tt_TunnelID = [1, 2, 3, 4, 5, 6, 7, 8, 9, 10, 11, 12, 13, 14, 15, 16]\<rparr>"

definition demo_uuid_text :: "bytes \<Rightarrow> string" where
  "demo_uuid_text b = concat (map (\<lambda>x. [hex_digit (unat x div 16), hex_digit (unat x mod 16)]) b)"

fun demo_uuid_parse :: "string \<Rightarrow> go_error + bytes" where
  "demo_uuid_parse (x # y # s) = map_sum id (\<lambda>b. of_nat (hex_value [x, y]) # b) (demo_uuid_parse s)"
| "demo_uuid_parse s = Inr []"

theorem token_roundtrip_witness:
  "\<exists>s. GenerateToken demo_uuid_text (Some demo_token) = Inr s \<and> ParseToken demo_uuid_parse s = Inr demo_token"
proof -
  have t: "demo_uuid_text (tt_TunnelID demo_token) = ''0102030405060708090a0b0c0d0e0f10''"
    by (simp add: demo_uuid_text_def demo_token_def hex_digit_def)
  have "valid_utf8 (tt_AccountTag demo_token)" "valid_utf8 (demo_uuid_text (tt_TunnelID demo_token))"
    unfolding t by (simp_all add: valid_utf8_def demo_token_def utf8_fix_literal)
  moreover have "demo_uuid_parse (demo_uuid_text (tt_TunnelID demo_token)) = Inr (tt_TunnelID demo_token)"
    unfolding t by (simp add: demo_token_def hex_value_def hex_val_def)
  ultimately show ?thesis using token_roundtrip [of demo_token demo_uuid_text demo_uuid_parse] by blast
qed

text \<open>
  WARP keys: from 32 random bytes \<open>NewPrivateKey\<close> makes a clamped Curve25519 scalar. The three low bits
  are clear, the top bit is clear and the one below it set, every other bit is the random one; it is
  never the zero key; its printed form has 44 characters and decodes to it. Without random bytes
  there is no key.
\<close>

theorem private_key_clamped:
  assumes "length k = 32"
  shows "\<exists>p. NewPrivateKey (Inr k) = Some p \<and> length p = 32 \<and> \<not> Key_IsZero p \<and>
    (\<forall>i < 32. \<forall>j < 8. bit (p ! i) j \<longleftrightarrow>
       (if i = 0 \<and> j < 3 \<or> i = 31 \<and> j = 7 then False else if i = 31 \<and> j = 6 then True else bit (k ! i) j)) \<and>
    length (Key_String p) = 44 \<and> b64_decode (Key_String p) = Some p \<and> NewPrivateKey (Inl e) = None"
proof -
  let ?p = "k[0 := (k ! 0) AND 248, 31 := ((k ! 31) AND 127) OR 64]"
  have "bit (?p ! 31) 6" using assms by (simp add: clamp_last)
  then have "?p \<noteq> replicate 32 0" by auto
  moreover have "bit (?p ! i) j \<longleftrightarrow>
       (if i = 0 \<and> j < 3 \<or> i = 31 \<and> j = 7 then False else if i = 31 \<and> j = 6 then True else bit (k ! i) j)"
    if "i < 32" "j < 8" for i j
    using that assms by (auto simp: nth_list_update clamp_first clamp_last)
  ultimately show ?thesis
    using assms by (intro exI [of _ ?p])
      (simp add: NewPrivateKey_eq Key_IsZero_def Key_String_def length_b64_encode b64.dec_enc,
       simp add: NewPrivateKey_def NewPresharedKey_def)
qed

theorem private_key_clamped_witness:
  "\<exists>p. NewPrivateKey (Inr (replicate 32 255)) = Some p \<and> length (Key_String p) = 44 \<and> \<not> Key_IsZero p"
  using private_key_clamped [of "replicate 32 255" ErrEOF] by auto

end
