(* ===== verification/Pem.thy ===== *)
theory Pem
  imports Base64
begin

text \<open>
  \<open>encoding/pem\<close>'s \<open>Decode\<close>, which reads the certificates built into the server: the scan for a BEGIN
  line, the headers, the END line that must repeat the type, and the Base64 text between them. Every
  result is shorter than what was scanned, and a well-formed block in front of any text is found, decoded
  exactly and taken off.
\<close>

section \<open>Lines\<close>

abbreviation LF :: char where "LF \<equiv> CHR 0x0A"

definition trim_right :: "string \<Rightarrow> string" where
  "trim_right s = rev (dropWhile (\<lambda>c. c = CHR '' '' \<or> c = CHR 0x09) (rev s))"

text \<open>\<open>getLine\<close>: the first line without its end and its trailing blanks, and what follows it.\<close>

definition get_line :: "string \<Rightarrow> string \<times> string" where
  "get_line data =
     (let l = takeWhile (\<lambda>c. c \<noteq> LF) data; r = dropWhile (\<lambda>c. c \<noteq> LF) data in
      (trim_right (if r \<noteq> [] \<and> l \<noteq> [] \<and> last l = CHR 0x0D then butlast l else l), drop 1 r))"

text \<open>\<open>bytes.Index\<close>, for a pattern that is not empty.\<close>

fun index_str :: "string \<Rightarrow> string \<Rightarrow> nat option" where
  "index_str p [] = None"
| "index_str p (c # cs) = (if has_prefix (c # cs) p then Some 0 else map_option Suc (index_str p cs))"

definition join_lines :: "string list \<Rightarrow> string" where
  "join_lines ls = concat (map (\<lambda>l. l @ [LF]) ls)"

lemma get_line_rest: "data \<noteq> [] \<Longrightarrow> length (snd (get_line data)) < length data"
  using length_dropWhile_le [of "\<lambda>c. c \<noteq> LF" "tl data"] by (cases data) (auto simp: get_line_def Let_def)

lemma get_line_le: "length (snd (get_line data)) \<le> length data"
  using get_line_rest [of data] by (cases data) (auto simp: get_line_def)

section \<open>Decoding\<close>

definition pemStart :: string where "pemStart = LF # ''-----BEGIN ''"
definition pemEnd :: string where "pemEnd = LF # ''-----END ''"
definition pemEndOfLine :: string where "pemEndOfLine = ''-----''"

text \<open>The text behind the next BEGIN, which needs no newline at the very beginning.\<close>

definition pem_find :: "string \<Rightarrow> string option" where
  "pem_find rest =
     (if has_prefix rest (tl pemStart) then Some (drop (length pemStart - 1) rest)
      else map_option (\<lambda>i. drop (i + length pemStart) rest) (index_str pemStart rest))"

text \<open>The header lines, as whether there was any, and what follows; a text that ends in them is no block.\<close>

function pem_headers :: "bool \<Rightarrow> string \<Rightarrow> (bool \<times> string) option" where
  "pem_headers h rest =
     (if rest = [] then None
      else case get_line rest of (line, next) \<Rightarrow>
        if CHR '':'' \<in> set line then pem_headers True next else Some (h, rest))"
  by pat_completeness auto
termination
  by (relation "measure (\<lambda>(h, rest). length rest)") (use get_line_rest in \<open>auto, metis snd_conv\<close>)

declare pem_headers.simps [simp del]

text \<open>One round of \<open>Decode\<close>: no block at all, the place to look for the next, or a block and what follows.\<close>

datatype pem_try = PemNone | PemNext string | PemBlock string bytes string

definition pem_end_index :: "bool \<Rightarrow> string \<Rightarrow> (nat \<times> nat) option" where
  "pem_end_index h rest =
     (if \<not> h \<and> has_prefix rest (tl pemEnd) then Some (0, length pemEnd - 1)
      else map_option (\<lambda>i. (i, i + length pemEnd)) (index_str pemEnd rest))"

definition pem_body :: "string \<Rightarrow> string \<Rightarrow> nat \<times> nat \<Rightarrow> pem_try" where
  "pem_body ty rest ends =
     (let (endIndex, endTrailerIndex) = ends; endTrailer = drop endTrailerIndex rest;
          n = length ty + length pemEndOfLine in
      if length endTrailer < n then PemNext rest
      else if \<not> has_prefix (take n endTrailer) ty \<or> \<not> has_suffix (take n endTrailer) pemEndOfLine then PemNext rest
      else if fst (get_line (drop n endTrailer)) \<noteq> [] then PemNext rest
      else case b64_decode (filter (\<lambda>c. c \<noteq> CHR '' '' \<and> c \<noteq> CHR 0x09) (take endIndex rest)) of
             None \<Rightarrow> PemNext rest
           | Some bs \<Rightarrow> PemBlock ty bs (snd (get_line (drop (endIndex + length pemEnd - 1) rest))))"

definition pem_round :: "string \<Rightarrow> pem_try" where
  "pem_round rest =
     (case get_line rest of (typeLine, rest1) \<Rightarrow>
        if \<not> has_suffix typeLine pemEndOfLine then PemNext rest1
        else case pem_headers False rest1 of
               None \<Rightarrow> PemNone
             | Some (h, rest2) \<Rightarrow>
                 (case pem_end_index h rest2 of
                    None \<Rightarrow> PemNext rest2
                  | Some ends \<Rightarrow> pem_body (take (length typeLine - length pemEndOfLine) typeLine) rest2 ends))"

lemma pem_headers_le: "pem_headers h rest = Some (h', rest') \<Longrightarrow> length rest' \<le> length rest"
proof (induction h rest rule: pem_headers.induct)
  case (1 h rest)
  then show ?case using get_line_le [of rest]
    by (subst (asm) (2) pem_headers.simps) (fastforce split: if_splits prod.splits)
qed

lemma pem_body_le:
  "pem_body ty rest ends = PemNext r \<Longrightarrow> length r \<le> length rest"
  "pem_body ty rest ends = PemBlock ty' bs r \<Longrightarrow> length r \<le> length rest"
  using get_line_le by (fastforce simp: pem_body_def Let_def split: if_splits option.splits prod.splits intro: le_trans)+

lemma pem_round_le:
  "pem_round rest = PemNext r \<Longrightarrow> length r \<le> length rest"
  "pem_round rest = PemBlock ty bs r \<Longrightarrow> length r \<le> length rest"
  using get_line_le [of rest]
  by (fastforce simp: pem_round_def dest!: pem_headers_le pem_body_le split: if_splits option.splits prod.splits)+

lemma index_str_length: "index_str p s = Some i \<Longrightarrow> i < length s"
  by (induction s arbitrary: i) (auto split: if_splits)

lemma pem_find_shorter: "pem_find rest = Some r \<Longrightarrow> length r < length rest"
  by (cases rest) (auto simp: pem_find_def pemStart_def dest: index_str_length split: if_splits)

function pem_scan :: "string \<Rightarrow> (string \<times> bytes \<times> string) option" where
  "pem_scan rest =
     (case pem_find rest of
        None \<Rightarrow> None
      | Some r \<Rightarrow>
          (case pem_round r of
             PemNone \<Rightarrow> None
           | PemNext r' \<Rightarrow> pem_scan r'
           | PemBlock ty bs r' \<Rightarrow> Some (ty, bs, r')))"
  by pat_completeness auto
termination
  by (relation "measure length") (use pem_find_shorter pem_round_le(1) in \<open>fastforce intro: le_less_trans\<close>)+

declare pem_scan.simps [simp del]

definition pem_Decode :: "string \<Rightarrow> (string \<times> bytes) option \<times> string" where
  "pem_Decode data =
     (case pem_scan data of
        None \<Rightarrow> (None, data)
      | Some (ty, bs, rest) \<Rightarrow> (Some (ty, bs), rest))"

lemma pem_scan_shorter: "pem_scan rest = Some (ty, bs, r) \<Longrightarrow> length r < length rest"
proof (induction rest rule: pem_scan.induct)
  case (1 rest)
  then show ?case
    by (subst (asm) (2) pem_scan.simps)
      (fastforce dest: pem_find_shorter pem_round_le split: option.splits pem_try.splits)
qed

lemma pem_Decode_shorter: "pem_Decode data = (Some b, rest) \<Longrightarrow> length rest < length data"
  by (auto simp: pem_Decode_def dest: pem_scan_shorter split: option.splits)

section \<open>Reading a printed block\<close>

definition pem_block :: "string \<Rightarrow> string list \<Rightarrow> string" where
  "pem_block ty body = ''-----BEGIN '' @ ty @ ''-----'' @ LF # join_lines body @ ''-----END '' @ ty @ ''-----''"

lemma takeWhile_line: "LF \<notin> set l \<Longrightarrow> r = [] \<or> hd r = LF \<Longrightarrow> takeWhile (\<lambda>c. c \<noteq> LF) (l @ r) = l"
  by (cases r) (auto simp: takeWhile_append)

lemma dropWhile_line: "LF \<notin> set l \<Longrightarrow> r = [] \<or> hd r = LF \<Longrightarrow> dropWhile (\<lambda>c. c \<noteq> LF) (l @ r) = r"
  by (cases r) (auto simp: dropWhile_append)

lemma get_line_append:
  assumes "LF \<notin> set l" "r = [] \<or> hd r = LF" "l = [] \<or> last l \<notin> {CHR '' '', CHR 0x09, CHR 0x0D}"
  shows "get_line (l @ r) = (l, drop 1 r)"
proof -
  have "trim_right l = l" using assms(3) by (cases l rule: rev_cases) (auto simp: trim_right_def)
  with assms show ?thesis by (auto simp: get_line_def takeWhile_line dropWhile_line)
qed

lemma snd_get_line: "LF \<notin> set l \<Longrightarrow> r = [] \<or> hd r = LF \<Longrightarrow> snd (get_line (l @ r)) = drop 1 r"
  by (auto simp: get_line_def Let_def dropWhile_line)

lemma set_get_line: "set (fst (get_line s)) \<subseteq> set (takeWhile (\<lambda>c. c \<noteq> LF) s)"
  by (auto simp: get_line_def Let_def trim_right_def dest!: set_dropWhileD in_set_butlastD split: if_splits)

lemma index_str_first:
  assumes "successively (\<lambda>a b. a = y \<longrightarrow> b \<noteq> x) pre" "x \<noteq> y"
  shows "index_str (y # x # p) (pre @ y # x # p @ r) = Some (length pre)"
  using assms
proof (induction pre)
  case (Cons c cs)
  then show ?case by (cases cs) (auto simp: has_prefix_iff)
qed (simp add: has_prefix_iff)

lemma successively_no_char: "x \<notin> set s \<Longrightarrow> successively (\<lambda>a b. a = y \<longrightarrow> b \<noteq> x) s"
  by (induction s rule: induct_list012) auto

lemma pem_find_block:
  assumes pre: "hd pre \<noteq> CHR ''-''" "successively (\<lambda>a b. a = LF \<longrightarrow> b \<noteq> CHR ''-'') pre" "pre = [] \<or> last pre = LF"
  shows "pem_find (pre @ ''-----BEGIN '' @ r) = Some r"
proof (cases pre rule: rev_cases)
  case Nil
  then show ?thesis by (simp add: pem_find_def pemStart_def has_prefix_iff)
next
  case (snoc q c)
  with pre have q: "successively (\<lambda>a b. a = LF \<longrightarrow> b \<noteq> CHR ''-'') q" "pre = q @ [LF]"
    by (auto simp: successively_append_iff)
  have np: "\<not> has_prefix (pre @ ''-----BEGIN '' @ r) (tl pemStart)"
    using q pre(1) by (cases q) (auto simp: has_prefix_iff pemStart_def)
  have "index_str pemStart (pre @ ''-----BEGIN '' @ r) = Some (length q)"
    using index_str_first [of LF "CHR ''-''" q "''----BEGIN ''" r] q by (simp add: pemStart_def)
  with np q show ?thesis by (simp add: pem_find_def pemStart_def)
qed

lemma pem_headers_none:
  assumes "rest \<noteq> []" "CHR '':'' \<notin> set (takeWhile (\<lambda>c. c \<noteq> LF) rest)"
  shows "pem_headers h rest = Some (h, rest)"
  using assms set_get_line [of rest]
  by (subst pem_headers.simps) (auto split: prod.splits simp: subset_iff)

lemma set_join_lines: "set (join_lines ls) \<subseteq> insert LF (\<Union> (set ` set ls))"
  by (auto simp: join_lines_def)

lemma join_lines_snoc:
  assumes "ls \<noteq> []"
  obtains b where "join_lines ls = b @ [LF]"
  using assms by (cases ls rule: rev_cases) (auto simp: join_lines_def)

lemma filter_join_lines:
  "filter (\<lambda>c. c \<noteq> LF \<and> P c) (join_lines ls) = filter (\<lambda>c. c \<noteq> LF \<and> P c) (concat ls)"
  by (induction ls) (auto simp: join_lines_def)

lemma b64_join_lines: "b64_decode (join_lines ls) = b64_decode (concat ls)"
  by (simp add: b64_decode_def filter_join_lines)

lemma b64_decode_LF: "b64_decode (s @ [LF]) = b64_decode s"
  by (simp add: b64_decode_def)

lemma has_suffix_append [simp]: "has_suffix (a @ b) b"
  by (simp add: has_suffix_def has_prefix_iff)

text \<open>
  A block of lines without colons, dashes and blanks is read back, whatever precedes it up to a
  newline (no line of it beginning with a dash) and whatever follows its END line.
\<close>

definition plain_line :: "string \<Rightarrow> bool" where
  "plain_line l \<longleftrightarrow> list_all (\<lambda>c. c \<notin> {CHR '':'', CHR ''-'', CHR '' '', CHR 0x09}) l"

lemma pem_round_block:
  assumes ty: "LF \<notin> set ty" and ls: "ls \<noteq> []" "list_all plain_line ls" and tail: "tail = [] \<or> hd tail = LF"
    and bs: "b64_decode (concat ls) = Some bs"
  shows "pem_round (ty @ ''-----'' @ LF # join_lines ls @ ''-----END '' @ ty @ ''-----'' @ tail) =
    PemBlock ty bs (drop 1 tail)"
proof -
  obtain b where b: "join_lines ls = b @ [LF]" using ls(1) by (rule join_lines_snoc)
  have chars: "CHR '':'' \<notin> set b" "CHR ''-'' \<notin> set b" "CHR '' '' \<notin> set b" "CHR 0x09 \<notin> set b"
    using set_join_lines [of ls] ls(2) b by (auto simp: list_all_iff plain_line_def subset_iff) 
  define rest where "rest = b @ LF # ''-----END '' @ ty @ ''-----'' @ tail"
  have l1: "get_line (ty @ ''-----'' @ LF # rest) = (ty @ ''-----'', rest)"
    using get_line_append [of "ty @ ''-----''" "LF # rest"] ty by simp
  have hs: "pem_headers False rest = Some (False, rest)"
    using chars(1) by (intro pem_headers_none) (auto simp: rest_def takeWhile_append dest: set_takeWhileD)
  have "\<not> has_prefix rest (tl pemEnd)"
    using chars(2) by (cases b) (auto simp: rest_def pemEnd_def has_prefix_iff)
  moreover have "index_str pemEnd rest = Some (length b)"
    using index_str_first [of LF "CHR ''-''" b "''----END ''" "ty @ ''-----'' @ tail"] chars(2)
    by (simp add: rest_def pemEnd_def successively_no_char)
  ultimately have ends: "pem_end_index False rest = Some (length b, length b + length pemEnd)"
    by (simp add: pem_end_index_def)
  have "filter (\<lambda>c. c \<noteq> CHR '' '' \<and> c \<noteq> CHR 0x09) b = b"
    using chars by (auto simp: filter_id_conv)
  moreover have "b64_decode b = Some bs"
    using bs b64_decode_LF [of b] b64_join_lines [of ls] b by simp
  moreover have "snd (get_line (CHR '' '' # ty @ ''-----'' @ tail)) = drop 1 tail"
    using snd_get_line [of "CHR '' '' # ty @ ''-----''" tail] ty tail by simp
  moreover have "get_line tail = ([], drop 1 tail)"
    using get_line_append [of "[]" tail] tail by simp
  ultimately have "pem_body ty rest (length b, length b + length pemEnd) = PemBlock ty bs (drop 1 tail)"
    by (simp add: pem_body_def rest_def pemEnd_def pemEndOfLine_def has_prefix_iff)
  with l1 hs ends show ?thesis by (simp add: pem_round_def b rest_def pemEndOfLine_def)
qed

lemma pem_Decode_block:
  assumes "hd pre \<noteq> CHR ''-''" "successively (\<lambda>a b. a = LF \<longrightarrow> b \<noteq> CHR ''-'') pre" "pre = [] \<or> last pre = LF"
    and "LF \<notin> set ty" "ls \<noteq> []" "list_all plain_line ls" "tail = [] \<or> hd tail = LF"
    and "b64_decode (concat ls) = Some bs"
  shows "pem_Decode (pre @ pem_block ty ls @ tail) = (Some (ty, bs), drop 1 tail)"
  using pem_find_block [OF assms(1-3)] pem_round_block [OF assms(4-8)]
  by (subst pem_Decode_def, subst pem_scan.simps) (simp add: pem_block_def)

end
