(* ===== verification/RootCA.thy ===== *)
theory RootCA
  imports Pem
begin

text \<open>
  The certificates built into the server (\<open>cloudflareRootCA\<close> of \<open>src/server/cfd/tls.go\<close>), line by line,
  and \<open>GetCloudflareRootCA\<close>, which parses them. The parser of certificates is an argument.
\<close>

section \<open>The text\<close>

definition issuer_ecc :: string where
  "issuer_ecc = ''Issuer: C=US, ST=California, L=San Francisco, O=CloudFlare, Inc., OU=CloudFlare Origin SSL ECC Certificate Authority''"

definition root_ecc :: "string list" where
  "root_ecc = [
     ''MIICiTCCAi6gAwIBAgIUXZP3MWb8MKwBE1Qbawsp1sfA/Y4wCgYIKoZIzj0EAwIw'',
     ''gY8xCzAJBgNVBAYTAlVTMRMwEQYDVQQIEwpDYWxpZm9ybmlhMRYwFAYDVQQHEw1T'',
     ''YW4gRnJhbmNpc2NvMRkwFwYDVQQKExBDbG91ZEZsYXJlLCBJbmMuMTgwNgYDVQQL'',
     ''Ey9DbG91ZEZsYXJlIE9yaWdpbiBTU0wgRUNDIENlcnRpZmljYXRlIEF1dGhvcml0'',
     ''eTAeFw0xOTA4MjMyMTA4MDBaFw0yOTA4MTUxNzAwMDBaMIGPMQswCQYDVQQGEwJV'',
     ''UzETMBEGA1UECBMKQ2FsaWZvcm5pYTEWMBQGA1UEBxMNU2FuIEZyYW5jaXNjbzEZ'',
     ''MBcGA1UEChMQQ2xvdWRGbGFyZSwgSW5jLjE4MDYGA1UECxMvQ2xvdWRGbGFyZSBP'',
     ''cmlnaW4gU1NMIEVDQyBDZXJ0aWZpY2F0ZSBBdXRob3JpdHkwWTATBgcqhkjOPQIB'',
     ''BggqhkjOPQMBBwNCAASR+sGALuaGshnUbcxKry+0LEXZ4NY6JUAtSeA6g87K3jaA'',
     ''xpIg9G50PokpfWkhbarLfpcZu0UAoYy2su0EhN7wo2YwZDAOBgNVHQ8BAf8EBAMC'',
     ''AQYwEgYDVR0TAQH/BAgwBgEB/wIBAjAdBgNVHQ4EFgQUhTBdOypw1O3VkmcH/es5'',
     ''tBoOOKcwHwYDVR0jBBgwFoAUhTBdOypw1O3VkmcH/es5tBoOOKcwCgYIKoZIzj0E'',
     ''AwIDSQAwRgIhAKilfntP2ILGZjwajktkBtXE1pB4Y/fjAfLkIRUzrI15AiEA5UCL'',
     ''XYZZ9m2c3fKwIenMMojL1eqydsgqj/wK4p5kagQ='']"

definition issuer_rsa :: string where
  "issuer_rsa = ''Issuer: C=US, O=CloudFlare, Inc., OU=CloudFlare Origin SSL Certificate Authority, L=San Francisco, ST=California''"

definition root_rsa :: "string list" where
  "root_rsa = [
     ''MIIEADCCAuigAwIBAgIID+rOSdTGfGcwDQYJKoZIhvcNAQELBQAwgYsxCzAJBgNV'',
     ''BAYTAlVTMRkwFwYDVQQKExBDbG91ZEZsYXJlLCBJbmMuMTQwMgYDVQQLEytDbG91'',
     ''ZEZsYXJlIE9yaWdpbiBTU0wgQ2VydGlmaWNhdGUgQXV0aG9yaXR5MRYwFAYDVQQH'',
     ''Ew1TYW4gRnJhbmNpc2NvMRMwEQYDVQQIEwpDYWxpZm9ybmlhMB4XDTE5MDgyMzIx'',
     ''MDgwMFoXDTI5MDgxNTE3MDAwMFowgYsxCzAJBgNVBAYTAlVTMRkwFwYDVQQKExBD'',
     ''bG91ZEZsYXJlLCBJbmMuMTQwMgYDVQQLEytDbG91ZEZsYXJlIE9yaWdpbiBTU0wg'',
     ''Q2VydGlmaWNhdGUgQXV0aG9yaXR5MRYwFAYDVQQHEw1TYW4gRnJhbmNpc2NvMRMw'',
     ''EQYDVQQIEwpDYWxpZm9ybmlhMIIBIjANBgkqhkiG9w0BAQEFAAOCAQ8AMIIBCgKC'',
     ''AQEAwEiVZ/UoQpHmFsHvk5isBxRehukP8DG9JhFev3WZtG76WoTthvLJFRKFCHXm'',
     ''V6Z5/66Z4S09mgsUuFwvJzMnE6Ej6yIsYNCb9r9QORa8BdhrkNn6kdTly3mdnykb'',
     ''OomnwbUfLlExVgNdlP0XoRoeMwbQ4598foiHblO2B/LKuNfJzAMfS7oZe34b+vLB'',
     ''yrP/1bgCSLdc1AxQc1AC0EsQQhgcyTJNgnG4va1c7ogPlwKyhbDyZ4e59N5lbYPJ'',
     ''SmXI/cAe3jXj1FBLJZkwnoDKe0v13xeF+nF32smSH0qB7aJX2tBMW4TWtFPmzs5I'',
     ''lwrFSySWAdwYdgxw180yKU0dvwIDAQABo2YwZDAOBgNVHQ8BAf8EBAMCAQYwEgYD'',
     ''VR0TAQH/BAgwBgEB/wIBAjAdBgNVHQ4EFgQUJOhTV118NECHqeuU27rhFnj8KaQw'',
     ''HwYDVR0jBBgwFoAUJOhTV118NECHqeuU27rhFnj8KaQwDQYJKoZIhvcNAQELBQAD'',
     ''ggEBAHwOf9Ur1l0Ar5vFE6PNrZWrDfQIMyEfdgSKofCdTckbqXNTiXdgbHs+TWoQ'',
     ''wAB0pfJDAHJDXOTCWRyTeXOseeOi5Btj5CnEuw3P0oXqdqevM1/+uWp0CM35zgZ8'',
     ''VD4aITxity0djzE6Qnx3Syzz+ZkoBgTnNum7d9A66/V636x4vTeqbZFBr9erJzgz'',
     ''hhurjcoacvRNhnjtDRM0dPeiCJ50CP3wEYuvUzDHUaowOsnLCjQIkWbR7Ni6KEIk'',
     ''MOz2U0OBSif3FTkhCgZWQKOOLo1P42jHC3ssUZAtVNXrCk3fw9/E15k8NPkBazZ6'',
     ''0iykLhH1trywrKRMVw67F44IE8Y='']"

definition issuer_pull :: string where
  "issuer_pull = ''Issuer: C=US, O=CloudFlare, Inc., OU=Origin Pull, L=San Francisco, ST=California, CN=origin-pull.cloudflare.net''"

definition root_pull :: "string list" where
  "root_pull = [
     ''MIIGCjCCA/KgAwIBAgIIV5G6lVbCLmEwDQYJKoZIhvcNAQENBQAwgZAxCzAJBgNV'',
     ''BAYTAlVTMRkwFwYDVQQKExBDbG91ZEZsYXJlLCBJbmMuMRQwEgYDVQQLEwtPcmln'',
     ''aW4gUHVsbDEWMBQGA1UEBxMNU2FuIEZyYW5jaXNjbzETMBEGA1UECBMKQ2FsaWZv'',
     ''cm5pYTEjMCEGA1UEAxMab3JpZ2luLXB1bGwuY2xvdWRmbGFyZS5uZXQwHhcNMTkx'',
     ''MDEwMTg0NTAwWhcNMjkxMTAxMTcwMDAwWjCBkDELMAkGA1UEBhMCVVMxGTAXBgNV'',
     ''BAoTEENsb3VkRmxhcmUsIEluYy4xFDASBgNVBAsTC09yaWdpbiBQdWxsMRYwFAYD'',
     ''VQQHEw1TYW4gRnJhbmNpc2NvMRMwEQYDVQQIEwpDYWxpZm9ybmlhMSMwIQYDVQQD'',
     ''ExpvcmlnaW4tcHVsbC5jbG91ZGZsYXJlLm5ldDCCAiIwDQYJKoZIhvcNAQEBBQAD'',
     ''ggIPADCCAgoCggIBAN2y2zojYfl0bKfhp0AJBFeV+jQqbCw3sHmvEPwLmqDLqynI'',
     ''42tZXR5y914ZB9ZrwbL/K5O46exd/LujJnV2b3dzcx5rtiQzso0xzljqbnbQT20e'',
     ''ihx/WrF4OkZKydZzsdaJsWAPuplDH5P7J82q3re88jQdgE5hqjqFZ3clCG7lxoBw'',
     ''hLaazm3NJJlUfzdk97ouRvnFGAuXd5cQVx8jYOOeU60sWqmMe4QHdOvpqB91bJoY'',
     ''QSKVFjUgHeTpN8tNpKJfb9LIn3pun3bC9NKNHtRKMNX3Kl/sAPq7q/AlndvA2Kw3'',
     ''Dkum2mHQUGdzVHqcOgea9BGjLK2h7SuX93zTWL02u799dr6Xkrad/WShHchfjjRn'',
     ''aL35niJUDr02YJtPgxWObsrfOU63B8juLUphW/4BOjjJyAG5l9j1//aUGEi/sEe5'',
     ''lqVv0P78QrxoxR+MMXiJwQab5FB8TG/ac6mRHgF9CmkX90uaRh+OC07XjTdfSKGR'',
     ''PpM9hB2ZhLol/nf8qmoLdoD5HvODZuKu2+muKeVHXgw2/A6wM7OwrinxZiyBk5Hh'',
     ''CvaADH7PZpU6z/zv5NU5HSvXiKtCzFuDu4/Zfi34RfHXeCUfHAb4KfNRXJwMsxUa'',
     ''+4ZpSAX2G6RnGU5meuXpU5/V+DQJp/e69XyyY6RXDoMywaEFlIlXBqjRRA2pAgMB'',
     ''AAGjZjBkMA4GA1UdDwEB/wQEAwIBBjASBgNVHRMBAf8ECDAGAQH/AgECMB0GA1Ud'',
     ''DgQWBBRDWUsraYuA4REzalfNVzjann3F6zAfBgNVHSMEGDAWgBRDWUsraYuA4REz'',
     ''alfNVzjann3F6zANBgkqhkiG9w0BAQ0FAAOCAgEAkQ+T9nqcSlAuW/90DeYmQOW1'',
     ''QhqOor5psBEGvxbNGV2hdLJY8h6QUq48BCevcMChg/L1CkznBNI40i3/6heDn3IS'',
     ''zVEwXKf34pPFCACWVMZxbQjkNRTiH8iRur9EsaNQ5oXCPJkhwg2+IFyoPAAYURoX'',
     ''VcI9SCDUa45clmYHJ/XYwV1icGVI8/9b2JUqklnOTa5tugwIUi5sTfipNcJXHhgz'',
     ''6BKYDl0/UP0lLKbsUETXeTGDiDpxZYIgbcFrRDDkHC6BSvdWVEiH5b9mH2BON60z'',
     ''0O0j8EEKTwi9jnafVtZQXP/D8yoVowdFDjXcKkOPF/1gIh9qrFR6GdoPVgB3SkLc'',
     ''5ulBqZaCHm563jsvWb/kXJnlFxW+1bsO9BDD6DweBcGdNurgmH625wBXksSdD7y/'',
     ''fakk8DagjbjKShYlPEFOAqEcliwjF45eabL0t27MJV61O/jHzHL3dknXeE4BDa2j'',
     ''bA+JbyJeUMtU7KMsxvx82RmhqBEJJDBCJ3scVptvhDMRrtqDBW5JShxoAOcpFQGm'',
     ''iYWicn46nPDjgTU0bX1ZPpTpryXbvciVL5RkVBuyX2ntcOLDPlZWgxZCBp96x07F'',
     ''AnOzKgZk4RzZPNAxCXERVxajn/FLcOhglVAKo5H0ac+AitlQ0ip55D2/mf8o72tM'',
     ''fVQ6VpyjEXdiIXWUq/o='']"

definition cloudflareRootCA :: string where
  "cloudflareRootCA =
     LF # issuer_ecc @ LF # pem_block ''CERTIFICATE'' root_ecc @
     LF # issuer_rsa @ LF # pem_block ''CERTIFICATE'' root_rsa @
     LF # issuer_pull @ LF # pem_block ''CERTIFICATE'' root_pull"

section \<open>Parsing it\<close>

text \<open>\<open>parse\<close> is \<open>x509.ParseCertificate\<close>. Blocks of another type are skipped.\<close>

function root_ca_loop :: "(bytes \<Rightarrow> go_error + 'x) \<Rightarrow> string \<Rightarrow> 'x list \<Rightarrow> go_error + 'x list" where
  "root_ca_loop parse pemBlocks certs =
     (if pemBlocks = [] then Inr certs
      else
        (case pem_Decode pemBlocks of
           (None, rest) \<Rightarrow> Inr certs
         | (Some (ty, content), rest) \<Rightarrow>
             if ty \<noteq> ''CERTIFICATE'' then root_ca_loop parse rest certs
             else (case parse content of
                     Inl e \<Rightarrow> Inl e
                   | Inr cert \<Rightarrow> root_ca_loop parse rest (certs @ [cert]))))"
  by pat_completeness auto
termination
  by (relation "measure (\<lambda>(parse, pemBlocks, certs). length pemBlocks)")
    (simp_all, (metis pem_Decode_shorter)+)

declare root_ca_loop.simps [simp del]

definition GetCloudflareRootCA :: "(bytes \<Rightarrow> go_error + 'x) \<Rightarrow> go_error + 'x list" where
  "GetCloudflareRootCA parse = root_ca_loop parse cloudflareRootCA []"

section \<open>Lemmas\<close>

text \<open>Lines that decode: whole groups of the alphabet, and a last line that may end in padding.\<close>

definition is_b64 :: "char \<Rightarrow> bool" where
  "is_b64 c \<longleftrightarrow> c \<in> set b64_alphabet"

fun b64_line :: "string \<Rightarrow> bool" where
  "b64_line [] = True"
| "b64_line (w # x # y # z # cs) = (is_b64 w \<and> is_b64 x \<and> is_b64 y \<and> is_b64 z \<and> b64_line cs)"
| "b64_line cs = False"

fun b64_last_line :: "string \<Rightarrow> bool" where
  "b64_last_line [w, x, y, z] =
     (is_b64 w \<and> is_b64 x \<and> (y = CHR ''='' \<and> z = CHR ''='' \<or> is_b64 y \<and> (z = CHR ''='' \<or> is_b64 z)))"
| "b64_last_line (w # x # y # z # c # cs) =
     (is_b64 w \<and> is_b64 x \<and> is_b64 y \<and> is_b64 z \<and> b64_last_line (c # cs))"
| "b64_last_line cs = False"

lemma is_b64_all: "list_all is_b64 b64_alphabet"
  by (simp add: is_b64_def list_all_iff)

lemmas is_b64_chars = is_b64_all [unfolded b64_alphabet_def, simplified]

lemma is_b64_index:
  assumes "is_b64 c"
  obtains i where "b64_index c = Some i" "c \<noteq> CHR ''=''" "c \<noteq> LF" "c \<noteq> CHR 0x0D"
proof -
  have "c \<in> set xs \<Longrightarrow> \<exists>n. index_from i xs c = Some n" for i xs by (induction xs arbitrary: i) auto
  then obtain i where "b64_index c = Some i" using assms by (auto simp: b64_index_def is_b64_def)
  moreover have "c \<noteq> CHR ''='' \<and> c \<noteq> LF \<and> c \<noteq> CHR 0x0D"
    using assms by (auto simp: is_b64_def b64_alphabet_def)
  ultimately show thesis using that by blast
qed

lemma b64_line_decodes:
  "b64_line l \<Longrightarrow> b64_decode_chars s = Some bs \<Longrightarrow> \<exists>bs'. b64_decode_chars (l @ s) = Some bs'"
  by (induction l rule: b64_line.induct) (auto elim!: is_b64_index)

lemma b64_last_line_decodes: "b64_last_line l \<Longrightarrow> \<exists>bs. b64_decode_chars l = Some bs"
  by (induction l rule: b64_last_line.induct) (auto elim!: is_b64_index)

lemma b64_line_newlines: "b64_line l \<Longrightarrow> filter (\<lambda>c. c \<noteq> LF \<and> c \<noteq> CHR 0x0D) l = l"
  by (induction l rule: b64_line.induct) (auto elim!: is_b64_index)

lemma b64_last_line_newlines: "b64_last_line l \<Longrightarrow> filter (\<lambda>c. c \<noteq> LF \<and> c \<noteq> CHR 0x0D) l = l"
  by (induction l rule: b64_last_line.induct) (auto elim!: is_b64_index)

lemma b64_decode_lines:
  assumes "list_all b64_line ls" "b64_last_line l"
  shows "\<exists>bs. b64_decode (concat ls @ l) = Some bs"
  using assms(1)
proof (induction ls)
  case Nil
  then show ?case using assms(2) by (simp add: b64_decode_def b64_last_line_newlines b64_last_line_decodes)
next
  case (Cons k ls)
  then show ?case by (auto simp: b64_decode_def b64_line_newlines intro: b64_line_decodes)
qed

lemma root_ca_block:
  assumes "LF \<notin> set issuer" "issuer \<noteq> []" "hd issuer \<noteq> CHR ''-''" "ls \<noteq> []" "list_all plain_line ls" "tail = [] \<or> hd tail = LF"
    and "b64_decode (concat ls) = Some bs" "nl \<in> {[], [LF]}"
  shows "root_ca_loop parse (nl @ issuer @ LF # pem_block ''CERTIFICATE'' ls @ tail) certs =
    (case parse bs of Inl e \<Rightarrow> Inl e | Inr cert \<Rightarrow> root_ca_loop parse (drop 1 tail) (certs @ [cert]))"
proof -
  have "successively (\<lambda>a b. a = LF \<longrightarrow> b \<noteq> CHR ''-'') (issuer @ [LF])"
    using assms(1) by (induction issuer rule: induct_list012) auto
  then have "successively (\<lambda>a b. a = LF \<longrightarrow> b \<noteq> CHR ''-'') (nl @ issuer @ [LF])"
    using assms(2,3,8) by (cases issuer) auto
  moreover have "hd (nl @ issuer @ [LF]) \<noteq> CHR ''-''" using assms(2,3,8) by auto
  ultimately show ?thesis
    using pem_Decode_block [of "nl @ issuer @ [LF]" "''CERTIFICATE''" ls tail bs] assms
    by (subst root_ca_loop.simps) (auto split: sum.split)
qed

lemma is_b64_plain: "is_b64 c \<Longrightarrow> c \<notin> {CHR '':'', CHR ''-'', CHR '' '', CHR 0x09}"
  by (auto simp: is_b64_def b64_alphabet_def)

lemma b64_line_plain: "b64_line l \<Longrightarrow> plain_line l"
  by (induction l rule: b64_line.induct) (auto simp: plain_line_def dest!: is_b64_plain)

lemma b64_last_line_plain: "b64_last_line l \<Longrightarrow> plain_line l"
  by (induction l rule: b64_last_line.induct) (auto simp: plain_line_def dest!: is_b64_plain)

lemmas root_defs = root_ecc_def root_rsa_def root_pull_def

lemma roots_b64:
  "list_all b64_line (butlast root_ecc)" "list_all b64_line (butlast root_rsa)" "list_all b64_line (butlast root_pull)"
  "b64_last_line (last root_ecc)" "b64_last_line (last root_rsa)" "b64_last_line (last root_pull)"
  by (simp_all add: root_defs is_b64_chars)

lemma issuers_plain:
  "list_all (\<lambda>s. LF \<notin> set s \<and> s \<noteq> [] \<and> hd s \<noteq> CHR ''-'') [issuer_ecc, issuer_rsa, issuer_pull]"
  by code_simp

lemma root_decodes:
  assumes "ls \<in> {root_ecc, root_rsa, root_pull}"
  shows "ls \<noteq> []" "list_all plain_line ls" "\<exists>bs. b64_decode (concat ls) = Some bs"
proof -
  show ls: "ls \<noteq> []" using assms by (auto simp: root_defs)
  have b64: "list_all b64_line (butlast ls)" "b64_last_line (last ls)" using assms roots_b64 by auto
  have split: "butlast ls @ [last ls] = ls" using ls by simp
  have "list_all plain_line (butlast ls @ [last ls])"
    using b64 by (auto simp: list_all_iff b64_line_plain b64_last_line_plain simp del: append_butlast_last_id)
  then show "list_all plain_line ls" by (simp only: split)
  obtain bs where "b64_decode (concat (butlast ls) @ last ls) = Some bs"
    using b64_decode_lines [OF b64] by blast
  moreover have "concat (butlast ls) @ last ls = concat ls" using arg_cong [OF split, of concat] by simp
  ultimately show "\<exists>bs. b64_decode (concat ls) = Some bs" unfolding split by auto
qed

text \<open>
  The text holds exactly the three certificates: the pool gets them in order, and the first that does
  not parse is the error.
\<close>

lemma root_certificates:
  fixes parse :: "bytes \<Rightarrow> go_error + 'x"
  shows "\<exists>a b c. map (b64_decode \<circ> concat) [root_ecc, root_rsa, root_pull] = [Some a, Some b, Some c] \<and>
    GetCloudflareRootCA parse =
      (case parse a of Inl e \<Rightarrow> Inl e
       | Inr x \<Rightarrow> (case parse b of Inl e \<Rightarrow> Inl e
          | Inr y \<Rightarrow> (case parse c of Inl e \<Rightarrow> Inl e | Inr z \<Rightarrow> Inr [x, y, z])))"
proof -
  obtain a b c where abc: "b64_decode (concat root_ecc) = Some a" "b64_decode (concat root_rsa) = Some b"
      "b64_decode (concat root_pull) = Some c"
    using root_decodes(3) [of root_ecc] root_decodes(3) [of root_rsa] root_decodes(3) [of root_pull] by auto
  have iss: "LF \<notin> set s \<and> s \<noteq> [] \<and> hd s \<noteq> CHR ''-''" if "s \<in> {issuer_ecc, issuer_rsa, issuer_pull}" for s
    using issuers_plain that by auto
  define t3 where "t3 = LF # issuer_pull @ LF # pem_block ''CERTIFICATE'' root_pull @ []"
  define t2 where "t2 = LF # issuer_rsa @ LF # pem_block ''CERTIFICATE'' root_rsa @ t3"
  have "root_ca_loop parse (drop 1 t3) cs = (case parse c of Inl e \<Rightarrow> Inl e | Inr z \<Rightarrow> Inr (cs @ [z]))" for cs
    using root_ca_block [of issuer_pull root_pull "[]" c "[]" parse cs] iss root_decodes abc
    by (simp add: t3_def root_ca_loop.simps [of _ "[]"] split: sum.split)
  moreover have "root_ca_loop parse (drop 1 t2) cs =
      (case parse b of Inl e \<Rightarrow> Inl e | Inr y \<Rightarrow> root_ca_loop parse (drop 1 t3) (cs @ [y]))" for cs
    using root_ca_block [of issuer_rsa root_rsa t3 b "[]" parse cs] iss root_decodes abc
    by (simp add: t2_def t3_def)
  moreover have "GetCloudflareRootCA parse =
      (case parse a of Inl e \<Rightarrow> Inl e | Inr x \<Rightarrow> root_ca_loop parse (drop 1 t2) [x])"
    using root_ca_block [of issuer_ecc root_ecc t2 a "[LF]" parse "[]"] iss root_decodes abc
    by (simp add: GetCloudflareRootCA_def cloudflareRootCA_def t2_def t3_def split: sum.split)
  ultimately have "GetCloudflareRootCA parse =
    (case parse a of Inl e \<Rightarrow> Inl e
     | Inr x \<Rightarrow> (case parse b of Inl e \<Rightarrow> Inl e
        | Inr y \<Rightarrow> (case parse c of Inl e \<Rightarrow> Inl e | Inr z \<Rightarrow> Inr [x, y, z])))"
    by (simp split: sum.split)
  with abc show ?thesis by (intro exI [of _ a] exI [of _ b] exI [of _ c]) simp
qed

end
