(* ===== verification/EdgeTunnel.thy ===== *)
theory EdgeTunnel
  imports Connection Token NetipParse RootCA
begin

text \<open>
  The server's side of a connection to the edge: \<open>src/server/cfd/tunnel.go\<close> (which edge address a
  connection dials, \<open>Serve\<close>, \<open>serveQUIC\<close>), \<open>src/server/cfd/quic.go\<close> (the UDP socket per connection index
  and the QUIC connection over it) and \<open>src/server/cfd/tls.go\<close> (the roots of trust, whose text is in
  \<open>RootCA\<close>). Name lookups, sockets, quic-go and x509 answer through arguments.
\<close>

section \<open>The edge address\<close>

type_synonym addr_port = "addr \<times> u16"

record edge_server =
  es_Token :: string
  es_EdgeIPS :: "addr_port chan option"
  es_EdgeBindAddr :: "bytes option"
  es_NsResult :: "string list"

text \<open>\<open>net.LookupHost\<close> answers addresses in their textual form, or an error.\<close>

type_synonym resolver = "string \<Rightarrow> go_error + string list"

definition lookup_edges :: "resolver \<Rightarrow> string list \<Rightarrow> string list" where
  "lookup_edges lookup ns =
     (if ns \<noteq> [] then ns
      else
        let ns1 = (case lookup ''region1.v2.argotunnel.com'' of Inr ips \<Rightarrow> ips | Inl _ \<Rightarrow> ns)
        in (case lookup ''region2.v2.argotunnel.com'' of Inr ips \<Rightarrow> ns1 @ ips | Inl _ \<Rightarrow> ns1))"

definition edge_addr_text :: "string list \<Rightarrow> nat \<Rightarrow> string" where
  "edge_addr_text ns index =
     (if index < length ns then
        (if CHR '':'' \<in> set (ns ! index) then ''['' @ ns ! index @ '']:7844'' else ns ! index @ '':7844'')
      else ''198.41.192.'' @ itoa index @ '':7844'')"

text \<open>
  \<open>getEdgeIP\<close>: the next configured address; when there is none (or no channel), a resolved one. A
  parse error is ignored, which leaves the zero \<open>AddrPort\<close>.
\<close>

definition getEdgeIP :: "resolver \<Rightarrow> nat \<Rightarrow> edge_server \<Rightarrow> addr_port \<times> edge_server" where
  "getEdgeIP lookup index e =
     (case (case es_EdgeIPS e of None \<Rightarrow> RecvBlock | Some ch \<Rightarrow> chan_recv ch) of
        RecvVal a ch \<Rightarrow> (a, e\<lparr>es_EdgeIPS := Some ch\<rparr>)
      | RecvClosed \<Rightarrow> ((AddrZero, 0), e)
      | RecvBlock \<Rightarrow>
          let ns = lookup_edges lookup (es_NsResult e) in
          ((case ParseAddrPort (edge_addr_text ns index) of Some ap \<Rightarrow> ap | None \<Rightarrow> (AddrZero, 0)),
           e\<lparr>es_NsResult := ns\<rparr>))"

section \<open>UDP sockets and QUIC connections\<close>

text \<open>
  A UDP socket with the port of its local address, \<open>None\<close> when that is not a \<open>*net.UDPAddr\<close>.
  \<open>listen\<close> is \<open>net.ListenUDP\<close>; its first argument counts the calls.
\<close>

record udp_sock =
  so_id :: nat
  so_port :: "int option"

type_synonym listener = "nat \<Rightarrow> string \<Rightarrow> bytes option \<Rightarrow> int \<Rightarrow> go_error + udp_sock"

type_synonym port_map = "byte \<rightharpoonup> int"

definition listen_network :: "string \<Rightarrow> addr_port \<Rightarrow> string" where
  "listen_network goos edge =
     (if goos = ''darwin'' then (if addr_is4 (fst edge) then ''udp4'' else ''udp6'') else ''udp'')"

definition createUDPConnForConnIndex :: "listener \<Rightarrow> string \<Rightarrow> byte \<Rightarrow> bytes option \<Rightarrow> addr_port \<Rightarrow> port_map
    \<Rightarrow> (go_error + udp_sock) \<times> port_map" where
  "createUDPConnForConnIndex listen goos connIndex localIP edge ports =
     (let net = listen_network goos edge in
      case (case ports connIndex of
              Some port \<Rightarrow> (case listen 0 net localIP port of Inr c \<Rightarrow> Some c | Inl _ \<Rightarrow> None)
            | None \<Rightarrow> None) of
        Some c \<Rightarrow> (Inr c, ports)
      | None \<Rightarrow>
          (case listen 1 net localIP 0 of
             Inr c \<Rightarrow>
               (case so_port c of
                  None \<Rightarrow> (Inl (ErrText ''unable to cast to udpConn''), ports)
                | Some p \<Rightarrow> (Inr c, ports(connIndex \<mapsto> p)))
           | Inl e \<Rightarrow> (Inl e, ports(connIndex := None))))"

text \<open>
  The QUIC connection wrapped with its socket. The state keeps the ports and which sockets and
  connections were closed.
\<close>

record 'c wrap_conn =
  wc_Connection :: 'c
  wc_udpConn :: udp_sock

record 'c quic_sys =
  qu_ports :: port_map
  qu_closedSocks :: "nat list"
  qu_closedConns :: "'c list"

definition DialQuic :: "listener \<Rightarrow> string \<Rightarrow> (udp_sock \<Rightarrow> addr_port \<Rightarrow> go_error + 'c) \<Rightarrow> addr_port
    \<Rightarrow> bytes option \<Rightarrow> byte \<Rightarrow> 'c quic_sys \<Rightarrow> (go_error + 'c wrap_conn) \<times> 'c quic_sys" where
  "DialQuic listen goos quic_Dial edgeAddr localAddr connIndex s =
     (case createUDPConnForConnIndex listen goos connIndex localAddr edgeAddr (qu_ports s) of
        (Inl e, ports) \<Rightarrow> (Inl e, s\<lparr>qu_ports := ports\<rparr>)
      | (Inr sock, ports) \<Rightarrow>
          (case quic_Dial sock edgeAddr of
             Inl e \<Rightarrow> (Inl e, s\<lparr>qu_ports := ports, qu_closedSocks := qu_closedSocks s @ [so_id sock]\<rparr>)
           | Inr c \<Rightarrow> (Inr \<lparr>wc_Connection = c, wc_udpConn = sock\<rparr>, s\<lparr>qu_ports := ports\<rparr>)))"

definition CloseWithError :: "('c \<Rightarrow> go_error option) \<Rightarrow> 'c wrap_conn \<Rightarrow> 'c quic_sys
    \<Rightarrow> go_error option \<times> 'c quic_sys" where
  "CloseWithError close_conn w s =
     (close_conn (wc_Connection w),
      s\<lparr>qu_closedConns := qu_closedConns s @ [wc_Connection w],
        qu_closedSocks := qu_closedSocks s @ [so_id (wc_udpConn w)]\<rparr>)"

section \<open>Trust roots\<close>

record 'x tls_config =
  tl_ServerName :: string
  tl_CurvePreferences :: "string list"
  tl_MinVersion :: u16
  tl_MaxVersion :: u16
  tl_RootCAs :: "'x list"
  tl_NextProtos :: "string list"

text \<open>
  The system's pool (\<open>x509.SystemCertPool\<close>) with the built-in certificates added; \<open>parse\<close> is
  \<open>x509.ParseCertificate\<close>. The fields of \<open>TLSParameters\<close> that are not set are zero.
\<close>

record cert_reloader =
  cr_certificate :: "bytes list option"
  cr_certPath :: string
  cr_keyPath :: string

record tls_parameters =
  tp_Cert :: string
  tp_Key :: string
  tp_GetCertificate :: "cert_reloader option"
  tp_GetClientCertificate :: "cert_reloader option"
  tp_ClientCAs :: "string list"
  tp_RootCAs :: "string list"
  tp_ServerName :: string
  tp_CurvePreferences :: "string list"
  tp_MinVersion :: u16
  tp_MaxVersion :: u16

definition zero_parameters :: tls_parameters where
  "zero_parameters =
     \<lparr>tp_Cert = [], tp_Key = [], tp_GetCertificate = None, tp_GetClientCertificate = None, tp_ClientCAs = [],
      tp_RootCAs = [], tp_ServerName = [], tp_CurvePreferences = [], tp_MinVersion = 0, tp_MaxVersion = 0\<rparr>"

definition CreateTunnelConfig :: "go_error + 'x list \<Rightarrow> (bytes \<Rightarrow> go_error + 'x) \<Rightarrow> string \<Rightarrow> go_error + 'x tls_config" where
  "CreateTunnelConfig systemPool parse serverName =
     (let userConfig = zero_parameters\<lparr>tp_RootCAs := [], tp_ServerName := serverName\<rparr> in
      case systemPool of
        Inl e \<Rightarrow> Inl (ErrText ''unable to get x509 system cert pool'')
      | Inr pool \<Rightarrow>
          (case GetCloudflareRootCA parse of
             Inl e \<Rightarrow> Inl (ErrText ''could not append Cloudflare Root CAs to cloudflared certificate pool'')
           | Inr certs \<Rightarrow>
               Inr \<lparr>tl_ServerName = tp_ServerName userConfig, tl_CurvePreferences = [''P256''],
                 tl_MinVersion = tp_MinVersion userConfig, tl_MaxVersion = tp_MaxVersion userConfig,
                 tl_RootCAs = pool @ certs, tl_NextProtos = []\<rparr>))"

section \<open>Serving\<close>

definition initial_packet_size :: "addr_port \<Rightarrow> u16" where
  "initial_packet_size edge = (if addr_is4 (fst edge) then 1232 else 1252)"

text \<open>The settings of the QUIC connection; durations are in nanoseconds.\<close>

record quic_config =
  qg_HandshakeIdleTimeout :: int
  qg_MaxIdleTimeout :: int
  qg_KeepAlivePeriod :: int
  qg_MaxIncomingStreams :: int
  qg_MaxIncomingUniStreams :: int
  qg_EnableDatagrams :: bool
  qg_InitialPacketSize :: u16

definition HandshakeIdleTimeout :: int where "HandshakeIdleTimeout = 5 * 1000000000"
definition MaxIdleTimeout :: int where "MaxIdleTimeout = 5 * 1000000000"
definition MaxIdlePingPeriod :: int where "MaxIdlePingPeriod = 1 * 1000000000"
definition MaxIncomingStreams :: int where "MaxIncomingStreams = 2 ^ 60"

definition edge_quic_config :: "addr_port \<Rightarrow> quic_config" where
  "edge_quic_config edge =
     \<lparr>qg_HandshakeIdleTimeout = HandshakeIdleTimeout, qg_MaxIdleTimeout = MaxIdleTimeout,
      qg_KeepAlivePeriod = MaxIdlePingPeriod, qg_MaxIncomingStreams = MaxIncomingStreams,
      qg_MaxIncomingUniStreams = MaxIncomingStreams, qg_EnableDatagrams = True,
      qg_InitialPacketSize = initial_packet_size edge\<rparr>"

text \<open>\<open>QuicConnection\<close> as \<open>NewTunnelConnection\<close> builds it; the two durations are in nanoseconds.\<close>

record 'c quic_connection =
  qc_conn :: 'c
  qc_connIndex :: byte
  qc_rpcTimeout :: int
  qc_gracePeriod :: int

definition NewTunnelConnection :: "'c \<Rightarrow> byte \<Rightarrow> int \<Rightarrow> int \<Rightarrow> 'c quic_connection" where
  "NewTunnelConnection c connIndex rpcTimeout gracePeriod =
     \<lparr>qc_conn = c, qc_connIndex = connIndex, qc_rpcTimeout = rpcTimeout, qc_gracePeriod = gracePeriod\<rparr>"

definition QuicConnection_Close :: "('c \<Rightarrow> go_error option) \<Rightarrow> 'c wrap_conn quic_connection \<Rightarrow> 'c quic_sys \<Rightarrow> 'c quic_sys" where
  "QuicConnection_Close close_conn q s = snd (CloseWithError close_conn (qc_conn q) s)"

text \<open>
  What a \<open>Serve\<close> comes to: an error before the connection is up, or a QUIC connection to the edge that is
  then served (\<open>Connection_Serve\<close>) with the given credentials. \<open>quic_Dial\<close> is \<open>quic.Dial\<close>, given the TLS
  and the QUIC settings.
\<close>

datatype 'c serve_result = ServeError go_error | Serving "'c wrap_conn quic_connection" credentials

definition serveQUIC :: "go_error + 'x list \<Rightarrow> (bytes \<Rightarrow> go_error + 'x)
    \<Rightarrow> ('x tls_config \<Rightarrow> quic_config \<Rightarrow> udp_sock \<Rightarrow> addr_port \<Rightarrow> go_error + 'c) \<Rightarrow> listener \<Rightarrow> string
    \<Rightarrow> addr_port \<Rightarrow> bytes option \<Rightarrow> credentials \<Rightarrow> int \<Rightarrow> int \<Rightarrow> byte \<Rightarrow> 'c quic_sys \<Rightarrow> 'c serve_result \<times> 'c quic_sys" where
  "serveQUIC systemPool parse quic_Dial listen goos edgeAddr bind cred rpcTimeout gracePeriod connIndex s =
     (case CreateTunnelConfig systemPool parse ''quic.cftunnel.com'' of
        Inl e \<Rightarrow> (ServeError (ErrText (''unable to create TLS config to connect with edge: '' @ error_text e)), s)
      | Inr cfg \<Rightarrow>
          (case DialQuic listen goos (quic_Dial (cfg\<lparr>tl_NextProtos := [''argotunnel'']\<rparr>) (edge_quic_config edgeAddr))
                  edgeAddr bind connIndex s of
             (Inl e, s') \<Rightarrow> (ServeError e, s')
           | (Inr w, s') \<Rightarrow> (Serving (NewTunnelConnection w connIndex rpcTimeout gracePeriod) cred, s')))"

definition Edge_Serve :: "resolver \<Rightarrow> (string \<Rightarrow> go_error + bytes) \<Rightarrow> go_error + 'x list \<Rightarrow> (bytes \<Rightarrow> go_error + 'x)
    \<Rightarrow> ('x tls_config \<Rightarrow> quic_config \<Rightarrow> udp_sock \<Rightarrow> addr_port \<Rightarrow> go_error + 'c) \<Rightarrow> listener \<Rightarrow> string \<Rightarrow> nat
    \<Rightarrow> edge_server \<times> 'c quic_sys \<Rightarrow> 'c serve_result \<times> edge_server \<times> 'c quic_sys" where
  "Edge_Serve lookup uuid_parse systemPool parse quic_Dial listen goos connIndex st =
     (case st of (e, s) \<Rightarrow>
        (case getEdgeIP lookup connIndex e of
           (edgeAddr, e') \<Rightarrow>
             (case ParseToken uuid_parse (es_Token e') of
                Inl err \<Rightarrow> (ServeError err, e', s)
              | Inr t \<Rightarrow>
                  (case serveQUIC systemPool parse quic_Dial listen goos edgeAddr (es_EdgeBindAddr e') (token_Credentials t)
                          (5 * 1000000000) (30 * 1000000000) (of_nat connIndex) s of
                     (r, s') \<Rightarrow> (r, e', s')))))"

section \<open>The address chosen\<close>

lemma addr_string_colon: "addr_is_valid x \<Longrightarrow> CHR '':'' \<in> set (addr_string x) \<longleftrightarrow> addr_is6 x"
proof (cases x)
  case (Addr4 a b c d)
  then show ?thesis using string4_chars [of "CHR '':''" a b c d] is_hex_separators by auto
next
  case (Addr6 a b c d e f g h z)
  let ?gs = "[a, b, c, d, e, f, g, h]"
  have "CHR '':'' \<in> set (string6 ?gs)"
    by (rule string6_shape [of ?gs]) auto
  with Addr6 show ?thesis by simp
qed simp

lemma itoa_7844: "itoa 7844 = ''7844''"
  by (simp add: itoa.simps [of 7844] itoa.simps [of 784] itoa.simps [of 78] itoa.simps [of 7] digit_char_chars)

lemma parse_edge_text:
  assumes "addr_is_valid (xs ! i)" "i < length xs"
  shows "ParseAddrPort (edge_addr_text (map addr_string xs) i) = Some (xs ! i, 7844)"
proof (cases "addr_is6 (xs ! i)")
  case True
  with assms have "edge_addr_text (map addr_string xs) i = ''['' @ addr_string (xs ! i) @ '']:'' @ itoa 7844"
    by (simp add: edge_addr_text_def addr_string_colon itoa_7844)
  with True parse_bracketed_port [of "xs ! i" 7844] show ?thesis by simp
next
  case False
  with assms have "edge_addr_text (map addr_string xs) i = addr_string (xs ! i) @ '':'' @ itoa 7844"
    by (simp add: edge_addr_text_def addr_string_colon itoa_7844)
  moreover have "addr_is4 (xs ! i)" using False assms(1) by (cases "xs ! i") auto
  ultimately show ?thesis using parse_plain_port [of "xs ! i" 7844] by simp
qed

text \<open>The fallback \<open>198.41.192.i\<close> is an address exactly for an index of one byte.\<close>

lemma fallback_text: "length ns \<le> i \<Longrightarrow> edge_addr_text ns i = (itoa 198 @ ''.'' @ itoa 41 @ ''.'' @ itoa 192 @ ''.'' @ itoa i) @ '':'' @ itoa 7844"
proof -
  have "itoa 198 = ''198''" "itoa 41 = ''41''" "itoa 192 = ''192''"
    by (simp_all add: itoa.simps [of 198] itoa.simps [of 19] itoa.simps [of "Suc 0"] itoa.simps [of 41] itoa.simps [of 4]
        itoa.simps [of 192] digit_char_chars)
  then show "length ns \<le> i \<Longrightarrow> ?thesis" by (simp add: edge_addr_text_def itoa_7844)
qed

lemma fallback_ok: "i < 256 \<Longrightarrow> length ns \<le> i \<Longrightarrow>
    ParseAddrPort (edge_addr_text ns i) = Some (Addr4 198 41 192 (of_nat i), 7844)"
  using parse_plain_port [of "Addr4 198 41 192 (of_nat i)" 7844]
  by (simp add: fallback_text string4_def unat_of_nat take_bit_nat_eq_self)

lemma ipv4_fields_big: "255 < n \<Longrightarrow> ipv4_fields (itoa n @ r) 0 0 fs = None"
proof (induction n arbitrary: r rule: itoa.induct)
  case (1 n)
  then have n: "\<not> n < 10" by simp
  show ?case
  proof (cases "255 < n div 10")
    case True
    with "1.IH" n show ?thesis by (simp add: itoa.simps [of n])
  next
    case False
    then have "ipv4_fields (itoa (n div 10) @ digit_char (n mod 10) # r) 0 0 fs =
        ipv4_fields (digit_char (n mod 10) # r) (n div 10) (length (itoa (n div 10))) fs"
      by (intro ipv4_fields_itoa) simp
    with n "1.prems" show ?thesis by (simp add: itoa.simps [of n])
  qed
qed

lemma fallback_bad: "255 < i \<Longrightarrow> length ns \<le> i \<Longrightarrow> ParseAddrPort (edge_addr_text ns i) = None"
proof -
  assume i: "255 < i" "length ns \<le> i"
  let ?ip = "itoa 198 @ ''.'' @ itoa 41 @ ''.'' @ itoa 192 @ ''.'' @ itoa i"
  have "ipv4_fields (itoa 198 @ CHR ''.'' # itoa 41 @ CHR ''.'' # itoa 192 @ CHR ''.'' # itoa i) 0 0 [] = None"
    using ipv4_fields_big [OF i(1), of "[]"]
    by (simp add: ipv4_fields_itoa is_digit_not_dot)
  moreover have "ParseAddr_scan t (itoa 198 @ CHR ''.'' # r) = ParseAddr_scan t (CHR ''.'' # r)" for t r
    by (rule ParseAddr_scan_skip) (use itoa_set is_digit_not_dot in blast)
  ultimately have "ParseAddr ?ip = None" by (simp add: ParseAddr_def)
  moreover have "before_last CHR '':'' (?ip @ CHR '':'' # itoa 7844) = ?ip"
    "after_last CHR '':'' (?ip @ CHR '':'' # itoa 7844) = itoa 7844"
    by (rule last_parts; rule itoa_no_colon)+
  moreover have "hd ?ip \<noteq> CHR ''[''"
    using itoa_set [of "hd (itoa 198)" 198] is_digit_not_dot by auto
  ultimately show ?thesis
    by (simp add: fallback_text [OF i(2)] ParseAddrPort_def splitAddrPort_def Let_def parse_uint16_itoa)
qed

text \<open>Which resolved address, as a specification: the one at the index, else one of a fixed block.\<close>

definition edge_choice :: "addr list \<Rightarrow> nat \<Rightarrow> addr_port" where
  "edge_choice xs i =
     (if i < length xs then (xs ! i, 7844)
      else if i < 256 then (Addr4 198 41 192 (of_nat i), 7844) else (AddrZero, 0))"

definition no_configured :: "edge_server \<Rightarrow> bool" where
  "no_configured e \<longleftrightarrow> (case es_EdgeIPS e of None \<Rightarrow> True | Some ch \<Rightarrow> ch_buf ch = [] \<and> \<not> ch_closed ch)"

lemma getEdgeIP_resolved:
  assumes "no_configured e" "lookup_edges lookup (es_NsResult e) = map addr_string xs" "list_all addr_is_valid xs"
  shows "getEdgeIP lookup i e = (edge_choice xs i, e\<lparr>es_NsResult := map addr_string xs\<rparr>)"
proof -
  have "(case es_EdgeIPS e of None \<Rightarrow> RecvBlock | Some ch \<Rightarrow> chan_recv ch) = RecvBlock"
    using assms(1) by (auto simp: no_configured_def chan_recv_Block_iff split: option.splits)
  moreover have "i < length xs \<Longrightarrow> addr_is_valid (xs ! i)" using assms(3) by (simp add: list_all_length)
  ultimately show ?thesis
    using assms(2) parse_edge_text [of xs i] fallback_ok [of i "map addr_string xs"] fallback_bad [of i "map addr_string xs"]
    by (simp add: getEdgeIP_def edge_choice_def Let_def)
qed

lemma lookup_edges_cached: "lookup_edges lookup ns \<noteq> [] \<Longrightarrow> lookup_edges lookup' (lookup_edges lookup ns) = lookup_edges lookup ns"
  by (simp add: lookup_edges_def)

section \<open>Sockets\<close>

lemma create_other_ports:
  "createUDPConnForConnIndex listen goos k ip edge ports = (r, ports') \<Longrightarrow> j \<noteq> k \<Longrightarrow> ports' j = ports j"
  by (auto simp: createUDPConnForConnIndex_def Let_def split: option.splits sum.splits)

lemma create_outcome:
  assumes "createUDPConnForConnIndex listen goos k ip edge ports = (r, ports')"
    and "\<And>p c. ports k = Some p \<Longrightarrow> listen 0 (listen_network goos edge) ip p = Inr c \<Longrightarrow> so_port c = Some p"
  shows "case r of Inr c \<Rightarrow> \<exists>p. so_port c = Some p \<and> ports' k = Some p | Inl e \<Rightarrow> ports' k \<in> {None, ports k}"
  using assms by (auto simp: createUDPConnForConnIndex_def Let_def split: option.splits sum.splits)

lemma create_reuses:
  assumes "ports k = Some p" "listen 0 (listen_network goos edge) ip p = Inr c"
  shows "createUDPConnForConnIndex listen goos k ip edge ports = (Inr c, ports)"
  using assms by (simp add: createUDPConnForConnIndex_def Let_def)

section \<open>Properties\<close>

text \<open>
  C15. Which edge a connection dials. Configured addresses are handed out in their order, each once and
  without a lookup. When they are used up, connection \<open>i\<close> gets the \<open>i\<close>-th resolved address with port 7844,
  IPv4 or IPv6; with fewer addresses it gets \<open>198.41.192.i\<close>, and from the index 256 on the zero address.
  The resolved addresses are kept: no later call depends on the resolver.
\<close>

theorem edge_address:
  assumes "lookup_edges lookup (es_NsResult e) = map addr_string xs" and "list_all addr_is_valid xs"
  shows "(\<forall>ch a as. es_EdgeIPS e = Some ch \<and> ch_buf ch = a # as \<longrightarrow>
      getEdgeIP lookup i e = (a, e\<lparr>es_EdgeIPS := Some (ch\<lparr>ch_buf := as\<rparr>)\<rparr>)) \<and>
    (no_configured e \<longrightarrow>
      (\<exists>e'. getEdgeIP lookup i e = (edge_choice xs i, e') \<and> no_configured e' \<and>
        (xs \<noteq> [] \<longrightarrow> (\<forall>lookup' j. getEdgeIP lookup' j e' = (edge_choice xs j, e')))))"
proof (intro conjI allI impI)
  fix ch a as
  assume "es_EdgeIPS e = Some ch \<and> ch_buf ch = a # as"
  then show "getEdgeIP lookup i e = (a, e\<lparr>es_EdgeIPS := Some (ch\<lparr>ch_buf := as\<rparr>)\<rparr>)"
    by (simp add: getEdgeIP_def chan_recv_def)
next
  assume nc: "no_configured e"
  let ?e = "e\<lparr>es_NsResult := map addr_string xs\<rparr>"
  have nc': "no_configured ?e" using nc by (simp add: no_configured_def)
  moreover have "getEdgeIP lookup' j ?e = (edge_choice xs j, ?e)" if "xs \<noteq> []" for lookup' j
    using getEdgeIP_resolved [OF nc', of lookup' xs j] assms(2) that by (simp add: lookup_edges_def)
  ultimately show "\<exists>e'. getEdgeIP lookup i e = (edge_choice xs i, e') \<and> no_configured e' \<and>
        (xs \<noteq> [] \<longrightarrow> (\<forall>lookup' j. getEdgeIP lookup' j e' = (edge_choice xs j, e')))"
    using getEdgeIP_resolved [OF nc assms] by blast
qed

definition demo_server :: edge_server where
  "demo_server = \<lparr>es_Token = [], es_EdgeIPS = None, es_EdgeBindAddr = None, es_NsResult = []\<rparr>"

definition demo_resolver :: resolver where
  "demo_resolver host = (if host = ''region1.v2.argotunnel.com'' then Inr [addr_string (Addr4 198 41 200 13)]
     else Inr [addr_string (Addr6 0x2606 0x4700 0xa0 0 0 0 0 1 [])])"

theorem edge_address_witness:
  "fst (getEdgeIP demo_resolver 1 demo_server) = (Addr6 0x2606 0x4700 0xa0 0 0 0 0 1 [], 7844)"
proof -
  let ?xs = "[Addr4 198 41 200 13, Addr6 0x2606 0x4700 0xa0 0 0 0 0 1 []]"
  have "lookup_edges demo_resolver (es_NsResult demo_server) = map addr_string ?xs"
    by (simp add: lookup_edges_def demo_server_def demo_resolver_def)
  moreover have "list_all addr_is_valid ?xs" "no_configured demo_server"
    by (simp_all add: no_configured_def demo_server_def)
  ultimately show ?thesis
    using edge_address [of demo_resolver demo_server ?xs 1] by (auto simp: edge_choice_def)
qed

text \<open>
  C32. Sockets of the QUIC connections, when a socket bound to a given port has that port. Dialling for one
  connection index leaves the ports of the others alone. A connection that comes up has an open
  socket whose port is remembered for its index, so the next dial of that index asks for that port
  first; when the QUIC handshake fails the socket is closed; closing the connection closes both.
\<close>

theorem quic_sockets:
  assumes "\<And>n net p c. listen n net ip p = Inr c \<Longrightarrow> p \<noteq> 0 \<Longrightarrow> so_port c = Some p"
    and "qu_ports s k \<noteq> Some 0"
    and "DialQuic listen goos quic_Dial edge ip k s = (r, s')"
  shows "(\<forall>j. j \<noteq> k \<longrightarrow> qu_ports s' j = qu_ports s j) \<and>
    (case r of
       Inr w \<Rightarrow> qu_ports s' k = so_port (wc_udpConn w) \<and> qu_closedSocks s' = qu_closedSocks s \<and>
         (\<forall>c p. so_port (wc_udpConn w) = Some p \<and> listen 0 (listen_network goos edge) ip p = Inr c \<longrightarrow>
           createUDPConnForConnIndex listen goos k ip edge (qu_ports s') = (Inr c, qu_ports s')) \<and>
         (let s2 = snd (CloseWithError cl w s') in
           so_id (wc_udpConn w) \<in> set (qu_closedSocks s2) \<and> wc_Connection w \<in> set (qu_closedConns s2))
     | Inl e \<Rightarrow>
         (\<forall>c ports. createUDPConnForConnIndex listen goos k ip edge (qu_ports s) = (Inr c, ports) \<longrightarrow>
           so_id c \<in> set (qu_closedSocks s')))"
proof -
  obtain q ports where q: "createUDPConnForConnIndex listen goos k ip edge (qu_ports s) = (q, ports)"
    by (cases "createUDPConnForConnIndex listen goos k ip edge (qu_ports s)")
  have port: "\<exists>p. so_port c = Some p \<and> ports k = Some p" if "q = Inr c" for c
    using create_outcome [OF q] assms(1,2) that by fastforce
  have other: "j \<noteq> k \<Longrightarrow> ports j = qu_ports s j" for j
    by (rule create_other_ports [OF q])
  show ?thesis
  proof (cases q)
    case (Inl e)
    with assms(3) q other show ?thesis by (auto simp: DialQuic_def)
  next
    case (Inr c)
    with port obtain p where p: "so_port c = Some p" "ports k = Some p" by blast
    show ?thesis
    proof (cases "quic_Dial c edge")
      case (Inl e)
      with assms(3) q \<open>q = Inr c\<close> other show ?thesis by (auto simp: DialQuic_def)
    next
      case (Inr w)
      with assms(3) q \<open>q = Inr c\<close> other p show ?thesis
        by (auto simp: DialQuic_def CloseWithError_def Let_def intro: create_reuses)
    qed
  qed
qed

definition demo_listen :: listener where
  "demo_listen n net ip p = Inr \<lparr>so_id = n, so_port = Some (if p = 0 then 40000 else p)\<rparr>"

theorem quic_sockets_witness:
  "\<exists>w s'. DialQuic demo_listen ''linux'' (\<lambda>_ _. Inr ''conn'') (Addr4 198 41 192 0, 7844) None 2
      \<lparr>qu_ports = Map.empty, qu_closedSocks = [], qu_closedConns = []\<rparr> = (Inr w, s') \<and>
    qu_ports s' 2 = so_port (wc_udpConn w) \<and> qu_closedSocks s' = []"
proof -
  let ?s = "\<lparr>qu_ports = Map.empty, qu_closedSocks = [], qu_closedConns = []\<rparr> :: string quic_sys"
  have d: "DialQuic demo_listen ''linux'' (\<lambda>_ _. Inr ''conn'') (Addr4 198 41 192 0, 7844) None 2 ?s =
      (Inr \<lparr>wc_Connection = ''conn'', wc_udpConn = \<lparr>so_id = 1, so_port = Some 40000\<rparr>\<rparr>, ?s\<lparr>qu_ports := [2 \<mapsto> 40000]\<rparr>)"
    by (simp add: DialQuic_def createUDPConnForConnIndex_def demo_listen_def Let_def)
  have l: "demo_listen n net None p = Inr c \<Longrightarrow> p \<noteq> 0 \<Longrightarrow> so_port c = Some p" for n net p c
    by (auto simp: demo_listen_def)
  have "qu_ports ?s 2 \<noteq> Some 0" by simp
  from quic_sockets [of demo_listen None, OF l this d, where cl = "\<lambda>_. None"] d show ?thesis by auto
qed

text \<open>
  C27. What the server trusts at the edge. The built-in text decodes to exactly three certificates; a dial
  offers only the ALPN protocol of the tunnel and asks for the fixed server name, and it trusts the system's
  certificates and those three, in order. When the system has no pool, or one of the three does not
  parse, there is an error and no socket is opened.
\<close>

theorem edge_trust:
  fixes parse :: "bytes \<Rightarrow> go_error + 'a"
  shows "\<exists>a b c. map (b64_decode \<circ> concat) [root_ecc, root_rsa, root_pull] = [Some a, Some b, Some c] \<and>
    serveQUIC systemPool parse quic_Dial listen goos edge bind cred rpc grace k s =
      (case (systemPool, parse a, parse b, parse c) of
         (Inr pool, Inr x, Inr y, Inr z) \<Rightarrow>
           (case DialQuic listen goos
                   (quic_Dial \<lparr>tl_ServerName = ''quic.cftunnel.com'', tl_CurvePreferences = [''P256''], tl_MinVersion = 0,
                      tl_MaxVersion = 0, tl_RootCAs = pool @ [x, y, z], tl_NextProtos = [''argotunnel'']\<rparr>
                     (edge_quic_config edge)) edge bind k s of
              (Inl e, s') \<Rightarrow> (ServeError e, s')
            | (Inr w, s') \<Rightarrow> (Serving (NewTunnelConnection w k rpc grace) cred, s'))
       | _ \<Rightarrow> (ServeError (ErrText (''unable to create TLS config to connect with edge: '' @
           (case systemPool of
              Inl e \<Rightarrow> ''unable to get x509 system cert pool''
            | Inr p \<Rightarrow> ''could not append Cloudflare Root CAs to cloudflared certificate pool''))), s))"
proof -
  obtain a b c where "map (b64_decode \<circ> concat) [root_ecc, root_rsa, root_pull] = [Some a, Some b, Some c]"
    and "GetCloudflareRootCA parse =
      (case parse a of Inl e \<Rightarrow> Inl e
       | Inr x \<Rightarrow> (case parse b of Inl e \<Rightarrow> Inl e
          | Inr y \<Rightarrow> (case parse c of Inl e \<Rightarrow> Inl e | Inr z \<Rightarrow> Inr [x, y, z])))"
    using root_certificates [of parse] by (elim exE conjE)
  then show ?thesis
    by (intro exI [of _ a] exI [of _ b] exI [of _ c])
      (simp add: serveQUIC_def CreateTunnelConfig_def zero_parameters_def split: sum.split prod.split)
qed

end
