(* ===== verification/GoTime.thy ===== *)
theory GoTime
  imports Prelude
begin

text \<open>
  \<open>time.Time\<close> as JSON: \<open>MarshalJSON\<close> writes RFC 3339 with nanoseconds and the zone's offset, and
  \<open>UnmarshalJSON\<close> reads it back. An instant is a number of nanoseconds since 1970, a zone's offset is in
  seconds.
\<close>

section \<open>The calendar\<close>

definition is_leap :: "int \<Rightarrow> bool" where
  "is_leap y \<longleftrightarrow> y mod 4 = 0 \<and> (y mod 100 \<noteq> 0 \<or> y mod 400 = 0)"

definition year_length :: "int \<Rightarrow> int" where
  "year_length y = (if is_leap y then 366 else 365)"

text \<open>Days from the first of January of the year 0, and to 1970.\<close>

definition days_before_year :: "int \<Rightarrow> int" where
  "days_before_year y = 365 * y + (y + 3) div 4 - (y + 99) div 100 + (y + 399) div 400"

definition unix_epoch :: int where "unix_epoch = 719528"

text \<open>Days of the year before each month, and before the next year.\<close>

definition month_starts :: "bool \<Rightarrow> int list" where
  "month_starts leap =
     (if leap then [0, 31, 60, 91, 121, 152, 182, 213, 244, 274, 305, 335, 366]
      else [0, 31, 59, 90, 120, 151, 181, 212, 243, 273, 304, 334, 365])"

definition days_in :: "int \<Rightarrow> nat \<Rightarrow> int" where
  "days_in y m = month_starts (is_leap y) ! m - month_starts (is_leap y) ! (m - 1)"

definition days_of_date :: "int \<Rightarrow> nat \<Rightarrow> int \<Rightarrow> int" where
  "days_of_date y m d = days_before_year y + month_starts (is_leap y) ! (m - 1) + d - 1 - unix_epoch"

text \<open>The year of a day and the day in it: cycles of 400, 100, 4 years and one year, counted from the year 1.\<close>

definition year_of_days :: "int \<Rightarrow> int \<times> int" where
  "year_of_days z =
     (let d = z + unix_epoch - 366;
          n = d div 146097; d4 = d mod 146097;
          c = min (d4 div 36524) 3; d1 = d4 - 36524 * c;
          q = d1 div 1461; r = d1 mod 1461;
          a = min (r div 365) 3
      in (400 * n + 100 * c + 4 * q + a + 1, r - 365 * a))"

definition month_of_day :: "bool \<Rightarrow> int \<Rightarrow> nat" where
  "month_of_day leap yday = length (takeWhile (\<lambda>b. b \<le> yday) (month_starts leap))"

definition date_of_days :: "int \<Rightarrow> int \<times> nat \<times> int" where
  "date_of_days z =
     (case year_of_days z of (y, yday) \<Rightarrow>
        let m = month_of_day (is_leap y) yday in (y, m, yday - month_starts (is_leap y) ! (m - 1) + 1))"

lemma floor_div: "0 < k \<Longrightarrow> k * (x div k) \<le> x \<and> x < k * (x div k) + k" for k x :: int
  using pos_mod_bound [of k x] pos_mod_sign [of k x] mult_div_mod_eq [of k x] by linarith

text \<open>One step of the division into cycles, of which the last one may be longer.\<close>

lemma capped_div:
  fixes x k :: int
  assumes "0 < k" and "0 \<le> x" and "0 \<le> cap" and "c = min (x div k) cap"
  shows "0 \<le> c \<and> c \<le> cap \<and> k * c \<le> x \<and> (c < cap \<longrightarrow> x < k * c + k)"
proof -
  have x: "0 \<le> x div k" "k * (x div k) \<le> x" "x < k * (x div k) + k"
    using assms(1,2) floor_div [OF assms(1), of x] by (simp_all add: pos_imp_zdiv_nonneg_iff)
  show ?thesis
  proof (cases "x div k \<le> cap")
    case True
    with x assms(4) show ?thesis by simp
  next
    case False
    then have "k * cap \<le> k * (x div k)" using assms(1) by simp
    then have "k * cap \<le> x" using x by linarith
    moreover have "c = cap" using False assms(4) by simp
    ultimately show ?thesis using assms(3) by simp
  qed
qed

lemma year_arith:
  fixes n c q a :: int
  assumes "0 \<le> a" "a \<le> 3" "0 \<le> q" "q \<le> 24" "0 \<le> c" "c \<le> 3" and y: "y = 400 * n + 100 * c + 4 * q + a + 1"
  shows "days_before_year y = 146097 * n + 36524 * c + 1461 * q + 365 * a + 366"
proof -
  have "(y + 3) div 4 = 100 * n + 25 * c + q + 1"
    using assms by (intro int_div_pos_eq [where r = a]) simp_all
  moreover have "(y + 99) div 100 = 4 * n + c + 1"
    using assms by (intro int_div_pos_eq [where r = "4 * q + a"]) simp_all
  moreover have "(y + 399) div 400 = n + 1"
    using assms by (intro int_div_pos_eq [where r = "100 * c + 4 * q + a"]) simp_all
  ultimately show ?thesis by (simp add: days_before_year_def y)
qed

lemma year_leap:
  fixes n c q :: int
  assumes "0 \<le> q" "q \<le> 24" "0 \<le> c" "c \<le> 3" "q = 24 \<Longrightarrow> c = 3"
  shows "is_leap (400 * n + 100 * c + 4 * q + 3 + 1)"
proof -
  let ?y = "400 * n + 100 * c + 4 * q + 3 + 1"
  have "?y mod 4 = 0" by presburger
  moreover have "?y mod 100 = 4 * q + 4" if "q \<noteq> 24"
    using assms that by (intro int_mod_pos_eq [where q = "4 * n + c"]) simp_all
  moreover have "?y mod 400 = 0" if "q = 24"
    using assms(5) that by (intro int_mod_pos_eq [where q = "n + 1"]) simp_all
  ultimately show ?thesis using assms(1) by (cases "q = 24") (auto simp: is_leap_def)
qed

lemma year_of_days_correct:
  assumes "year_of_days z = (y, yday)"
  shows "days_before_year y + yday - unix_epoch = z \<and> 0 \<le> yday \<and> yday < year_length y"
proof -
  define d n d4 where d_def: "d = z + unix_epoch - 366" and n_def: "n = d div 146097" and d4_def: "d4 = d mod 146097"
  define c d1 q where c_def: "c = min (d4 div 36524) 3" and d1_def: "d1 = d4 - 36524 * c" and q_def: "q = d1 div 1461"
  define r a where r_def: "r = d1 mod 1461" and a_def: "a = min (r div 365) 3"
  have y: "y = 400 * n + 100 * c + 4 * q + a + 1" and yday: "yday = r - 365 * a"
    using assms unfolding year_of_days_def Let_def d_def [symmetric] n_def [symmetric] d4_def [symmetric]
      c_def [symmetric] d1_def [symmetric] q_def [symmetric] r_def [symmetric] a_def [symmetric] by auto
  have d: "d = 146097 * n + d4" "0 \<le> d4" "d4 < 146097"
    by (simp_all add: n_def d4_def)
  note c = capped_div [OF _ d(2) _ c_def, simplified]
  have d1_bounds: "0 \<le> d1" "d1 \<le> 36524" "c < 3 \<Longrightarrow> d1 < 36524"
    using c d unfolding d1_def by linarith+
  have d1: "d1 = 1461 * q + r" "0 \<le> r" "r < 1461"
    by (simp_all add: q_def r_def)
  have q: "0 \<le> q" "q \<le> 24"
    using d1 d1_bounds by linarith+
  note a = capped_div [OF _ d1(2) _ a_def, simplified]
  have "days_before_year y = 146097 * n + 36524 * c + 1461 * q + 365 * a + 366"
    using a c q y by (intro year_arith) simp_all
  then have "days_before_year y + yday - unix_epoch = z"
    using yday d(1) d1(1) unfolding d_def d1_def by linarith
  moreover have "0 \<le> yday" "yday \<le> 365" "a < 3 \<Longrightarrow> yday < 365"
    using a d1 yday by linarith+
  moreover have "is_leap y" if "yday = 365"
  proof -
    have "a = 3" using that a calculation(4) by (cases "a < 3") auto
    have "c = 3" if "q = 24"
      using d1 d1_bounds c yday that \<open>yday = 365\<close> \<open>a = 3\<close> by (cases "c < 3") linarith+
    then show ?thesis using year_leap [OF q, of c n] c y \<open>a = 3\<close> by simp
  qed
  ultimately show ?thesis by (cases "yday = 365") (auto simp: year_length_def)
qed

lemma month_of_day_table:
  "list_all (\<lambda>x. let m = month_of_day leap x; d = x - month_starts leap ! (m - 1) in
     1 \<le> m \<and> m \<le> 12 \<and> 0 \<le> d \<and> x < month_starts leap ! m) [0 .. (if leap then 365 else 364)]"
  by (cases leap; simp only: if_True if_False; code_simp)

lemma month_of_day_correct:
  assumes "0 \<le> x" "x < (if leap then 366 else 365)"
  shows "1 \<le> month_of_day leap x \<and> month_of_day leap x \<le> 12 \<and> month_starts leap ! (month_of_day leap x - 1) \<le> x \<and>
    x < month_starts leap ! month_of_day leap x"
proof -
  have "x \<in> set [0 .. (if leap then 365 else 364)]" using assms by (auto split: if_splits)
  with month_of_day_table [of leap] show ?thesis by (auto simp: list_all_iff Let_def)
qed

lemma date_of_days_correct:
  assumes "date_of_days z = (y, m, d)"
  shows "days_of_date y m d = z \<and> 1 \<le> m \<and> m \<le> 12 \<and> 1 \<le> d \<and> d \<le> days_in y m"
proof -
  obtain yday where year: "year_of_days z = (y, yday)"
    and m: "m = month_of_day (is_leap y) yday" and d: "d = yday - month_starts (is_leap y) ! (m - 1) + 1"
    using assms by (auto simp: date_of_days_def Let_def split: prod.splits)
  note y = year_of_days_correct [OF year]
  then show ?thesis
    using month_of_day_correct [of yday "is_leap y"] unfolding d m
    by (auto simp: days_of_date_def days_in_def year_length_def)
qed

section \<open>Digits of a fixed number\<close>

fun pad :: "nat \<Rightarrow> nat \<Rightarrow> string" where
  "pad 0 n = []"
| "pad (Suc w) n = pad w (n div 10) @ [digit_char (n mod 10)]"

lemma length_pad [simp]: "length (pad w n) = w"
  by (induction w arbitrary: n) simp_all

lemma pad_digits [simp]: "list_all is_digit (pad w n)"
  by (induction w arbitrary: n) simp_all

lemma dec_value_from:
  "foldl (\<lambda>n c. 10 * n + digit_val c) v t = v * 10 ^ length t + foldl (\<lambda>n c. 10 * n + digit_val c) 0 t"
proof (induction t arbitrary: v)
  case (Cons c t)
  let ?f = "foldl (\<lambda>n c. 10 * n + digit_val c)"
  have "?f v (c # t) = (10 * v + digit_val c) * 10 ^ length t + ?f 0 t"
    unfolding foldl_Cons by (rule Cons)
  moreover have "?f 0 (c # t) = (10 * 0 + digit_val c) * 10 ^ length t + ?f 0 t"
    unfolding foldl_Cons by (rule Cons)
  ultimately show ?case by (simp only:) (simp add: algebra_simps)
qed simp

lemma dec_value_append: "dec_value (s @ t) = dec_value s * 10 ^ length t + dec_value t"
  unfolding dec_value_def foldl_append by (rule dec_value_from)

lemma dec_value_pad: "n < 10 ^ w \<Longrightarrow> dec_value (pad w n) = n"
proof (induction w arbitrary: n)
  case (Suc w)
  have "dec_value [digit_char (n mod 10)] = n mod 10" by (simp add: dec_value_def)
  with Suc show ?case by (simp add: dec_value_append)
qed (simp add: dec_value_def)

lemma dec_value_zeros: "dec_value (s @ replicate k (CHR ''0'')) = dec_value s * 10 ^ k"
proof -
  have "dec_value (replicate k (CHR ''0'')) = 0"
    by (induction k) (simp_all add: dec_value_def digit_val_def)
  then show ?thesis by (simp add: dec_value_append)
qed

section \<open>Writing and reading\<close>

text \<open>The fraction of a second, without the zeros at its end.\<close>

definition drop_zeros :: "string \<Rightarrow> string" where
  "drop_zeros s = rev (dropWhile (\<lambda>c. c = CHR ''0'') (rev s))"

definition fraction_text :: "nat \<Rightarrow> string" where
  "fraction_text ns = (if ns = 0 then [] else CHR ''.'' # drop_zeros (pad 9 ns))"

definition zone_text :: "int \<Rightarrow> string" where
  "zone_text zone =
     (if zone = 0 then ''Z''
      else let m = nat \<bar>zone\<bar> div 60
           in (if zone < 0 \<and> 0 < m then CHR ''-'' else CHR ''+'') # pad 2 (m div 60) @ CHR '':'' # pad 2 (m mod 60))"

text \<open>\<open>MarshalJSON\<close>, without the quotes: years outside 0 to 9999 and zones of a day or more are errors.\<close>

definition time_text :: "int \<Rightarrow> int \<Rightarrow> go_error + string" where
  "time_text zone t =
     (let l = t div 10 ^ 9 + zone; sod = nat (l mod 86400) in
      case date_of_days (l div 86400) of
        (y, m, d) \<Rightarrow>
          if y < 0 \<or> 9999 < y then Inl (ErrText ''year outside of range [0,9999]'')
          else if 24 \<le> nat \<bar>zone\<bar> div 60 div 60 then Inl (ErrText ''timezone hour outside of range [0,23]'')
          else Inr (pad 4 (nat y) @ ''-'' @ pad 2 m @ ''-'' @ pad 2 (nat d) @ ''T'' @ pad 2 (sod div 3600) @ '':'' @
            pad 2 (sod div 60 mod 60) @ '':'' @ pad 2 (sod mod 60) @ fraction_text (nat (t mod 10 ^ 9)) @ zone_text zone))"

text \<open>
  \<open>parseRFC3339\<close>: fixed places, each number in its range, then a fraction of which nine digits count, then
  the zone. Its offset is subtracted.
\<close>

definition in_range :: "nat \<Rightarrow> nat \<Rightarrow> string \<Rightarrow> bool" where
  "in_range lo hi s \<longleftrightarrow> list_all is_digit s \<and> lo \<le> dec_value s \<and> dec_value s \<le> hi"

definition slice :: "nat \<Rightarrow> nat \<Rightarrow> string \<Rightarrow> string" where
  "slice i j s = take (j - i) (drop i s)"

definition parse_fraction :: "string \<Rightarrow> nat \<times> string" where
  "parse_fraction s =
     (case s of
        c # e # r \<Rightarrow>
          if c = CHR ''.'' \<and> is_digit e
          then (let ds = take 9 (takeWhile is_digit (e # r))
                in (dec_value ds * 10 ^ (9 - length ds), dropWhile is_digit (e # r)))
          else (0, s)
      | _ \<Rightarrow> (0, s))"

definition parse_zone :: "string \<Rightarrow> int option" where
  "parse_zone s =
     (if s = ''Z'' then Some 0
      else if length s = 6 \<and> s ! 0 \<in> {CHR ''+'', CHR ''-''} \<and> s ! 3 = CHR '':'' \<and>
        in_range 0 23 (slice 1 3 s) \<and> in_range 0 59 (slice 4 6 s)
      then (let off = int ((dec_value (slice 1 3 s) * 60 + dec_value (slice 4 6 s)) * 60)
            in Some (if s ! 0 = CHR ''-'' then - off else off))
      else None)"

definition parse_clock :: "string \<Rightarrow> int option" where
  "parse_clock s =
     (if in_range 0 23 (slice 0 2 s) \<and> s ! 2 = CHR '':'' \<and> in_range 0 59 (slice 3 5 s) \<and> s ! 5 = CHR '':'' \<and>
        in_range 0 59 (slice 6 8 s)
      then Some (int (dec_value (slice 0 2 s) * 3600 + dec_value (slice 3 5 s) * 60 + dec_value (slice 6 8 s)))
      else None)"

definition parse_date :: "string \<Rightarrow> int option" where
  "parse_date s =
     (let y = dec_value (slice 0 4 s); m = dec_value (slice 5 7 s); d = dec_value (slice 8 10 s) in
      if in_range 0 9999 (slice 0 4 s) \<and> s ! 4 = CHR ''-'' \<and> in_range 1 12 (slice 5 7 s) \<and> s ! 7 = CHR ''-'' \<and>
        in_range 1 (nat (days_in (int y) m)) (slice 8 10 s)
      then Some (days_of_date (int y) m (int d)) else None)"

definition parse_rfc3339 :: "string \<Rightarrow> int option" where
  "parse_rfc3339 s =
     (if length s < 19 \<or> s ! 10 \<noteq> CHR ''T'' then None
      else case (parse_date (slice 0 10 s), parse_clock (slice 11 19 s), parse_fraction (drop 19 s)) of
             (Some days, Some secs, (ns, r)) \<Rightarrow>
               map_option (\<lambda>zone. (days * 86400 + secs - zone) * 10 ^ 9 + int ns) (parse_zone r)
           | _ \<Rightarrow> None)"

section \<open>Reading what was written\<close>

lemma in_range_pad: "n < 10 ^ w \<Longrightarrow> in_range lo hi (pad w n) \<longleftrightarrow> lo \<le> n \<and> n \<le> hi"
  by (simp add: in_range_def dec_value_pad)

lemma slice_front: "length a = i \<Longrightarrow> length b = j - i \<Longrightarrow> slice i j (a @ b @ c) = b"
  by (simp add: slice_def)

lemma zone_read_back:
  assumes "nat \<bar>zone\<bar> div 60 div 60 < 24" and "zone mod 60 = 0"
  shows "parse_zone (zone_text zone) = Some zone"
proof (cases "zone = 0")
  case False
  define m where "m = nat \<bar>zone\<bar> div 60"
  obtain j where "zone = 60 * j" using assms(2) by auto
  then have zone: "\<bar>zone\<bar> = int (60 * nat \<bar>j\<bar>)"
    by (cases "0 \<le> j") simp_all
  then have "m = nat \<bar>j\<bar>" unfolding m_def zone nat_int by simp
  with zone have z: "\<bar>zone\<bar> = int (m * 60)" by (simp only: mult.commute)
  have "m \<noteq> 0"
  proof
    assume "m = 0"
    with z False show False by simp
  qed
  then have m: "m div 60 < 24" "0 < m"
    using assms(1) by (simp_all add: m_def)
  let ?t = "pad 2 (m div 60) @ CHR '':'' # pad 2 (m mod 60)"
  have parts: "slice 1 3 (c # ?t) = pad 2 (m div 60)" "slice 4 6 (c # ?t) = pad 2 (m mod 60)" "(c # ?t) ! 3 = CHR '':''"
    "length (c # ?t) = 6" for c
    by (simp_all add: slice_def nth_append)
  have ranges: "in_range 0 23 (pad 2 (m div 60))" "in_range 0 59 (pad 2 (m mod 60))"
    "dec_value (pad 2 (m div 60)) = m div 60" "dec_value (pad 2 (m mod 60)) = m mod 60"
    using m by (simp_all add: in_range_pad dec_value_pad)
  have "(c # ?t) \<noteq> ''Z''" for c by simp
  then have read: "parse_zone (c # ?t) = Some (if c = CHR ''-'' then - int (m * 60) else int (m * 60))"
    if "c \<in> {CHR ''+'', CHR ''-''}" for c
    unfolding parse_zone_def using that by (simp only: parts ranges) simp
  have "zone_text zone = (if zone < 0 \<and> 0 < m then CHR ''-'' else CHR ''+'') # ?t"
    unfolding zone_text_def Let_def m_def [symmetric] using False by (simp only: if_False)
  then show ?thesis
    using read [of "CHR ''-''"] read [of "CHR ''+''"] m(2) z by (cases "zone < 0") simp_all
qed (simp add: zone_text_def parse_zone_def)

lemma drop_zeros_split: "\<exists>k. s = drop_zeros s @ replicate k (CHR ''0'')"
proof -
  let ?t = "takeWhile (\<lambda>c. c = CHR ''0'') (rev s)"
  have "replicate (length (rev ?t)) (CHR ''0'') = rev ?t"
    by (rule replicate_length_same) (auto dest: set_takeWhileD)
  moreover have "rev (?t @ dropWhile (\<lambda>c. c = CHR ''0'') (rev s)) = s"
    by (simp only: takeWhile_dropWhile_id rev_rev_ident)
  ultimately have "s = drop_zeros s @ replicate (length (rev ?t)) (CHR ''0'')"
    by (simp only: drop_zeros_def rev_append)
  then show ?thesis by blast
qed

lemma fraction_read_back:
  assumes "ns < 10 ^ 9" and "r = [] \<or> \<not> is_digit (hd r) \<and> hd r \<noteq> CHR ''.''"
  shows "parse_fraction (fraction_text ns @ r) = (ns, r)"
proof (cases "ns = 0")
  case True
  with assms(2) show ?thesis by (auto simp: fraction_text_def parse_fraction_def split: list.split)
next
  case False
  let ?ds = "drop_zeros (pad 9 ns)"
  obtain k where k: "pad 9 ns = ?ds @ replicate k (CHR ''0'')" using drop_zeros_split by blast
  have digits: "list_all is_digit ?ds" using pad_digits [of 9 ns] by (subst (asm) k) simp
  have len: "length ?ds + k = 9" using arg_cong [OF k, of length] by simp
  have val: "dec_value ?ds * 10 ^ k = ns"
    using arg_cong [OF k, of dec_value] dec_value_pad [OF assms(1)] by (simp add: dec_value_zeros)
  then obtain e es where e: "?ds = e # es" using False by (cases ?ds) (auto simp: dec_value_def)
  have "takeWhile is_digit (?ds @ r) = ?ds" "dropWhile is_digit (?ds @ r) = r"
    using digits assms(2) by (cases r; auto simp: takeWhile_append dropWhile_append list_all_iff)+
  moreover have "take 9 ?ds = ?ds" "9 - length ?ds = k" using len by simp_all
  ultimately show ?thesis
    using False digits val unfolding e by (simp add: fraction_text_def e parse_fraction_def Let_def)
qed

lemma clock_read_back:
  assumes "sod < 86400"
  shows "parse_clock (pad 2 (sod div 3600) @ CHR '':'' # pad 2 (sod div 60 mod 60) @ CHR '':'' # pad 2 (sod mod 60)) = Some (int sod)"
proof -
  let ?s = "pad 2 (sod div 3600) @ CHR '':'' # pad 2 (sod div 60 mod 60) @ CHR '':'' # pad 2 (sod mod 60)"
  have parts: "slice 0 2 ?s = pad 2 (sod div 3600)" "slice 3 5 ?s = pad 2 (sod div 60 mod 60)"
    "slice 6 8 ?s = pad 2 (sod mod 60)" "?s ! 2 = CHR '':''" "?s ! 5 = CHR '':''"
    by (simp_all add: slice_def nth_append)
  have "sod div 3600 < 24" using assms by simp
  then have ranges: "in_range 0 23 (pad 2 (sod div 3600))" "in_range 0 59 (pad 2 (sod div 60 mod 60))"
    "in_range 0 59 (pad 2 (sod mod 60))" "dec_value (pad 2 (sod div 3600)) = sod div 3600"
    "dec_value (pad 2 (sod div 60 mod 60)) = sod div 60 mod 60" "dec_value (pad 2 (sod mod 60)) = sod mod 60"
    by (simp_all add: in_range_pad dec_value_pad)
  have "sod div 3600 * 3600 + sod div 60 mod 60 * 60 + sod mod 60 = sod"
  proof -
    have "sod div 3600 = sod div 60 div 60" by (simp add: div_mult2_eq [symmetric])
    then have "sod div 3600 * 3600 + sod div 60 mod 60 * 60 = sod div 60 * 60"
      using div_mult_mod_eq [of "sod div 60" 60] by linarith
    then show ?thesis by (simp only: div_mult_mod_eq)
  qed
  then show ?thesis
    unfolding parse_clock_def by (simp only: parts ranges) simp
qed

lemma date_read_back:
  assumes "1 \<le> m" "m \<le> 12" "1 \<le> d" "d \<le> days_in y m" "0 \<le> y" "y \<le> 9999"
  shows "parse_date (pad 4 (nat y) @ CHR ''-'' # pad 2 m @ CHR ''-'' # pad 2 (nat d)) = Some (days_of_date y m d)"
proof -
  let ?s = "pad 4 (nat y) @ CHR ''-'' # pad 2 m @ CHR ''-'' # pad 2 (nat d)"
  have parts: "slice 0 4 ?s = pad 4 (nat y)" "slice 5 7 ?s = pad 2 m" "slice 8 10 ?s = pad 2 (nat d)"
    "?s ! 4 = CHR ''-''" "?s ! 7 = CHR ''-''"
    by (simp_all add: slice_def nth_append)
  have "list_all (\<lambda>m. days_in y m < 100) [1..<13]"
    by (simp add: days_in_def month_starts_def upt_rec)
  then have "days_in y m < 100" using assms(1,2) by (auto simp: list_all_iff)
  moreover have "1 \<le> nat d" "nat d \<le> nat (days_in y m)"
    using assms(3,4) by (simp_all add: nat_mono)
  ultimately have ranges: "in_range 0 9999 (pad 4 (nat y))" "in_range 1 12 (pad 2 m)" "in_range 1 (nat (days_in y m)) (pad 2 (nat d))"
    "dec_value (pad 4 (nat y)) = nat y" "dec_value (pad 2 m) = m" "dec_value (pad 2 (nat d)) = nat d"
    "int (nat y) = y" "int (nat d) = d"
    using assms by (auto simp: in_range_pad dec_value_pad)
  show ?thesis
    unfolding parse_date_def Let_def by (simp only: parts ranges) simp
qed

text \<open>An instant is read back from its text, in any zone of whole minutes.\<close>

lemma time_read_back:
  assumes "time_text zone t = Inr s" and "zone mod 60 = 0"
  shows "parse_rfc3339 s = Some t"
proof -
  define l sod ns where l: "l = t div 10 ^ 9 + zone" and sod: "sod = nat (l mod 86400)" and ns: "ns = nat (t mod 10 ^ 9)"
  obtain y m d where date: "date_of_days (l div 86400) = (y, m, d)" by (cases "date_of_days (l div 86400)")
  let ?date = "pad 4 (nat y) @ CHR ''-'' # pad 2 m @ CHR ''-'' # pad 2 (nat d)"
  let ?clock = "pad 2 (sod div 3600) @ CHR '':'' # pad 2 (sod div 60 mod 60) @ CHR '':'' # pad 2 (sod mod 60)"
  have ok: "0 \<le> y" "y \<le> 9999" "nat \<bar>zone\<bar> div 60 div 60 < 24"
    and s: "s = ?date @ CHR ''T'' # ?clock @ fraction_text ns @ zone_text zone"
    using assms(1) unfolding time_text_def Let_def l [symmetric] sod [symmetric] ns [symmetric] date prod.case
    by (auto split: if_splits)
  have parts: "slice 0 10 s = ?date" "s ! 10 = CHR ''T''" "slice 11 19 s = ?clock"
    "drop 19 s = fraction_text ns @ zone_text zone" "\<not> length s < 19"
    unfolding s by (simp_all add: slice_def nth_append)
  note dd = date_of_days_correct [OF date]
  have "parse_date ?date = Some (l div 86400)"
    using date_read_back [of m d y] dd ok by simp
  moreover have "parse_clock ?clock = Some (l mod 86400)"
    using clock_read_back [of sod] by (simp add: sod)
  moreover have "parse_fraction (fraction_text ns @ zone_text zone) = (ns, zone_text zone)"
    by (rule fraction_read_back) (auto simp: ns zone_text_def is_digit_def Let_def)
  moreover have "parse_zone (zone_text zone) = Some zone"
    using ok(3) assms(2) by (rule zone_read_back)
  moreover have "(l div 86400 * 86400 + l mod 86400 - zone) * 10 ^ 9 + int ns = t"
    by (simp add: l ns)
  ultimately show ?thesis
    unfolding parse_rfc3339_def by (simp only: parts) simp
qed

text \<open>The text holds digits and marks only, nothing that JSON would quote.\<close>

lemma time_text_chars:
  assumes "time_text zone t = Inr s"
  shows "\<forall>c \<in> set s. is_digit c \<or> c \<in> set ''-T:.Z+''"
proof -
  have pad: "c \<in> set (pad w n) \<Longrightarrow> is_digit c" for c w n
    using pad_digits [of w n] by (simp add: list_all_iff)
  have "c \<in> set (drop_zeros (pad w n)) \<Longrightarrow> is_digit c" for c w n
    using pad [of c w n] by (auto simp: drop_zeros_def dest: set_dropWhileD)
  then have fraction: "c \<in> set (fraction_text n) \<Longrightarrow> is_digit c \<or> c = CHR ''.''" for c n
    by (auto simp: fraction_text_def split: if_splits)
  have zone: "c \<in> set (zone_text z) \<Longrightarrow> is_digit c \<or> c \<in> set ''-:Z+''" for c z
    using pad by (auto simp: zone_text_def Let_def split: if_splits)
  obtain y m d where date: "date_of_days ((t div 10 ^ 9 + zone) div 86400) = (y, m, d)"
    by (cases "date_of_days ((t div 10 ^ 9 + zone) div 86400)")
  obtain a b c d' e f n where "s = pad 4 a @ ''-'' @ pad 2 b @ ''-'' @ pad 2 c @ ''T'' @ pad 2 d' @ '':'' @ pad 2 e @ '':'' @
      pad 2 f @ fraction_text n @ zone_text zone"
    using assms unfolding time_text_def Let_def date prod.case by (auto split: if_splits)
  then show ?thesis by (auto dest: pad dest!: fraction zone)
qed

end
