(* ===== verification/QuickTunnel.thy ===== *)
theory QuickTunnel
  imports Token GoTime
begin

text \<open>
  \<open>src/server/quick.go\<close>: the temporary tunnel of try.cloudflare.com. Its token and address are kept in
  \<open>.quick.json\<close> when the program ends and used again when it restarts within ten minutes. The file
  system is a map from names to contents; the HTTP exchange, the clock, the offset of the local zone and the text
  of a UUID are arguments. Times are in nanoseconds since 1970.
\<close>

section \<open>State\<close>

record quick_data =
  qd_Token :: string
  qd_QuickURL :: string
  qd_LastActive :: int

type_synonym files = "string \<rightharpoonup> bytes"

record quick_tunnel =
  qt_ID :: string
  qt_Name :: string
  qt_Hostname :: string
  qt_AccountTag :: string
  qt_Secret :: "bytes option"

record quick_error =
  qe_Code :: int
  qe_Message :: string

record quick_response =
  qr_Success :: bool
  qr_Result :: quick_tunnel
  qr_Errors :: "quick_error list option"

definition quick_file :: string where "quick_file = ''.quick.json''"
definition ten_minutes :: int where "ten_minutes = 10 * 60 * 1000000000"

definition err_missing :: go_error where "err_missing = ErrText ''no such file or directory''"

definition read_file :: "files \<Rightarrow> string \<Rightarrow> go_error + bytes" where
  "read_file fs name = (case fs name of Some b \<Rightarrow> Inr b | None \<Rightarrow> Inl err_missing)"

section \<open>JSON\<close>

text \<open>
  A time has its own \<open>UnmarshalJSON\<close>, which gets the text between the quotes as it stands and makes the
  time zero when it cannot read it. Text that is not quite RFC 3339 goes to the general \<open>time.Parse\<close>,
  which is the argument \<open>general\<close>.
\<close>

definition zero_time :: int where "zero_time = - 62135596800 * 1000000000"

definition time_parse :: "(string \<Rightarrow> go_error + int) \<Rightarrow> string \<Rightarrow> go_error + int" where
  "time_parse general s = (case parse_rfc3339 s of Some t \<Rightarrow> Inr t | None \<Rightarrow> general s)"

definition dec_time :: "(string \<Rightarrow> go_error + int) \<Rightarrow> int decoder" where
  "dec_time general j old =
     (case j of
        JNull \<Rightarrow> (old, DecOk)
      | JStr raw \<Rightarrow> (case time_parse general raw of Inr t \<Rightarrow> (t, DecOk) | Inl e \<Rightarrow> (zero_time, DecAbort e))
      | _ \<Rightarrow> (old, DecAbort (ErrText ''Time.UnmarshalJSON: input is not a JSON string'')))"

definition quick_json :: "string \<Rightarrow> quick_data \<Rightarrow> json" where
  "quick_json text qd = jobj
     [(''token'', jstr (qd_Token qd)), (''quick-url'', jstr (qd_QuickURL qd)), (''last-active'', JStr text)]"

definition quick_Marshal :: "int \<Rightarrow> quick_data \<Rightarrow> go_error + bytes" where
  "quick_Marshal zone qd =
     map_sum id (\<lambda>text. string_bytes (json_indent (quick_json text qd))) (time_text zone (qd_LastActive qd))"

definition quick_decoder :: "(string \<Rightarrow> go_error + int) \<Rightarrow> quick_data decoder" where
  "quick_decoder general = dec_struct
     [json_field ''token'' dec_string qd_Token (\<lambda>x r. r\<lparr>qd_Token := x\<rparr>),
      json_field ''quick-url'' dec_string qd_QuickURL (\<lambda>x r. r\<lparr>qd_QuickURL := x\<rparr>),
      json_field ''last-active'' (dec_time general) qd_LastActive (\<lambda>x r. r\<lparr>qd_LastActive := x\<rparr>)]"

definition quick_tunnel_decoder :: "quick_tunnel decoder" where
  "quick_tunnel_decoder = dec_struct
     [json_field ''id'' dec_string qt_ID (\<lambda>x r. r\<lparr>qt_ID := x\<rparr>),
      json_field ''name'' dec_string qt_Name (\<lambda>x r. r\<lparr>qt_Name := x\<rparr>),
      json_field ''hostname'' dec_string qt_Hostname (\<lambda>x r. r\<lparr>qt_Hostname := x\<rparr>),
      json_field ''account_tag'' dec_string qt_AccountTag (\<lambda>x r. r\<lparr>qt_AccountTag := x\<rparr>),
      json_field ''secret'' dec_bytes qt_Secret (\<lambda>x r. r\<lparr>qt_Secret := x\<rparr>)]"

definition quick_error_decoder :: "quick_error decoder" where
  "quick_error_decoder = dec_struct
     [json_field ''Code'' (dec_int 64) qe_Code (\<lambda>x r. r\<lparr>qe_Code := x\<rparr>),
      json_field ''Message'' dec_string qe_Message (\<lambda>x r. r\<lparr>qe_Message := x\<rparr>)]"

definition quick_response_decoder :: "quick_response decoder" where
  "quick_response_decoder = dec_struct
     [json_field ''Success'' dec_bool qr_Success (\<lambda>x r. r\<lparr>qr_Success := x\<rparr>),
      json_field ''Result'' quick_tunnel_decoder qr_Result (\<lambda>x r. r\<lparr>qr_Result := x\<rparr>),
      json_field ''Errors'' (dec_slice \<lparr>qe_Code = 0, qe_Message = []\<rparr> quick_error_decoder) qr_Errors
        (\<lambda>x r. r\<lparr>qr_Errors := x\<rparr>)]"

definition zero_response :: quick_response where
  "zero_response =
     \<lparr>qr_Success = False,
      qr_Result = \<lparr>qt_ID = [], qt_Name = [], qt_Hostname = [], qt_AccountTag = [], qt_Secret = None\<rparr>,
      qr_Errors = None\<rparr>"

section \<open>Load and save\<close>

text \<open>\<open>json.Unmarshal\<close> fills the record in place, also when it fails half-way.\<close>

definition quick_Load :: "(string \<Rightarrow> go_error + int) \<Rightarrow> files \<Rightarrow> int \<Rightarrow> quick_data
    \<Rightarrow> go_error option \<times> quick_data" where
  "quick_Load general fs now qd =
     (case read_file fs quick_file of
        Inl e \<Rightarrow> (Some e, qd)
      | Inr buf \<Rightarrow>
          (case json_Unmarshal (quick_decoder general) buf qd of
             (qd', Some e) \<Rightarrow> (Some e, qd')
           | (qd', None) \<Rightarrow>
               if now > qd_LastActive qd' + ten_minutes
               then (Some (ErrText ''the loaded data has expired''), qd') else (None, qd')))"

definition quick_Save :: "int \<Rightarrow> (bytes \<Rightarrow> go_error option) \<Rightarrow> int
    \<Rightarrow> quick_data \<times> files \<Rightarrow> quick_data \<times> files" where
  "quick_Save zone write_err now st =
     (case st of (qd, fs) \<Rightarrow>
        let qd' = qd\<lparr>qd_LastActive := now\<rparr> in
        (case quick_Marshal zone qd' of
           Inl e \<Rightarrow> (qd', fs)
         | Inr b \<Rightarrow> (case write_err b of Some e \<Rightarrow> (qd', fs) | None \<Rightarrow> (qd', fs(quick_file \<mapsto> b)))))"

section \<open>Applying for a tunnel\<close>

record http_request =
  hq_method :: string
  hq_url :: string
  hq_header :: "(string \<times> string) list"

definition apiUrl :: string where "apiUrl = ''https://api.trycloudflare.com/tunnel''"

text \<open>
  The exchange answers an error or a response whose body may fail to be read. The flag \<open>success\<close> of
  the answer is not looked at.
\<close>

definition ApplyQuickURL :: "(http_request \<Rightarrow> go_error + (go_error + bytes))
    \<Rightarrow> (string \<Rightarrow> go_error + bytes) \<Rightarrow> (bytes \<Rightarrow> string) \<Rightarrow> string
    \<Rightarrow> go_error + (string \<times> string)" where
  "ApplyQuickURL http_Do uuid_Parse uuid_text userAgent =
     (case http_Do \<lparr>hq_method = ''POST'', hq_url = apiUrl,
             hq_header = [(''Content-Type'', ''application/json''), (''User-Agent'', userAgent)]\<rparr> of
        Inl e \<Rightarrow> Inl (ErrText ''failed to request quick Tunnel'')
      | Inr (Inl e) \<Rightarrow> Inl (ErrText ''failed to read quick-tunnel response'')
      | Inr (Inr rspBody) \<Rightarrow>
          (case json_Unmarshal quick_response_decoder rspBody zero_response of
             (rsp, Some e) \<Rightarrow> Inl (ErrText ''failed to unmarshal quick Tunnel'')
           | (rsp, None) \<Rightarrow> let data = qr_Result rsp in
               (case uuid_Parse (qt_ID data) of
                  Inl e \<Rightarrow> Inl (ErrText ''failed to parse quick Tunnel ID'')
                | Inr tunnelID \<Rightarrow>
                    (case GenerateToken uuid_text (Some \<lparr>tt_AccountTag = qt_AccountTag data,
                            tt_TunnelSecret = qt_Secret data, tt_TunnelID = tunnelID\<rparr>) of
                       Inl e \<Rightarrow> Inl e
                     | Inr token \<Rightarrow> Inr (token, qt_Hostname data)))))"

text \<open>
  The token of a server that is started as \<open>quick\<close>: the saved one, or a new one, or the error with which
  the program ends.
\<close>

definition quick_token :: "(quick_data \<Rightarrow> go_error option \<times> quick_data) \<Rightarrow> go_error + (string \<times> string)
    \<Rightarrow> quick_data \<Rightarrow> go_error + quick_data" where
  "quick_token load apply qd =
     (case load qd of
        (None, qd') \<Rightarrow> Inr qd'
      | (Some e, qd') \<Rightarrow>
          (case apply of
             Inl err \<Rightarrow> Inl err
           | Inr (tok, url) \<Rightarrow> Inr (qd'\<lparr>qd_Token := tok, qd_QuickURL := url\<rparr>)))"

text \<open>What a new token contains: the account, the secret and the tunnel of the service's answer.\<close>

lemma ApplyQuickURL_token:
  assumes "ApplyQuickURL http_Do uuid_Parse uuid_text agent = Inr (tok, url)"
  obtains body rsp data uid where "json_Unmarshal quick_response_decoder body zero_response = (rsp, None)"
    "data = qr_Result rsp" "uuid_Parse (qt_ID data) = Inr uid" "url = qt_Hostname data"
    "GenerateToken uuid_text (Some \<lparr>tt_AccountTag = qt_AccountTag data, tt_TunnelSecret = qt_Secret data,
       tt_TunnelID = uid\<rparr>) = Inr tok"
  using assms by (auto simp: ApplyQuickURL_def Let_def split: sum.splits prod.splits option.splits)

section \<open>Properties\<close>

lemma quick_reread:
  assumes "time_text zone (qd_LastActive qd) = Inr stamp" and "zone mod 60 = 0"
    and "valid_utf8 (qd_Token qd)" "valid_utf8 (qd_QuickURL qd)"
  shows "json_Unmarshal (quick_decoder general) (string_bytes (json_indent (quick_json stamp qd))) d0 = (qd, None)"
proof (rule json_Unmarshal_indent)
  have "raw_string stamp"
    using time_text_chars [OF assms(1)] by (intro raw_string_plain) (auto simp: is_digit_def)
  then show "json_ok maxNestingDepth (quick_json stamp qd)" by (simp add: quick_json_def maxNestingDepth_def)
  show "quick_decoder general (quick_json stamp qd) d0 = (qd, DecOk)"
    using assms(3,4) time_read_back [OF assms(1,2)]
    by (simp add: quick_decoder_def quick_json_def json_struct dec_time_def time_parse_def valid_utf8_def)
qed

text \<open>
  C34. A temporary tunnel survives a restart of up to ten minutes and no longer, in a zone of whole
  minutes: a server that restarts within ten minutes of \<open>Save\<close> comes up with the saved token and address,
  whatever its record held before and whatever an application would answer; later it comes up with the
  token and address of a new application, and not at all when that fails.
\<close>

theorem quick_tunnel_restart:
  assumes "time_text zone t = Inr stamp" and "zone mod 60 = 0"
    and "valid_utf8 (qd_Token qd)" and "valid_utf8 (qd_QuickURL qd)" and "\<And>b. write_err b = None"
    and "quick_Save zone write_err t (qd, fs) = (qd1, fs1)"
  shows "(now \<le> t + ten_minutes \<longrightarrow>
      quick_token (quick_Load general fs1 now) apply d0 = Inr (qd\<lparr>qd_LastActive := t\<rparr>)) \<and>
    (t + ten_minutes < now \<longrightarrow>
      map_sum id (\<lambda>q. (qd_Token q, qd_QuickURL q)) (quick_token (quick_Load general fs1 now) apply d0) = apply)"
proof -
  let ?q = "qd\<lparr>qd_LastActive := t\<rparr>"
  have "fs1 quick_file = Some (string_bytes (json_indent (quick_json stamp ?q)))"
    using assms(1,5,6) by (auto simp: quick_Save_def quick_Marshal_def Let_def)
  moreover have "json_Unmarshal (quick_decoder general) (string_bytes (json_indent (quick_json stamp ?q))) d0 = (?q, None)"
    using assms(1-4) by (intro quick_reread [of zone]) simp_all
  ultimately show ?thesis
    by (auto simp: quick_token_def quick_Load_def read_file_def split: sum.splits)
qed

definition demo_quick :: quick_data where
  "demo_quick = \<lparr>qd_Token = ''tok'', qd_QuickURL = ''a.trycloudflare.com'', qd_LastActive = 0\<rparr>"

lemma demo_time: "\<exists>stamp. time_text 7200 5 = Inr stamp"
proof -
  have "year_of_days 0 = (1970, 0)" by (simp add: year_of_days_def unix_epoch_def Let_def)
  then obtain m d where "date_of_days 0 = (1970, m, d)" by (simp add: date_of_days_def Let_def)
  then show ?thesis by (simp add: time_text_def Let_def)
qed

theorem quick_tunnel_restart_witness:
  "quick_token (quick_Load (\<lambda>s. Inl ErrEOF) (snd (quick_Save 7200 (\<lambda>b. None) 5 (demo_quick, Map.empty))) 7)
     (Inl ErrEOF) demo_quick = Inr (demo_quick\<lparr>qd_LastActive := 5\<rparr>)"
proof -
  let ?s = "quick_Save 7200 (\<lambda>b. None) 5 (demo_quick, Map.empty)"
  have s: "?s = (fst ?s, snd ?s)" by simp
  obtain stamp where stamp: "time_text 7200 5 = Inr stamp"
    using demo_time by blast
  have utf8: "valid_utf8 (qd_Token demo_quick)" "valid_utf8 (qd_QuickURL demo_quick)"
    by (simp_all add: demo_quick_def valid_utf8_def utf8_fix_literal)
  have "(7::int) \<le> 5 + ten_minutes" by (simp add: ten_minutes_def)
  then show ?thesis
    using quick_tunnel_restart [of 7200 5 stamp demo_quick "\<lambda>b. None", OF stamp _ utf8 _ s, of 7 "\<lambda>s. Inl ErrEOF"
        "Inl ErrEOF" demo_quick] by simp
qed

end
