(* ===== verification/Warp.thy ===== *)
theory Warp
  imports QuickTunnel NetipParse
begin

text \<open>
  \<open>src/server/warp.go\<close>: the optional WireGuard connection that destinations are dialled through. Its
  settings come from the configuration, from \<open>.warp.json\<close> or from the WARP service; \<open>Run\<close> turns them into
  a device. \<open>log.Fatalln\<close> ends the program, \<open>netip.MustParseAddr\<close> and a nil key panic; the server's
  start-up, which has the same outcomes, could also block.
\<close>

section \<open>Settings\<close>

record warp =
  wp_Auto :: bool
  wp_Port :: u16
  wp_Endpoint :: string
  wp_IPv4 :: string
  wp_IPv6 :: string
  wp_PrivateKey :: string
  wp_PublicKey :: string
  wp_Reserved :: "bytes option"
  wp_Proxy4 :: bool
  wp_Proxy6 :: bool

datatype 'a run = RunFatal string | RunPanic | RunBlocked | RunOk 'a

definition warp_verify :: "warp \<Rightarrow> bool" where
  "warp_verify w \<longleftrightarrow> wp_Endpoint w \<noteq> [] \<and> wp_IPv4 w \<noteq> [] \<and> wp_PrivateKey w \<noteq> [] \<and> wp_PublicKey w \<noteq> []"

section \<open>The service\<close>

record http_response =
  hr_encoding :: string
  hr_body :: bytes

text \<open>
  What is outside: the random source, the curve, the clock's text, the HTTP exchange, gzip (\<open>None\<close> for a
  body that is none, on which reading panics), the lookup of gjson and the files.
\<close>

record warp_env =
  we_rand :: "go_error + bytes"
  we_curve :: "bytes \<Rightarrow> bytes"
  we_now :: string
  we_Do :: "http_request \<Rightarrow> bytes \<Rightarrow> go_error + http_response"
  we_gunzip :: "bytes \<Rightarrow> bytes option"
  we_get :: "bytes \<Rightarrow> string \<Rightarrow> string"
  we_files :: files
  we_write :: "bytes \<Rightarrow> go_error option"

text \<open>The settings as JSON, and the decoder; a map is written in the order of its keys.\<close>

definition warp_json :: "warp \<Rightarrow> json" where
  "warp_json w = jobj
     [(''auto'', JBool (wp_Auto w)), (''port'', jint (int (unat (wp_Port w)))), (''endpoint'', jstr (wp_Endpoint w)),
      (''ipv4'', jstr (wp_IPv4 w)), (''ipv6'', jstr (wp_IPv6 w)), (''private-key'', jstr (wp_PrivateKey w)),
      (''public-key'', jstr (wp_PublicKey w)), (''reserved'', jbytes (wp_Reserved w)), (''proxy4'', JBool (wp_Proxy4 w)),
      (''proxy6'', JBool (wp_Proxy6 w))]"

definition warp_fields :: "warp json_field list" where
  "warp_fields =
     [json_field ''auto'' dec_bool wp_Auto (\<lambda>x w. w\<lparr>wp_Auto := x\<rparr>),
      json_field ''port'' dec_uint wp_Port (\<lambda>x w. w\<lparr>wp_Port := x\<rparr>),
      json_field ''endpoint'' dec_string wp_Endpoint (\<lambda>x w. w\<lparr>wp_Endpoint := x\<rparr>),
      json_field ''ipv4'' dec_string wp_IPv4 (\<lambda>x w. w\<lparr>wp_IPv4 := x\<rparr>),
      json_field ''ipv6'' dec_string wp_IPv6 (\<lambda>x w. w\<lparr>wp_IPv6 := x\<rparr>),
      json_field ''private-key'' dec_string wp_PrivateKey (\<lambda>x w. w\<lparr>wp_PrivateKey := x\<rparr>),
      json_field ''public-key'' dec_string wp_PublicKey (\<lambda>x w. w\<lparr>wp_PublicKey := x\<rparr>),
      json_field ''reserved'' dec_bytes wp_Reserved (\<lambda>x w. w\<lparr>wp_Reserved := x\<rparr>),
      json_field ''proxy4'' dec_bool wp_Proxy4 (\<lambda>x w. w\<lparr>wp_Proxy4 := x\<rparr>),
      json_field ''proxy6'' dec_bool wp_Proxy6 (\<lambda>x w. w\<lparr>wp_Proxy6 := x\<rparr>)]"

definition warp_decoder :: "warp decoder" where
  "warp_decoder = dec_struct warp_fields"

definition warp_file :: string where "warp_file = ''.warp.json''"

definition warp_request :: http_request where
  "warp_request = \<lparr>hq_method = ''POST'', hq_url = ''https://api.cloudflareclient.com/v0a2223/reg'',
     hq_header = [(''CF-Client-Version'', ''a-6.11-2223''), (''Host'', ''api.cloudflareclient.com''),
       (''Connection'', ''Keep-Alive''), (''Accept-Encoding'', ''gzip''), (''User-Agent'', ''okhttp/3.12.1''),
       (''Content-Type'', ''application/json'')]\<rparr>"

definition warp_body :: "warp_env \<Rightarrow> http_response \<Rightarrow> bytes option" where
  "warp_body env r = (if hr_encoding r = ''gzip'' then we_gunzip env (hr_body r) else Some (hr_body r))"

definition warp_apply :: "warp_env \<Rightarrow> warp \<Rightarrow> warp run" where
  "warp_apply env w =
     (case NewPrivateKey (we_rand env) of
        None \<Rightarrow> RunPanic
      | Some key \<Rightarrow>
          let body = string_bytes (json_compact (jobj
                [(''key'', jstr (Key_String (Key_Public (we_curve env) key))), (''locale'', jstr ''en-US''),
                 (''tos'', jstr (we_now env))])) in
          (case we_Do env warp_request body of
             Inl e \<Rightarrow> RunFatal ''A request error occurred while automatically applying for Warp.''
           | Inr resp \<Rightarrow>
               (case warp_body env resp of
                  None \<Rightarrow> RunPanic
                | Some b \<Rightarrow>
                    let ipv6 = we_get env b ''config.interface.addresses.v6'' in
                    if ipv6 = [] then RunFatal ''Failed to automatically apply for Warp.''
                    else RunOk (w\<lparr>wp_Reserved := Some (b64_decoded (we_get env b ''config.client_id'')),
                        wp_IPv4 := ''172.16.0.2'', wp_IPv6 := ipv6, wp_PrivateKey := Key_String key,
                        wp_PublicKey := ''bmXOC+F1FxEMF9dyiK2H5/1SUtzH0JuVo51h2wPfgyo='',
                        wp_Endpoint := ''engage.cloudflareclient.com:2408''\<rparr>))))"

definition warp_save :: "warp_env \<Rightarrow> warp \<Rightarrow> files" where
  "warp_save env w =
     (let warpFile = string_bytes (json_indent (warp_json w)) in
      case we_write env warpFile of
        Some e \<Rightarrow> we_files env
      | None \<Rightarrow> (we_files env)(warp_file \<mapsto> warpFile))"

text \<open>
  \<open>load\<close>: the saved settings, with the two switches of the configuration; or new ones, saved. An error of
  the decoder is dropped.
\<close>

definition warp_load :: "warp_env \<Rightarrow> warp \<Rightarrow> (warp \<times> files) run" where
  "warp_load env w =
     (case read_file (we_files env) warp_file of
        Inl e \<Rightarrow>
          (case warp_apply env w of
             RunOk w1 \<Rightarrow> RunOk (w1, warp_save env w1)
           | RunFatal s \<Rightarrow> RunFatal s
           | RunBlocked \<Rightarrow> RunBlocked
           | RunPanic \<Rightarrow> RunPanic)
      | Inr buf \<Rightarrow>
          RunOk ((fst (json_Unmarshal warp_decoder buf w))\<lparr>wp_Proxy4 := wp_Proxy4 w, wp_Proxy6 := wp_Proxy6 w\<rparr>, we_files env))"

section \<open>The device\<close>

record wg_device =
  wg_addresses :: "addr list"
  wg_mtu :: nat
  wg_reserved :: "bytes option"
  wg_port :: u16
  wg_privateKey :: string
  wg_publicKey :: string
  wg_endpoint :: string

text \<open>\<open>dial_udp\<close> is \<open>net.DialTimeout("udp", ...)\<close>: the remote address of the socket, when there is one.\<close>

definition resolvEndpoint :: "(string \<Rightarrow> string option) \<Rightarrow> string \<Rightarrow> string" where
  "resolvEndpoint dial_udp endpoint =
     (case dial_udp endpoint of Some a \<Rightarrow> a | None \<Rightarrow> ''162.159.192.1:2408'')"

definition strip_prefix_len :: "string \<Rightarrow> string" where
  "strip_prefix_len s = (if CHR ''/'' \<in> set s then hd (split_char CHR ''/'' s) else s)"

definition local_addresses :: "warp \<Rightarrow> addr list option" where
  "local_addresses w =
     (case ParseAddr (wp_IPv4 w) of
        None \<Rightarrow> None
      | Some a4 \<Rightarrow>
          if wp_IPv6 w = [] then Some [a4]
          else map_option (\<lambda>a6. [a4, a6]) (ParseAddr (wp_IPv6 w)))"

definition warp_settings :: "warp_env \<Rightarrow> warp \<Rightarrow> (warp \<times> files) run" where
  "warp_settings env w =
     (if wp_Auto w then warp_load env w
      else if \<not> warp_verify w then RunFatal ''The warp parameter is incorrect.''
      else RunOk (w, we_files env))"

definition warp_Run :: "warp_env \<Rightarrow> (addr list \<Rightarrow> go_error option) \<Rightarrow> (string \<Rightarrow> string option) \<Rightarrow> warp
    \<Rightarrow> (wg_device \<times> warp \<times> files) run" where
  "warp_Run env createNetTUN dial_udp w =
     (case warp_settings env w of
        RunFatal s \<Rightarrow> RunFatal s
      | RunPanic \<Rightarrow> RunPanic
      | RunBlocked \<Rightarrow> RunBlocked
      | RunOk (w1, fs) \<Rightarrow>
          let w2 = w1\<lparr>wp_IPv4 := strip_prefix_len (wp_IPv4 w1)\<rparr>;
              w3 = w2\<lparr>wp_IPv6 := strip_prefix_len (wp_IPv6 w2)\<rparr> in
          (case local_addresses w3 of
             None \<Rightarrow> RunPanic
           | Some localAddress \<Rightarrow>
               (case createNetTUN localAddress of
                  Some e \<Rightarrow> RunFatal (error_text e)
                | None \<Rightarrow>
                    RunOk (\<lparr>wg_addresses = localAddress, wg_mtu = 1280, wg_reserved = wp_Reserved w3,
                        wg_port = wp_Port w3, wg_privateKey = wp_PrivateKey w3, wg_publicKey = wp_PublicKey w3,
                        wg_endpoint = resolvEndpoint dial_udp (wp_Endpoint w3)\<rparr>, w3, fs))))"

section \<open>Lemmas\<close>

lemma strip_printed:
  assumes "addr_is_valid a" "addr_zone a = []" "r = [] \<or> hd r = CHR ''/''"
  shows "strip_prefix_len (addr_string a @ r) = addr_string a"
proof -
  have no: "CHR ''/'' \<notin> set (addr_string a)"
  proof (cases a)
    case (Addr4 p q s t)
    then show ?thesis using string4_chars [of "CHR ''/''" p q s t] by (auto simp: is_hex_def hex_val_def)
  next
    case (Addr6 p q s t u v x y z)
    then have "z = []" using assms(2) by simp
    then show ?thesis
      using Addr6 string6_chars [of "[p, q, s, t, u, v, x, y]" "CHR ''/''"]
        string4_chars [of "CHR ''/''" "high_byte x" "low_byte x" "high_byte y" "low_byte y"]
      by (auto simp: is_hex_def hex_val_def)
  qed (use assms in simp)
  then have "takeWhile (\<lambda>c. c \<noteq> CHR ''/'') (addr_string a @ r) = addr_string a"
    using assms(3) by (cases r) (auto simp: takeWhile_append takeWhile_eq_all_conv)
  with no assms(3) show ?thesis
    by (cases r) (auto simp: strip_prefix_len_def split_char_hd)
qed

lemma warp_load_switches: "warp_load env w = RunOk (w1, fs) \<Longrightarrow> wp_Proxy4 w1 = wp_Proxy4 w \<and> wp_Proxy6 w1 = wp_Proxy6 w"
  by (auto simp: warp_load_def warp_apply_def Let_def split: sum.splits option.splits run.splits if_splits)

lemma warp_settings_switches:
  "warp_settings env w = RunOk (w1, fs) \<Longrightarrow> wp_Proxy4 w1 = wp_Proxy4 w \<and> wp_Proxy6 w1 = wp_Proxy6 w"
  using warp_load_switches by (auto simp: warp_settings_def split: if_splits)

lemma warp_reread:
  assumes "list_all valid_utf8 [wp_Endpoint w, wp_IPv4 w, wp_IPv6 w, wp_PrivateKey w, wp_PublicKey w]"
  shows "json_Unmarshal warp_decoder (string_bytes (json_indent (warp_json w))) w0 = (w, None)"
proof (rule json_Unmarshal_indent)
  show "json_ok maxNestingDepth (warp_json w)" by (simp add: warp_json_def maxNestingDepth_def)
  show "warp_decoder (warp_json w) w0 = (w, DecOk)"
    using assms by (simp add: warp_decoder_def warp_json_def warp_fields_def json_struct valid_utf8_def)
qed

text \<open>
  Settings applied for once are those of every later start: the file that the first \<open>load\<close> writes gives
  them back, with the switches of the configuration at hand.
\<close>

lemma warp_settings_kept:
  assumes "warp_load env w = RunOk (w1, fs)" and "we_files env warp_file = None" and "\<And>b. we_write env b = None"
    and "list_all valid_utf8 [wp_Endpoint w1, wp_IPv4 w1, wp_IPv6 w1, wp_PrivateKey w1, wp_PublicKey w1]"
    and "we_files env' = fs"
  shows "warp_load env' w' = RunOk (w1\<lparr>wp_Proxy4 := wp_Proxy4 w', wp_Proxy6 := wp_Proxy6 w'\<rparr>, fs)"
proof -
  have "fs warp_file = Some (string_bytes (json_indent (warp_json w1)))"
    using assms(1-3) by (auto simp: warp_load_def read_file_def warp_save_def Let_def split: run.splits)
  then show ?thesis
    using assms(5) warp_reread [OF assms(4)] by (simp add: warp_load_def read_file_def)
qed

section \<open>Properties\<close>

text \<open>
  C35. The WARP device. Its local addresses are those of the settings, written with or without a prefix
  length; keys, port and reserved bytes are taken over unchanged. Whether IPv4 or IPv6 goes through
  it is always the configuration's choice, also when the settings come from the file or the
  service. Incomplete settings end the program unless they are requested automatically; then, where there was no
  file yet, they are the settings of every later start.
\<close>

theorem warp_device:
  assumes "warp_settings env w = RunOk (w1, fs)" and "createNetTUN = (\<lambda>_. None)"
    and "addr_is_valid a4" and "addr_zone a4 = []" and "wp_IPv4 w1 = addr_string a4 @ r4" and "r4 = [] \<or> hd r4 = CHR ''/''"
    and "addr_is_valid a6" and "addr_zone a6 = []" and "wp_IPv6 w1 = addr_string a6 @ r6" and "r6 = [] \<or> hd r6 = CHR ''/''"
  shows "\<exists>d w3. warp_Run env createNetTUN dial_udp w = RunOk (d, w3, fs) \<and> wg_addresses d = [a4, a6] \<and>
    wg_privateKey d = wp_PrivateKey w1 \<and> wg_publicKey d = wp_PublicKey w1 \<and> wg_port d = wp_Port w1 \<and>
    wg_reserved d = wp_Reserved w1 \<and> wp_Proxy4 w3 = wp_Proxy4 w \<and> wp_Proxy6 w3 = wp_Proxy6 w \<and>
    (\<not> wp_Auto w \<longrightarrow> warp_verify w \<and> w1 = w) \<and>
    (wp_Auto w \<and> we_files env warp_file = None \<and> (\<forall>b. we_write env b = None) \<and>
      list_all valid_utf8 [wp_Endpoint w1, wp_IPv4 w1, wp_IPv6 w1, wp_PrivateKey w1, wp_PublicKey w1] \<longrightarrow>
      (\<forall>env' w'. we_files env' = fs \<longrightarrow>
        warp_load env' w' = RunOk (w1\<lparr>wp_Proxy4 := wp_Proxy4 w', wp_Proxy6 := wp_Proxy6 w'\<rparr>, fs)))"
proof -
  have "strip_prefix_len (wp_IPv4 w1) = addr_string a4" "strip_prefix_len (wp_IPv6 w1) = addr_string a6"
    using assms strip_printed by simp_all
  moreover have "addr_string a6 \<noteq> []"
    using assms(7) parse_addr_string [of a6] by (auto simp: ParseAddr_def)
  moreover have "\<not> wp_Auto w \<Longrightarrow> warp_verify w \<and> w1 = w"
    using assms(1) by (auto simp: warp_settings_def split: if_splits)
  moreover have "warp_load env' w' = RunOk (w1\<lparr>wp_Proxy4 := wp_Proxy4 w', wp_Proxy6 := wp_Proxy6 w'\<rparr>, fs)"
    if "wp_Auto w" "we_files env warp_file = None" "\<forall>b. we_write env b = None" "we_files env' = fs"
      "list_all valid_utf8 [wp_Endpoint w1, wp_IPv4 w1, wp_IPv6 w1, wp_PrivateKey w1, wp_PublicKey w1]" for env' w'
    using assms(1) that by (intro warp_settings_kept [of env w]) (simp_all add: warp_settings_def)
  ultimately show ?thesis
    using assms(1,2,3,7) warp_settings_switches [OF assms(1)]
    by (auto simp: warp_Run_def Let_def local_addresses_def parse_addr_string)
qed

definition demo_warp :: warp where
  "demo_warp = \<lparr>wp_Auto = False, wp_Port = 51280, wp_Endpoint = ''engage.cloudflareclient.com:2408'',
     wp_IPv4 = addr_string (Addr4 172 16 0 2) @ ''/32'', wp_IPv6 = addr_string (Addr6 0x2606 0 0 0 0 0 0 1 []) @ ''/128'',
     wp_PrivateKey = ''priv'', wp_PublicKey = ''pub'', wp_Reserved = None, wp_Proxy4 = True, wp_Proxy6 = False\<rparr>"

definition demo_warp_env :: warp_env where
  "demo_warp_env = \<lparr>we_rand = Inl ErrEOF, we_curve = id, we_now = [], we_Do = (\<lambda>_ _. Inl ErrEOF),
     we_gunzip = Some, we_get = (\<lambda>_ _. []), we_files = Map.empty,
     we_write = (\<lambda>_. None)\<rparr>"

theorem warp_device_witness:
  "\<exists>d w3 fs. warp_Run demo_warp_env (\<lambda>_. None) (\<lambda>_. None) demo_warp = RunOk (d, w3, fs) \<and>
    wg_addresses d = [Addr4 172 16 0 2, Addr6 0x2606 0 0 0 0 0 0 1 []] \<and> wp_Proxy4 w3"
proof -
  have w: "warp_settings demo_warp_env demo_warp = RunOk (demo_warp, Map.empty)"
    by (simp add: warp_settings_def demo_warp_def warp_verify_def demo_warp_env_def string4_def)
  from warp_device [OF w refl, of "Addr4 172 16 0 2" "''/32''" "Addr6 0x2606 0 0 0 0 0 0 1 []" "''/128''" "\<lambda>_. None"]
  show ?thesis by (auto simp: demo_warp_def)
qed

end
