(* ===== verification/ServerConfig.thy ===== *)
theory ServerConfig
  imports EdgeTunnel Warp ClientConfig
begin

text \<open>
  \<open>src/server/config.go\<close>: the settings of a server and what it starts from them.
\<close>

section \<open>The server\<close>

record build_info =
  bi_GoOS :: string
  bi_GoVersion :: string
  bi_GoArch :: string
  bi_BuildType :: string
  bi_CloudflaredVersion :: string

definition GetBuildInfo :: "string \<Rightarrow> string \<Rightarrow> string \<Rightarrow> string \<Rightarrow> string \<Rightarrow> build_info" where
  "GetBuildInfo goos goversion goarch buildType version =
     \<lparr>bi_GoOS = goos, bi_GoVersion = goversion, bi_GoArch = goarch, bi_BuildType = buildType,
      bi_CloudflaredVersion = version\<rparr>"

definition UserAgent :: "build_info \<Rightarrow> string" where
  "UserAgent bi = ''cloudflared/'' @ bi_CloudflaredVersion bi"

record server_cfg =
  sv_EdgeIPs :: "string list"
  sv_Token :: string
  sv_HaConn :: int
  sv_BindAddress :: string
  sv_Warp :: "warp option"

text \<open>The configured addresses go into a channel with room for all of them; \<open>None\<close> would be a send that blocks.\<close>

fun queue_edges :: "string list \<Rightarrow> addr_port chan \<Rightarrow> addr_port chan option" where
  "queue_edges [] ch = Some ch"
| "queue_edges (s # ss) ch =
     (case ParseAddrPort s of
        None \<Rightarrow> queue_edges ss ch
      | Some a \<Rightarrow> (case chan_send a ch of SendOk ch' \<Rightarrow> queue_edges ss ch' | _ \<Rightarrow> None))"

definition edge_channel :: "string list \<Rightarrow> addr_port chan option option" where
  "edge_channel ips = (if ips = [] then Some None else map_option Some (queue_edges ips (make_chan (length ips))))"

text \<open>What is running after \<open>Run\<close>: the shared server state, the dialer of destinations, and one goroutine per index.\<close>

record server_run =
  sr_server :: edge_server
  sr_warp :: "wg_device option"
  sr_proxy4 :: bool
  sr_proxy6 :: bool
  sr_client :: client_info
  sr_indices :: "nat list"
  sr_quick :: quick_data

text \<open>
  \<open>quick\<close> gives the token of a temporary tunnel (\<open>quick_token\<close>), \<open>warp\<close> brings up the WARP device
  (\<open>warp_Run\<close>), \<open>clientID\<close> is the random client identifier.
\<close>

definition Server_Run :: "(quick_data \<Rightarrow> go_error + quick_data) \<Rightarrow> (warp \<Rightarrow> (wg_device \<times> warp \<times> files) run) \<Rightarrow> bytes
    \<Rightarrow> build_info \<Rightarrow> quick_data \<Rightarrow> server_cfg \<Rightarrow> server_run run" where
  "Server_Run quick warp clientID info quickData cfg =
     (let haConn = (if sv_HaConn cfg = 0 then 4 else sv_HaConn cfg) in
      case (if sv_Token cfg = ''quick'' then map_sum id (\<lambda>q. (q, qd_Token q)) (quick quickData)
            else Inr (quickData, sv_Token cfg)) of
        Inl err \<Rightarrow> RunFatal (error_text err)
      | Inr (qd, token) \<Rightarrow>
          (case (case sv_Warp cfg of
                   Some w \<Rightarrow> if wp_Proxy4 w \<or> wp_Proxy6 w
                             then (case warp w of
                                     RunOk (d, w', fs) \<Rightarrow> RunOk (Some d, wp_Proxy4 w', wp_Proxy6 w')
                                   | RunFatal s \<Rightarrow> RunFatal s
                                   | RunBlocked \<Rightarrow> RunBlocked
                                   | RunPanic \<Rightarrow> RunPanic)
                             else RunOk (None, False, False)
                 | None \<Rightarrow> RunOk (None, False, False)) of
             RunFatal s \<Rightarrow> RunFatal s
           | RunPanic \<Rightarrow> RunPanic
           | RunBlocked \<Rightarrow> RunBlocked
           | RunOk (dev, proxy4, proxy6) \<Rightarrow>
               (case edge_channel (sv_EdgeIPs cfg) of
                  None \<Rightarrow> RunBlocked
                | Some edgeIPS \<Rightarrow>
                    RunOk \<lparr>sr_server = \<lparr>es_Token = token, es_EdgeIPS = edgeIPS,
                        es_EdgeBindAddr = ParseIP (sv_BindAddress cfg), es_NsResult = []\<rparr>,
                      sr_warp = dev, sr_proxy4 = proxy4, sr_proxy6 = proxy6,
                      sr_client = \<lparr>ci_ClientID = clientID, ci_Features = [], ci_Version = bi_CloudflaredVersion info,
                        ci_Arch = bi_GoArch info\<rparr>,
                      sr_indices = [0..<nat haConn], sr_quick = qd\<rparr>)))"

section \<open>Lemmas\<close>

lemma queue_edges_all:
  "\<lbrakk>\<not> ch_closed ch; length (ch_buf ch) + length ss \<le> ch_cap ch\<rbrakk> \<Longrightarrow>
   queue_edges ss ch = Some (ch\<lparr>ch_buf := ch_buf ch @ List.map_filter ParseAddrPort ss\<rparr>)"
proof (induction ss arbitrary: ch)
  case (Cons s ss)
  then show ?case
    by (cases "ParseAddrPort s") (auto simp: chan_send_def map_filter_simps)
qed (simp add: map_filter_simps)

lemma edge_channel_all:
  "edge_channel ips = Some (if ips = [] then None
     else Some \<lparr>ch_cap = length ips, ch_buf = List.map_filter ParseAddrPort ips, ch_closed = False\<rparr>)"
  using queue_edges_all [of "make_chan (length ips)" ips]
  by (simp add: edge_channel_def make_chan_def)

lemma map_filter_printed:
  "list_all (addr_is_valid \<circ> fst) as \<Longrightarrow> List.map_filter ParseAddrPort (map addr_port_print as) = as"
  by (induction as) (auto simp: map_filter_simps addr_port_print_def parse_addr_port_string)

text \<open>The addresses that successive connections get.\<close>

fun edge_calls :: "resolver \<Rightarrow> nat list \<Rightarrow> edge_server \<Rightarrow> addr_port list" where
  "edge_calls lookup [] e = []"
| "edge_calls lookup (i # is) e = (case getEdgeIP lookup i e of (a, e') \<Rightarrow> a # edge_calls lookup is e')"

lemma edge_calls_configured:
  "\<lbrakk>es_EdgeIPS e = Some ch; length is \<le> length (ch_buf ch)\<rbrakk> \<Longrightarrow>
   edge_calls lookup is e = take (length is) (ch_buf ch)"
proof (induction "is" arbitrary: e ch)
  case (Cons i "is")
  then obtain a as where "ch_buf ch = a # as" by (cases "ch_buf ch") auto
  with Cons show ?case by (simp add: getEdgeIP_def chan_recv_def)
qed simp

lemma Server_Run_ok_iff:
  "(\<exists>r. Server_Run quick warp clientID info qd cfg = RunOk r) \<longleftrightarrow>
     (sv_Token cfg = ''quick'' \<longrightarrow> (\<exists>q. quick qd = Inr q)) \<and>
     (\<forall>w. sv_Warp cfg = Some w \<and> (wp_Proxy4 w \<or> wp_Proxy6 w) \<longrightarrow> (\<exists>d. warp w = RunOk d))"
proof -
  have w: "(\<exists>d. warp w = RunOk d) \<longleftrightarrow> (case warp w of RunOk d \<Rightarrow> True | _ \<Rightarrow> False)" for w
    by (cases "warp w") auto
  show ?thesis
    by (cases "quick qd"; cases "sv_Warp cfg")
      (auto simp: Server_Run_def Let_def edge_channel_all w split: run.splits if_splits prod.splits)
qed

section \<open>Properties\<close>

text \<open>
  C22. Starting a server: it starts exactly when the temporary tunnel and the WARP device, as far as
  they are configured, come up; a failure of theirs is the only reason for not starting, so the
  configured edge addresses never block the start. Then it runs one goroutine for each index below
  \<open>ha-conn\<close>, four by default; the connections that are made first get exactly the configured
  addresses, in order, whichever indices they have. The WARP dialer is switched on for
  an IP version only when there is a WARP device. A temporary tunnel runs with its own token.
\<close>

theorem server_start:
  assumes edges: "sv_EdgeIPs cfg = map addr_port_print as" "list_all (addr_is_valid \<circ> fst) as"
  shows "((\<exists>r. Server_Run quick warp clientID info qd cfg = RunOk r) \<longleftrightarrow>
      (sv_Token cfg = ''quick'' \<longrightarrow> (\<exists>q. quick qd = Inr q)) \<and>
      (\<forall>w. sv_Warp cfg = Some w \<and> (wp_Proxy4 w \<or> wp_Proxy6 w) \<longrightarrow> (\<exists>d. warp w = RunOk d))) \<and>
    (\<forall>e. sv_Token cfg = ''quick'' \<and> quick qd = Inl e \<longrightarrow>
      Server_Run quick warp clientID info qd cfg = RunFatal (error_text e)) \<and>
    (Server_Run quick warp clientID info qd cfg = RunBlocked \<longrightarrow>
      (\<exists>w. sv_Warp cfg = Some w \<and> warp w = RunBlocked)) \<and>
    (\<forall>r. Server_Run quick warp clientID info qd cfg = RunOk r \<longrightarrow>
      sr_indices r = [0..<(if sv_HaConn cfg = 0 then 4 else nat (sv_HaConn cfg))] \<and>
      (\<forall>lookup is. length is \<le> length as \<longrightarrow> edge_calls lookup is (sr_server r) = take (length is) as) \<and>
      (sr_proxy4 r \<or> sr_proxy6 r \<longrightarrow> sr_warp r \<noteq> None) \<and>
      (if sv_Token cfg = ''quick'' then quick qd = Inr (sr_quick r) \<and> es_Token (sr_server r) = qd_Token (sr_quick r)
       else es_Token (sr_server r) = sv_Token cfg))"
proof (intro conjI allI impI)
  show "(\<exists>r. Server_Run quick warp clientID info qd cfg = RunOk r) \<longleftrightarrow>
      (sv_Token cfg = ''quick'' \<longrightarrow> (\<exists>q. quick qd = Inr q)) \<and>
      (\<forall>w. sv_Warp cfg = Some w \<and> (wp_Proxy4 w \<or> wp_Proxy6 w) \<longrightarrow> (\<exists>d. warp w = RunOk d))"
    by (rule Server_Run_ok_iff)
  show "Server_Run quick warp clientID info qd cfg = RunFatal (error_text e)"
    if "sv_Token cfg = ''quick'' \<and> quick qd = Inl e" for e
    using that by (simp add: Server_Run_def)
  show "\<exists>w. sv_Warp cfg = Some w \<and> warp w = RunBlocked"
    if "Server_Run quick warp clientID info qd cfg = RunBlocked"
    using that by (auto simp: Server_Run_def Let_def edge_channel_all
      split: run.splits sum.splits if_splits option.splits prod.splits)
next
  fix r assume r: "Server_Run quick warp clientID info qd cfg = RunOk r"
  have srv: "es_EdgeIPS (sr_server r) = (if as = [] then None
      else Some \<lparr>ch_cap = length as, ch_buf = as, ch_closed = False\<rparr>)"
    using r edges map_filter_printed [OF edges(2)]
    by (auto simp: Server_Run_def Let_def edge_channel_all split: run.splits sum.splits if_splits)
  show "edge_calls lookup is (sr_server r) = take (length is) as" if "length is \<le> length as" for lookup "is"
    using edge_calls_configured [of "sr_server r" _ "is" lookup] srv that by (cases "as = []") auto
  show "sr_indices r = [0..<(if sv_HaConn cfg = 0 then 4 else nat (sv_HaConn cfg))]"
    using r by (auto simp: Server_Run_def Let_def edge_channel_all split: run.splits sum.splits if_splits)
  show "sr_warp r \<noteq> None" if "sr_proxy4 r \<or> sr_proxy6 r"
    using r that
    by (auto simp: Server_Run_def Let_def edge_channel_all split: run.splits sum.splits if_splits option.splits prod.splits)
  show "if sv_Token cfg = ''quick'' then quick qd = Inr (sr_quick r) \<and> es_Token (sr_server r) = qd_Token (sr_quick r)
     else es_Token (sr_server r) = sv_Token cfg"
    using r
    by (cases "quick qd") (auto simp: Server_Run_def Let_def edge_channel_all split: run.splits if_splits)
qed

definition demo_edges :: "addr_port list" where
  "demo_edges = [(Addr4 198 41 200 13, 7844), (Addr6 0x2606 0x4700 0xa0 0 0 0 0 1 [], 7844)]"

definition demo_server_cfg :: server_cfg where
  "demo_server_cfg = \<lparr>sv_EdgeIPs = map addr_port_print demo_edges, sv_Token = ''tok'', sv_HaConn = 0, sv_BindAddress = [],
     sv_Warp = None\<rparr>"

definition demo_info :: build_info where
  "demo_info = GetBuildInfo ''linux'' ''go1.24'' ''amd64'' ''DEV'' ''2025.4.1''"

theorem server_start_witness:
  "\<exists>r. Server_Run (\<lambda>_. Inl ErrEOF) (\<lambda>_. RunPanic) [1] demo_info demo_quick demo_server_cfg = RunOk r \<and>
    sr_indices r = [0, 1, 2, 3] \<and> edge_calls (\<lambda>_. Inl ErrEOF) [3, 0] (sr_server r) = demo_edges"
proof -
  have "sv_EdgeIPs demo_server_cfg = map addr_port_print demo_edges" "list_all (addr_is_valid \<circ> fst) demo_edges"
    by (simp_all add: demo_server_cfg_def demo_edges_def)
  note start = server_start [OF this, of "\<lambda>_. Inl ErrEOF" "\<lambda>_. RunPanic" "[1]" demo_info demo_quick]
  from start [THEN conjunct1] obtain r
    where r: "Server_Run (\<lambda>_. Inl ErrEOF) (\<lambda>_. RunPanic) [1] demo_info demo_quick demo_server_cfg = RunOk r"
    by (auto simp: demo_server_cfg_def)
  note facts = start [THEN conjunct2, THEN conjunct2, THEN conjunct2, rule_format, OF r]
  have "edge_calls (\<lambda>_. Inl ErrEOF) [3, 0] (sr_server r) = take (length [3::nat, 0]) demo_edges"
    by (rule facts [THEN conjunct2, THEN conjunct1, rule_format]) (simp add: demo_edges_def)
  then have "edge_calls (\<lambda>_. Inl ErrEOF) [3, 0] (sr_server r) = demo_edges"
    by (simp add: demo_edges_def del: edge_calls.simps)
  moreover have "sr_indices r = [0, 1, 2, 3]"
    using facts [THEN conjunct1] by (simp add: demo_server_cfg_def upt_rec)
  ultimately show ?thesis using r by blast
qed

end
