(* ===== verification/ConfigFile.thy ===== *)
theory ConfigFile
  imports ServerConfig JsonDecode
begin

text \<open>
  The configuration file: the structs of \<open>src/main.go\<close>, \<open>src/server/config.go\<close>, \<open>src/client/config.go\<close> and
  \<open>src/client/tun.go\<close> with the names and kinds of their fields, as \<open>json.Unmarshal\<close> fills them. A text
  that spells out a configuration field by field is read back as that configuration.
\<close>

section \<open>Decoders\<close>

record raw_config =
  rc_Server :: "server_cfg option"
  rc_Client :: "client_cfg option"

definition zero_warp :: warp where
  "zero_warp = \<lparr>wp_Auto = False, wp_Port = 0, wp_Endpoint = [], wp_IPv4 = [], wp_IPv6 = [], wp_PrivateKey = [],
     wp_PublicKey = [], wp_Reserved = None, wp_Proxy4 = False, wp_Proxy6 = False\<rparr>"

definition zero_server :: server_cfg where
  "zero_server = \<lparr>sv_EdgeIPs = [], sv_Token = [], sv_HaConn = 0, sv_BindAddress = [], sv_Warp = None\<rparr>"

definition server_decoder :: "server_cfg decoder" where
  "server_decoder = dec_struct
     [json_field ''edge-ips'' (dec_list [] dec_string) sv_EdgeIPs (\<lambda>x c. c\<lparr>sv_EdgeIPs := x\<rparr>),
      json_field ''token'' dec_string sv_Token (\<lambda>x c. c\<lparr>sv_Token := x\<rparr>),
      json_field ''ha-conn'' (dec_int 64) sv_HaConn (\<lambda>x c. c\<lparr>sv_HaConn := x\<rparr>),
      json_field ''bind-address'' dec_string sv_BindAddress (\<lambda>x c. c\<lparr>sv_BindAddress := x\<rparr>),
      json_field ''warp'' (dec_ptr zero_warp warp_decoder) sv_Warp (\<lambda>x c. c\<lparr>sv_Warp := x\<rparr>)]"

definition zero_tunnel :: tunnel_cfg where
  "zero_tunnel = \<lparr>tn_Listen = [], tn_Remote = [], tn_Url = [], tn_Protocol = [], tn_Timeout = 0\<rparr>"

definition tunnel_decoder :: "tunnel_cfg decoder" where
  "tunnel_decoder = dec_struct
     [json_field ''listen'' dec_string tn_Listen (\<lambda>x t. t\<lparr>tn_Listen := x\<rparr>),
      json_field ''remote'' dec_string tn_Remote (\<lambda>x t. t\<lparr>tn_Remote := x\<rparr>),
      json_field ''url'' dec_string tn_Url (\<lambda>x t. t\<lparr>tn_Url := x\<rparr>),
      json_field ''protocol'' dec_string tn_Protocol (\<lambda>x t. t\<lparr>tn_Protocol := x\<rparr>),
      json_field ''timeout'' (dec_int 64) tn_Timeout (\<lambda>x t. t\<lparr>tn_Timeout := x\<rparr>)]"

definition zero_tun :: tun_cfg where
  "zero_tun = \<lparr>tu_Enable = False, tu_Name = [], tu_Interface = [], tu_LogLevel = [], tu_Routes = [], tu_ExRoutes = [],
     tu_Ipv4 = [], tu_Ipv6 = [], tu_MTU = 0\<rparr>"

definition tun_decoder :: "tun_cfg decoder" where
  "tun_decoder = dec_struct
     [json_field ''enable'' dec_bool tu_Enable (\<lambda>x t. t\<lparr>tu_Enable := x\<rparr>),
      json_field ''name'' dec_string tu_Name (\<lambda>x t. t\<lparr>tu_Name := x\<rparr>),
      json_field ''interface'' dec_string tu_Interface (\<lambda>x t. t\<lparr>tu_Interface := x\<rparr>),
      json_field ''log-level'' dec_string tu_LogLevel (\<lambda>x t. t\<lparr>tu_LogLevel := x\<rparr>),
      json_field ''routes'' (dec_list [] dec_string) tu_Routes (\<lambda>x t. t\<lparr>tu_Routes := x\<rparr>),
      json_field ''ex-routes'' (dec_list [] dec_string) tu_ExRoutes (\<lambda>x t. t\<lparr>tu_ExRoutes := x\<rparr>),
      json_field ''ipv4'' dec_string tu_Ipv4 (\<lambda>x t. t\<lparr>tu_Ipv4 := x\<rparr>),
      json_field ''ipv6'' dec_string tu_Ipv6 (\<lambda>x t. t\<lparr>tu_Ipv6 := x\<rparr>),
      json_field ''mtu'' (dec_int 64) tu_MTU (\<lambda>x t. t\<lparr>tu_MTU := x\<rparr>)]"

definition zero_client :: client_cfg where
  "zero_client = \<lparr>cc_CdnIp = [], cc_CdnPort = 0, cc_PoolSize = 0, cc_GlobalUrl = [], cc_Scheme = [], cc_Tunnels = [],
     cc_Tun = None\<rparr>"

definition client_decoder :: "client_cfg decoder" where
  "client_decoder = dec_struct
     [json_field ''cdn-ip'' dec_string cc_CdnIp (\<lambda>x c. c\<lparr>cc_CdnIp := x\<rparr>),
      json_field ''cdn-port'' (dec_int 64) cc_CdnPort (\<lambda>x c. c\<lparr>cc_CdnPort := x\<rparr>),
      json_field ''pool-size'' (dec_int 32) cc_PoolSize (\<lambda>x c. c\<lparr>cc_PoolSize := x\<rparr>),
      json_field ''global-url'' dec_string cc_GlobalUrl (\<lambda>x c. c\<lparr>cc_GlobalUrl := x\<rparr>),
      json_field ''scheme'' dec_string cc_Scheme (\<lambda>x c. c\<lparr>cc_Scheme := x\<rparr>),
      json_field ''tunnels'' (dec_list None (dec_ptr zero_tunnel tunnel_decoder)) cc_Tunnels (\<lambda>x c. c\<lparr>cc_Tunnels := x\<rparr>),
      json_field ''tun'' (dec_ptr zero_tun tun_decoder) cc_Tun (\<lambda>x c. c\<lparr>cc_Tun := x\<rparr>)]"

definition zero_raw :: raw_config where
  "zero_raw = \<lparr>rc_Server = None, rc_Client = None\<rparr>"

definition raw_decoder :: "raw_config decoder" where
  "raw_decoder = dec_struct
     [json_field ''server'' (dec_ptr zero_server server_decoder) rc_Server (\<lambda>x r. r\<lparr>rc_Server := x\<rparr>),
      json_field ''client'' (dec_ptr zero_client client_decoder) rc_Client (\<lambda>x r. r\<lparr>rc_Client := x\<rparr>)]"

section \<open>A configuration as text\<close>

definition jstrs :: "string list \<Rightarrow> json" where "jstrs ss = JArr (map jstr ss)"

definition server_json :: "server_cfg \<Rightarrow> json" where
  "server_json c = jobj
     [(''edge-ips'', jstrs (sv_EdgeIPs c)), (''token'', jstr (sv_Token c)), (''ha-conn'', jint (sv_HaConn c)),
      (''bind-address'', jstr (sv_BindAddress c)), (''warp'', jptr warp_json (sv_Warp c))]"

definition tunnel_json :: "tunnel_cfg \<Rightarrow> json" where
  "tunnel_json t = jobj
     [(''listen'', jstr (tn_Listen t)), (''remote'', jstr (tn_Remote t)), (''url'', jstr (tn_Url t)),
      (''protocol'', jstr (tn_Protocol t)), (''timeout'', jint (tn_Timeout t))]"

definition tun_json :: "tun_cfg \<Rightarrow> json" where
  "tun_json t = jobj
     [(''enable'', JBool (tu_Enable t)), (''name'', jstr (tu_Name t)), (''interface'', jstr (tu_Interface t)),
      (''log-level'', jstr (tu_LogLevel t)), (''routes'', jstrs (tu_Routes t)), (''ex-routes'', jstrs (tu_ExRoutes t)),
      (''ipv4'', jstr (tu_Ipv4 t)), (''ipv6'', jstr (tu_Ipv6 t)), (''mtu'', jint (tu_MTU t))]"

definition client_json :: "client_cfg \<Rightarrow> json" where
  "client_json c = jobj
     [(''cdn-ip'', jstr (cc_CdnIp c)), (''cdn-port'', jint (cc_CdnPort c)), (''pool-size'', jint (cc_PoolSize c)),
      (''global-url'', jstr (cc_GlobalUrl c)), (''scheme'', jstr (cc_Scheme c)),
      (''tunnels'', JArr (map (jptr tunnel_json) (cc_Tunnels c))), (''tun'', jptr tun_json (cc_Tun c))]"

definition raw_json :: "raw_config \<Rightarrow> json" where
  "raw_json r = jobj [(''server'', jptr server_json (rc_Server r)), (''client'', jptr client_json (rc_Client r))]"

text \<open>What such a text can hold: valid UTF-8, and integers of their width.\<close>

definition fits :: "nat \<Rightarrow> int \<Rightarrow> bool" where
  "fits n i \<longleftrightarrow> - (2 ^ (n - 1)) \<le> i \<and> i < 2 ^ (n - 1)"

definition warp_fits :: "warp \<Rightarrow> bool" where
  "warp_fits w \<longleftrightarrow> list_all valid_utf8 [wp_Endpoint w, wp_IPv4 w, wp_IPv6 w, wp_PrivateKey w, wp_PublicKey w]"

definition server_fits :: "server_cfg \<Rightarrow> bool" where
  "server_fits c \<longleftrightarrow> list_all valid_utf8 (sv_Token c # sv_BindAddress c # sv_EdgeIPs c) \<and> fits 64 (sv_HaConn c) \<and>
     pred_option warp_fits (sv_Warp c)"

definition tunnel_fits :: "tunnel_cfg \<Rightarrow> bool" where
  "tunnel_fits t \<longleftrightarrow> list_all valid_utf8 [tn_Listen t, tn_Remote t, tn_Url t, tn_Protocol t] \<and> fits 64 (tn_Timeout t)"

definition tun_fits :: "tun_cfg \<Rightarrow> bool" where
  "tun_fits t \<longleftrightarrow> list_all valid_utf8 ([tu_Name t, tu_Interface t, tu_LogLevel t, tu_Ipv4 t, tu_Ipv6 t] @ tu_Routes t @ tu_ExRoutes t) \<and>
     fits 64 (tu_MTU t)"

definition client_fits :: "client_cfg \<Rightarrow> bool" where
  "client_fits c \<longleftrightarrow> list_all valid_utf8 [cc_CdnIp c, cc_GlobalUrl c, cc_Scheme c] \<and> fits 64 (cc_CdnPort c) \<and>
     fits 32 (cc_PoolSize c) \<and> list_all (pred_option tunnel_fits) (cc_Tunnels c) \<and> pred_option tun_fits (cc_Tun c)"

definition raw_fits :: "raw_config \<Rightarrow> bool" where
  "raw_fits r \<longleftrightarrow> pred_option server_fits (rc_Server r) \<and> pred_option client_fits (rc_Client r)"

section \<open>Lemmas\<close>

lemmas fits_defs = warp_fits_def server_fits_def tunnel_fits_def tun_fits_def client_fits_def raw_fits_def

lemma dec_int_fits [simp]: "fits n i \<Longrightarrow> dec_int n (jint i) old = (i, DecOk)"
  by (simp add: fits_def dec_int_jint)

lemma dec_list_jstrs [simp]: "list_all valid_utf8 ss \<Longrightarrow> dec_list [] dec_string (jstrs ss) [] = (ss, DecOk)"
  by (simp add: jstrs_def)

lemma dec_string_valid [simp]: "valid_utf8 s \<Longrightarrow> dec_string (jstr s) old = (s, DecOk)"
  by (simp add: valid_utf8_def)

lemma jobj_not_null [simp]: "jobj ms \<noteq> JNull"
  by (simp add: jobj_def)

lemma warp_decoded: "warp_fits w \<Longrightarrow> warp_decoder (warp_json w) zero_warp = (w, DecOk)"
  by (simp add: warp_fits_def warp_decoder_def warp_json_def warp_fields_def json_struct del: dec_string_jstr)

lemma json_not_null:
  "warp_json w \<noteq> JNull" "server_json s \<noteq> JNull" "tunnel_json t \<noteq> JNull" "tun_json u \<noteq> JNull" "client_json c \<noteq> JNull"
  by (simp_all add: warp_json_def server_json_def tunnel_json_def tun_json_def client_json_def)

lemma dec_ptr_pred:
  assumes "pred_option P v" and "\<And>x. P x \<Longrightarrow> d (f x) zero = (x, DecOk)" and "\<And>x. f x \<noteq> JNull"
  shows "dec_ptr zero d (jptr f v) None = (v, DecOk)"
  using assms by (intro dec_ptr_jptr) auto

lemma warp_ptr: "pred_option warp_fits v \<Longrightarrow> dec_ptr zero_warp warp_decoder (jptr warp_json v) None = (v, DecOk)"
  by (rule dec_ptr_pred [where P = warp_fits]) (simp_all add: warp_decoded json_not_null)

lemma server_decoded: "server_fits c \<Longrightarrow> server_decoder (server_json c) zero_server = (c, DecOk)"
  by (simp add: server_fits_def server_decoder_def server_json_def zero_server_def json_struct warp_ptr del: dec_string_jstr)

lemma tunnel_decoded: "tunnel_fits t \<Longrightarrow> tunnel_decoder (tunnel_json t) zero_tunnel = (t, DecOk)"
  by (simp add: tunnel_fits_def tunnel_decoder_def tunnel_json_def json_struct del: dec_string_jstr)

lemma tun_decoded: "tun_fits t \<Longrightarrow> tun_decoder (tun_json t) zero_tun = (t, DecOk)"
  by (simp add: tun_fits_def tun_decoder_def tun_json_def zero_tun_def json_struct del: dec_string_jstr)

lemma tunnel_ptr: "pred_option tunnel_fits v \<Longrightarrow> dec_ptr zero_tunnel tunnel_decoder (jptr tunnel_json v) None = (v, DecOk)"
  by (rule dec_ptr_pred [where P = tunnel_fits]) (simp_all add: tunnel_decoded json_not_null)

lemma tun_ptr: "pred_option tun_fits v \<Longrightarrow> dec_ptr zero_tun tun_decoder (jptr tun_json v) None = (v, DecOk)"
  by (rule dec_ptr_pred [where P = tun_fits]) (simp_all add: tun_decoded json_not_null)

lemma tunnels_decoded:
  "list_all (pred_option tunnel_fits) ts \<Longrightarrow>
   dec_list None (dec_ptr zero_tunnel tunnel_decoder) (JArr (map (jptr tunnel_json) ts)) [] = (ts, DecOk)"
  by (rule dec_list_printed) (auto simp: list_all_iff tunnel_ptr)

lemma client_decoded: "client_fits c \<Longrightarrow> client_decoder (client_json c) zero_client = (c, DecOk)"
  by (simp add: client_fits_def client_decoder_def client_json_def zero_client_def json_struct tunnels_decoded tun_ptr
      del: dec_string_jstr)

lemma server_ptr: "pred_option server_fits v \<Longrightarrow> dec_ptr zero_server server_decoder (jptr server_json v) None = (v, DecOk)"
  by (rule dec_ptr_pred [where P = server_fits]) (simp_all add: server_decoded json_not_null)

lemma client_ptr: "pred_option client_fits v \<Longrightarrow> dec_ptr zero_client client_decoder (jptr client_json v) None = (v, DecOk)"
  by (rule dec_ptr_pred [where P = client_fits]) (simp_all add: client_decoded json_not_null)

lemma raw_decoded: "raw_fits r \<Longrightarrow> raw_decoder (raw_json r) zero_raw = (r, DecOk)"
  by (simp add: raw_fits_def raw_decoder_def raw_json_def zero_raw_def json_struct server_ptr client_ptr)

text \<open>The text is well formed: its nesting is at most five deep.\<close>

lemma json_ok_jptr_all: "(\<And>x. json_ok d (f x)) \<Longrightarrow> json_ok d (jptr f v)"
  by (rule json_ok_jptr)

lemma json_ok_jstrs [simp]: "0 < d \<Longrightarrow> json_ok d (jstrs ss)"
  by (simp add: jstrs_def)

lemma json_ok_raw: "json_ok maxNestingDepth (raw_json r)"
  by (auto simp: raw_json_def server_json_def warp_json_def client_json_def tunnel_json_def tun_json_def
      maxNestingDepth_def intro!: json_ok_jptr_all)

text \<open>A \<open>null\<close> entry in the list of tunnels is a nil pointer, which \<open>Run\<close> dereferences.\<close>

lemma null_tunnel_panics:
  \<open>\<exists>r c. json_Unmarshal raw_decoder (string_bytes ''{"client": {"tunnels": [null]}}'') zero_raw = (r, None) \<and>
     rc_Client r = Some c \<and> snd (snd (Config_Run tun_run c)) = ClientPanics\<close>
proof -
  have \<open>json_parse ''{"client": {"tunnels": [null]}}'' = Some (JObj [(''client'', JObj [(''tunnels'', JArr [JNull])])])\<close>
    by code_simp
  moreover have \<open>raw_decoder (JObj [(''client'', JObj [(''tunnels'', JArr [JNull])])]) zero_raw =
      (\<lparr>rc_Server = None, rc_Client = Some (zero_client\<lparr>cc_Tunnels := [None]\<rparr>)\<rparr>, DecOk)\<close>
    by code_simp
  ultimately show ?thesis
    by (simp add: json_Unmarshal_def Config_Run_def device_result_def zero_client_def)
qed

lemma raw_config_reread:
  assumes "raw_fits r" and "enc = json_compact \<or> enc = json_indent"
  shows "json_Unmarshal raw_decoder (string_bytes (enc (raw_json r))) zero_raw = (r, None)"
  using assms json_Unmarshal_compact json_Unmarshal_indent json_ok_raw raw_decoded by metis

end
