(* ===== verification/CoreStack.thy ===== *)
theory CoreStack
  imports TunTunnel
begin

text \<open>
  \<open>src/client/tun/core\<close>: how the user-space network stack behind the TUN device is set up (\<open>stack.go\<close>,
  \<open>nic.go\<close>, \<open>route.go\<close>, \<open>option/option.go\<close>) and what is done with a new TCP or UDP request of the device
  (\<open>tcp.go\<close>, \<open>udp.go\<close>). The stack is gVisor's: a call of it is a value, and the results its calls have are
  an argument.
\<close>

section \<open>Calls and options\<close>

datatype ip_proto = ProtoIPv4 | ProtoIPv6

datatype stack_call =
    SetDefaultTTL ip_proto byte
  | SetForwarding ip_proto bool
  | SetICMPBurst int
  | SetICMPLimit int
  | SetTCPSendBufferRange int int int
  | SetTCPReceiveBufferRange int int int
  | SetTCPCongestionControl string
  | SetTCPDelay bool
  | SetTCPModerateReceiveBuffer bool
  | SetTCPSACK bool
  | SetTCPRecovery int
  | SetTCPHandler int int \<comment> \<open>the receive window and the connection attempts of the forwarder\<close>
  | SetUDPHandler
  | CreateNIC nat
  | SetPromiscuousMode nat bool
  | SetSpoofing nat bool
  | SetRouteTable "(ip_proto \<times> nat) list"
  | AddProtocolAddress nat ip_proto bytes nat
  | JoinGroup ip_proto nat bytes

text \<open>
  An option is a function on the stack that makes calls and returns at the first one that fails. It
  is given by its calls, each with the text its error is reported under, or without one when the call
  has no result or the source drops it.
\<close>

type_synonym option_prog = "(stack_call \<times> string option) list"
type_synonym stack_results = "stack_call \<Rightarrow> go_error option"

fun run_option :: "stack_results \<Rightarrow> option_prog \<Rightarrow> go_error option \<times> stack_call list" where
  "run_option res [] = (None, [])"
| "run_option res ((c, msg) # cs) =
     (case (msg, res c) of
        (Some m, Some e) \<Rightarrow> (Some (ErrText (m @ '': '' @ error_text e)), [c])
      | _ \<Rightarrow> (case run_option res cs of (r, made) \<Rightarrow> (r, c # made)))"

section \<open>The options\<close>

text \<open>gVisor's constants: the least, the two default and the largest sizes of a TCP buffer, and the recovery algorithm.\<close>

record tcp_consts =
  tc_MinBufferSize :: int
  tc_DefaultSendBufferSize :: int
  tc_DefaultReceiveBufferSize :: int
  tc_MaxBufferSize :: int
  tc_RACKLossDetection :: int

definition WithDefaultTTL :: "byte \<Rightarrow> option_prog" where
  "WithDefaultTTL ttl = [(SetDefaultTTL ProtoIPv4 ttl, Some ''set ipv4 default TTL''),
     (SetDefaultTTL ProtoIPv6 ttl, Some ''set ipv6 default TTL'')]"

definition WithForwarding :: "bool \<Rightarrow> option_prog" where
  "WithForwarding v = [(SetForwarding ProtoIPv4 v, Some ''set ipv4 forwarding''),
     (SetForwarding ProtoIPv6 v, Some ''set ipv6 forwarding'')]"

definition WithICMPBurst :: "int \<Rightarrow> option_prog" where
  "WithICMPBurst burst = [(SetICMPBurst burst, None)]"

definition WithICMPLimit :: "int \<Rightarrow> option_prog" where
  "WithICMPLimit limit = [(SetICMPLimit limit, None)]"

definition WithTCPSendBufferSize :: "tcp_consts \<Rightarrow> int \<Rightarrow> option_prog" where
  "WithTCPSendBufferSize k n =
     [(SetTCPSendBufferRange (tc_MinBufferSize k) n (tc_MaxBufferSize k), Some ''set TCP send buffer size range'')]"

definition WithTCPSendBufferSizeRange :: "int \<Rightarrow> int \<Rightarrow> int \<Rightarrow> option_prog" where
  "WithTCPSendBufferSizeRange a b c = [(SetTCPSendBufferRange a b c, Some ''set TCP send buffer size range'')]"

definition WithTCPReceiveBufferSize :: "tcp_consts \<Rightarrow> int \<Rightarrow> option_prog" where
  "WithTCPReceiveBufferSize k n =
     [(SetTCPReceiveBufferRange (tc_MinBufferSize k) n (tc_MaxBufferSize k), Some ''set TCP receive buffer size range'')]"

definition WithTCPReceiveBufferSizeRange :: "int \<Rightarrow> int \<Rightarrow> int \<Rightarrow> option_prog" where
  "WithTCPReceiveBufferSizeRange a b c =
     [(SetTCPReceiveBufferRange a b c, Some ''set TCP receive buffer size range'')]"

definition WithTCPCongestionControl :: "string \<Rightarrow> option_prog" where
  "WithTCPCongestionControl cc = [(SetTCPCongestionControl cc, Some ''set TCP congestion control algorithm'')]"

definition WithTCPDelay :: "bool \<Rightarrow> option_prog" where
  "WithTCPDelay v = [(SetTCPDelay v, Some ''set TCP delay'')]"

definition WithTCPModerateReceiveBuffer :: "bool \<Rightarrow> option_prog" where
  "WithTCPModerateReceiveBuffer v = [(SetTCPModerateReceiveBuffer v, Some ''set TCP moderate receive buffer'')]"

definition WithTCPSACKEnabled :: "bool \<Rightarrow> option_prog" where
  "WithTCPSACKEnabled v = [(SetTCPSACK v, Some ''set TCP SACK'')]"

definition WithTCPRecovery :: "int \<Rightarrow> option_prog" where
  "WithTCPRecovery v = [(SetTCPRecovery v, Some ''set TCP Recovery'')]"

definition defaultTimeToLive :: byte where "defaultTimeToLive = 64"
definition ipForwardingEnabled :: bool where "ipForwardingEnabled = True"
definition icmpBurst :: int where "icmpBurst = 50"
definition icmpLimit :: int where "icmpLimit = 1000"
definition tcpCongestionControlAlgorithm :: string where "tcpCongestionControlAlgorithm = ''reno''"
definition tcpDelayEnabled :: bool where "tcpDelayEnabled = False"
definition tcpModerateReceiveBufferEnabled :: bool where "tcpModerateReceiveBufferEnabled = False"
definition tcpSACKEnabled :: bool where "tcpSACKEnabled = True"

text \<open>\<open>WithDefault\<close> runs its options in order and returns the first error: the concatenation of their calls.\<close>

definition WithDefault :: "tcp_consts \<Rightarrow> option_prog" where
  "WithDefault k = concat
     [WithDefaultTTL defaultTimeToLive, WithForwarding ipForwardingEnabled, WithICMPBurst icmpBurst, WithICMPLimit icmpLimit,
      WithTCPSendBufferSizeRange (tc_MinBufferSize k) (tc_DefaultSendBufferSize k) (tc_MaxBufferSize k),
      WithTCPReceiveBufferSizeRange (tc_MinBufferSize k) (tc_DefaultReceiveBufferSize k) (tc_MaxBufferSize k),
      WithTCPCongestionControl tcpCongestionControlAlgorithm, WithTCPDelay tcpDelayEnabled,
      WithTCPModerateReceiveBuffer tcpModerateReceiveBufferEnabled, WithTCPSACKEnabled tcpSACKEnabled, WithTCPRecovery (tc_RACKLossDetection k)]"

text \<open>A window of 0 stands for the stack's default.\<close>

definition defaultWndSize :: int where "defaultWndSize = 0"
definition maxConnAttempts :: int where "maxConnAttempts = 2 * 2 ^ 10"

abbreviation tcp_handler :: stack_call where
  "tcp_handler \<equiv> SetTCPHandler defaultWndSize maxConnAttempts"

definition withTCPHandler :: option_prog where "withTCPHandler = [(tcp_handler, None)]"
definition withUDPHandler :: option_prog where "withUDPHandler = [(SetUDPHandler, None)]"

definition withCreatingNIC :: "nat \<Rightarrow> option_prog" where
  "withCreatingNIC nic = [(CreateNIC nic, Some ''create NIC'')]"

definition withPromiscuousMode :: "nat \<Rightarrow> bool \<Rightarrow> option_prog" where
  "withPromiscuousMode nic v = [(SetPromiscuousMode nic v, Some ''set promiscuous mode'')]"

definition withSpoofing :: "nat \<Rightarrow> bool \<Rightarrow> option_prog" where
  "withSpoofing nic v = [(SetSpoofing nic v, Some ''set spoofing'')]"

definition withRouteTable :: "nat \<Rightarrow> option_prog" where
  "withRouteTable nic = [(SetRouteTable [(ProtoIPv4, nic), (ProtoIPv6, nic)], None)]"

text \<open>The multicast address of the second family has its 1 in the fifteenth byte.\<close>

definition group_join :: "nat \<Rightarrow> addr \<Rightarrow> option_prog" where
  "group_join nic g =
     (if addr_is4 g then [(JoinGroup ProtoIPv4 nic (as_slice g), Some ''join multicast group'')]
      else if addr_is6 g then [(JoinGroup ProtoIPv6 nic (as_slice g), Some ''join multicast group'')]
      else [])"

definition withMulticastGroups :: "nat \<Rightarrow> addr list \<Rightarrow> option_prog" where
  "withMulticastGroups nic groups =
     (if groups = [] then []
      else [(AddProtocolAddress nic ProtoIPv4 [0x0a, 0, 0, 0x01] 8, None),
            (AddProtocolAddress nic ProtoIPv6 (0xfd # replicate 13 0 @ [0x01, 0]) 8, None)] @
           concat (map (group_join nic) groups))"

section \<open>Creating the stack\<close>

text \<open>
  \<open>CreateStack\<close> with the number the stack gives to the NIC: all options in order, the error of the
  first that fails. The configuration's own options come between the defaults and the handlers.
\<close>

definition stack_options :: "tcp_consts \<Rightarrow> option_prog list \<Rightarrow> nat \<Rightarrow> addr list \<Rightarrow> option_prog list" where
  "stack_options k options nic groups =
     [WithDefault k] @ options @
     [withTCPHandler, withUDPHandler, withCreatingNIC nic, withPromiscuousMode nic True, withSpoofing nic True,
      withRouteTable nic, withMulticastGroups nic groups]"

fun run_options :: "stack_results \<Rightarrow> option_prog list \<Rightarrow> go_error option \<times> stack_call list" where
  "run_options res [] = (None, [])"
| "run_options res (p # ps) =
     (case run_option res p of
        (Some e, made) \<Rightarrow> (Some e, made)
      | (None, made) \<Rightarrow> (case run_options res ps of (r, made') \<Rightarrow> (r, made @ made')))"

definition CreateStack :: "stack_results \<Rightarrow> tcp_consts \<Rightarrow> option_prog list \<Rightarrow> nat \<Rightarrow> addr list
    \<Rightarrow> go_error option \<times> stack_call list" where
  "CreateStack res k options nic groups = run_options res (stack_options k options nic groups)"

section \<open>Requests of the device\<close>

datatype ep_call = EpKeepAlive bool | EpKeepaliveIdle int | EpKeepaliveInterval int | EpKeepaliveCount int
  | EpSendBufferSize int | EpReceiveBufferSize int

definition tcpKeepaliveCount :: int where "tcpKeepaliveCount = 9"
definition tcpKeepaliveIdle :: int where "tcpKeepaliveIdle = 60 * 1000000000"
definition tcpKeepaliveInterval :: int where "tcpKeepaliveInterval = 30 * 1000000000"

text \<open>\<open>snd\<close> and \<open>rcv\<close> are the stack's default buffer sizes, when it knows them.\<close>

definition setSocketOptions :: "(ep_call \<Rightarrow> go_error option) \<Rightarrow> int option \<Rightarrow> int option \<Rightarrow> go_error option \<times> ep_call list" where
  "setSocketOptions res snd_default rcv_default =
     (case res (EpKeepaliveIdle tcpKeepaliveIdle) of
        Some e \<Rightarrow> (Some e, [EpKeepAlive True, EpKeepaliveIdle tcpKeepaliveIdle])
      | None \<Rightarrow>
          (case res (EpKeepaliveInterval tcpKeepaliveInterval) of
             Some e \<Rightarrow> (Some e, [EpKeepAlive True, EpKeepaliveIdle tcpKeepaliveIdle, EpKeepaliveInterval tcpKeepaliveInterval])
           | None \<Rightarrow>
               (case res (EpKeepaliveCount tcpKeepaliveCount) of
                  Some e \<Rightarrow> (Some e, [EpKeepAlive True, EpKeepaliveIdle tcpKeepaliveIdle,
                      EpKeepaliveInterval tcpKeepaliveInterval, EpKeepaliveCount tcpKeepaliveCount])
                | None \<Rightarrow> (None, [EpKeepAlive True, EpKeepaliveIdle tcpKeepaliveIdle,
                      EpKeepaliveInterval tcpKeepaliveInterval, EpKeepaliveCount tcpKeepaliveCount] @
                    (case snd_default of Some n \<Rightarrow> [EpSendBufferSize n] | None \<Rightarrow> []) @
                    (case rcv_default of Some n \<Rightarrow> [EpReceiveBufferSize n] | None \<Rightarrow> [])))))"

text \<open>
  What the forwarder does with a request: complete it (with a reset or not), hand a connection to the
  handler, log. Deferred calls come last, in reverse order.
\<close>

datatype fwd_action = Complete bool | Handle transport_id | SetEp "ep_call list" | DebugLog go_error

definition forward_tcp :: "go_error option \<Rightarrow> (ep_call \<Rightarrow> go_error option) \<Rightarrow> int option \<Rightarrow> int option \<Rightarrow> transport_id
    \<Rightarrow> fwd_action list" where
  "forward_tcp create_err res snd_default rcv_default i =
     (case create_err of
        Some e \<Rightarrow> [Complete True, DebugLog e]
      | None \<Rightarrow>
          (case setSocketOptions res snd_default rcv_default of
             (err, calls) \<Rightarrow> [SetEp calls, Handle i, Complete False] @ (case err of Some e \<Rightarrow> [DebugLog e] | None \<Rightarrow> [])))"

definition forward_udp :: "go_error option \<Rightarrow> transport_id \<Rightarrow> fwd_action list" where
  "forward_udp create_err i = (case create_err of Some e \<Rightarrow> [DebugLog e] | None \<Rightarrow> [Handle i])"

section \<open>Running options\<close>

definition failing :: "stack_results \<Rightarrow> stack_call \<times> string option \<Rightarrow> bool" where
  "failing res c \<longleftrightarrow> snd c \<noteq> None \<and> res (fst c) \<noteq> None"

lemma run_option_error:
  "run_option res p = (Some e, made) \<Longrightarrow>
   \<exists>pre c m rest err. p = pre @ (c, Some m) # rest \<and> made = map fst pre @ [c] \<and> res c = Some err \<and>
     e = ErrText (m @ '': '' @ error_text err)"
proof (induction p arbitrary: made)
  case (Cons x p)
  obtain c msg where x: "x = (c, msg)" by (cases x)
  show ?case
  proof (cases "failing res x")
    case True
    with Cons.prems x show ?thesis by (intro exI [of _ "[]"]) (auto simp: failing_def)
  next
    case False
    then obtain made' where m: "run_option res p = (Some e, made')" "made = c # made'"
      using Cons.prems x by (auto simp: failing_def split: option.splits prod.splits)
    from Cons.IH [OF m(1)] obtain pre c' m' rest err where "p = pre @ (c', Some m') # rest"
      "made' = map fst pre @ [c']" "res c' = Some err" "e = ErrText (m' @ '': '' @ error_text err)" by blast
    with m(2) x show ?thesis by (intro exI [of _ "x # pre"]) auto
  qed
qed simp

lemma run_options_concat: "run_options res ps = run_option res (concat ps)"
proof (induction ps)
  case (Cons p ps)
  have "run_option res (p @ q) =
      (case run_option res p of
         (Some e, made) \<Rightarrow> (Some e, made)
       | (None, made) \<Rightarrow> (case run_option res q of (r, made') \<Rightarrow> (r, made @ made')))" for q
    by (induction p rule: run_option.induct) (auto split: option.splits prod.splits)
  then show ?case by (simp add: Cons split: prod.splits option.splits)
qed simp

lemma run_option_prefix: "run_option res p = (r, made) \<Longrightarrow> prefix made (map fst p)"
  by (induction p arbitrary: r made rule: run_option.induct) (auto split: option.splits prod.splits)

lemma run_option_success: "fst (run_option res p) = None \<longleftrightarrow> (\<forall>c \<in> set p. \<not> failing res c)"
proof (induction p)
  case (Cons c p)
  then show ?case
    by (cases c; cases "snd c"; cases "res (fst c)") (simp_all add: failing_def case_prod_unfold)
qed simp

lemma run_option_all: "fst (run_option res p) = None \<Longrightarrow> snd (run_option res p) = map fst p"
proof (induction p)
  case (Cons c p)
  then show ?case
    by (cases c; cases "snd c"; cases "res (fst c)") (simp_all add: case_prod_unfold)
qed simp

text \<open>The calls before a given one.\<close>

definition calls_before :: "stack_call \<Rightarrow> stack_call list \<Rightarrow> stack_call list" where
  "calls_before c cs = takeWhile (\<lambda>x. x \<noteq> c) cs"

text \<open>The calls of \<open>CreateStack\<close> around the creation of the NIC.\<close>

abbreviation calls_pre :: "tcp_consts \<Rightarrow> option_prog list \<Rightarrow> stack_call list" where
  "calls_pre k options \<equiv> map fst (WithDefault k) @ map fst (concat options) @ [tcp_handler, SetUDPHandler]"

abbreviation calls_post :: "nat \<Rightarrow> addr list \<Rightarrow> stack_call list" where
  "calls_post nic groups \<equiv>
     [SetPromiscuousMode nic True, SetSpoofing nic True, SetRouteTable [(ProtoIPv4, nic), (ProtoIPv6, nic)]] @
     map fst (withMulticastGroups nic groups)"

lemma stack_calls:
  "map fst (concat (stack_options k options nic groups)) = calls_pre k options @ CreateNIC nic # calls_post nic groups"
  by (simp add: stack_options_def withTCPHandler_def withUDPHandler_def withCreatingNIC_def withPromiscuousMode_def
      withSpoofing_def withRouteTable_def map_concat)

lemma no_NIC_pre: "CreateNIC n \<notin> fst ` set (concat options) \<Longrightarrow> CreateNIC n \<notin> set (calls_pre k options)"
  by (auto simp: WithDefault_def WithDefaultTTL_def WithForwarding_def WithICMPBurst_def
      WithICMPLimit_def WithTCPSendBufferSizeRange_def WithTCPReceiveBufferSizeRange_def WithTCPCongestionControl_def
      WithTCPDelay_def WithTCPModerateReceiveBuffer_def WithTCPSACKEnabled_def WithTCPRecovery_def)

lemma no_NIC_post: "CreateNIC n \<notin> set (calls_post nic groups)"
  by (auto simp: withMulticastGroups_def group_join_def split: if_splits)

lemma handlers_before_NIC:
  assumes "prefix made (map fst (concat (stack_options k options nic groups)))" "CreateNIC nic \<in> set made"
    and "CreateNIC nic \<notin> fst ` set (concat options)"
  shows "calls_before (CreateNIC nic) made = calls_pre k options"
proof -
  have "takeWhile (\<lambda>x. x \<noteq> CreateNIC nic) (map fst (concat (stack_options k options nic groups))) = calls_pre k options"
    unfolding stack_calls using no_NIC_pre [OF assms(3), of k] by (subst takeWhile_append2) auto
  moreover obtain rest where "map fst (concat (stack_options k options nic groups)) = made @ rest"
    using assms(1) by (auto elim: prefixE)
  ultimately show ?thesis
    using assms(2) by (simp add: calls_before_def takeWhile_append1)
qed

lemma CreateStack_run:
  "CreateStack res k options nic groups = run_option res (concat (stack_options k options nic groups))"
  by (simp add: CreateStack_def run_options_concat)

section \<open>Properties\<close>

text \<open>
  C16. Setting up the stack: the calls made are a beginning of the prescribed sequence; it ends early
  exactly at the first call that fails, whose error is returned, and otherwise is complete. The NIC is
  created once, and only after both transport handlers are installed, so no packet reaches the
  stack before them; it is made promiscuous and spoofing, and carries both default routes. This holds
  for every list of additional options that do not touch NICs or handlers.
\<close>

theorem create_stack_order:
  assumes "CreateStack res k options nic groups = (r, made)"
    and "\<forall>c \<in> fst ` set (concat options). \<forall>n. c \<notin> {CreateNIC n, tcp_handler, SetUDPHandler}"
  shows "prefix made (map fst (concat (stack_options k options nic groups))) \<and>
    (r = None \<longleftrightarrow> made = map fst (concat (stack_options k options nic groups)) \<and>
       (\<forall>c \<in> set (concat (stack_options k options nic groups)). \<not> failing res c)) \<and>
    (\<forall>e. r = Some e \<longrightarrow> (\<exists>m err. (last made, Some m) \<in> set (concat (stack_options k options nic groups)) \<and>
       res (last made) = Some err \<and> e = ErrText (m @ '': '' @ error_text err))) \<and>
    (CreateNIC nic \<in> set made \<longrightarrow> {tcp_handler, SetUDPHandler} \<subseteq> set (calls_before (CreateNIC nic) made)) \<and>
    (\<forall>n. CreateNIC n \<in> set made \<longrightarrow> n = nic) \<and>
    (r = None \<longrightarrow> {SetPromiscuousMode nic True, SetSpoofing nic True, SetRouteTable [(ProtoIPv4, nic), (ProtoIPv6, nic)]}
       \<subseteq> set made)"
proof -
  let ?all = "map fst (concat (stack_options k options nic groups))"
  have run: "run_option res (concat (stack_options k options nic groups)) = (r, made)"
    using assms(1) by (simp add: CreateStack_run)
  have opts: "CreateNIC n \<notin> fst ` set (concat options)" for n using assms(2) by blast
  have p: "prefix made ?all" using run_option_prefix [OF run] .
  have nics: "CreateNIC n \<in> set made \<Longrightarrow> n = nic" for n
    using set_mono_prefix [OF p] no_NIC_pre [OF opts, of n k] no_NIC_post [of n nic groups] unfolding stack_calls by auto
  have before: "{tcp_handler, SetUDPHandler} \<subseteq> set (calls_before (CreateNIC nic) made)" if "CreateNIC nic \<in> set made"
    using handlers_before_NIC [OF p that opts] by simp
  have ok: "r = None \<Longrightarrow> made = ?all"
    using run_option_all [of res "concat (stack_options k options nic groups)"] run by simp
  then have "r = None \<longleftrightarrow> made = ?all \<and> (\<forall>c \<in> set (concat (stack_options k options nic groups)). \<not> failing res c)"
    using run_option_success [of res "concat (stack_options k options nic groups)"] run by auto
  moreover have "r = None \<Longrightarrow> {SetPromiscuousMode nic True, SetSpoofing nic True,
      SetRouteTable [(ProtoIPv4, nic), (ProtoIPv6, nic)]} \<subseteq> set made"
    using ok unfolding stack_calls by simp
  moreover have "\<exists>m err. (last made, Some m) \<in> set (concat (stack_options k options nic groups)) \<and>
       res (last made) = Some err \<and> e = ErrText (m @ '': '' @ error_text err)" if "r = Some e" for e
    using run_option_error [of res "concat (stack_options k options nic groups)" e made] run that by fastforce
  ultimately show ?thesis using p nics before by blast
qed

definition demo_consts :: tcp_consts where
  "demo_consts = \<lparr>tc_MinBufferSize = 4096, tc_DefaultSendBufferSize = 1048576, tc_DefaultReceiveBufferSize = 1048576,
     tc_MaxBufferSize = 4194304, tc_RACKLossDetection = 1\<rparr>"

theorem create_stack_order_witness:
  "\<exists>made. CreateStack (\<lambda>_. None) demo_consts [] 1 [] = (None, made) \<and> SetPromiscuousMode 1 True \<in> set made"
proof -
  obtain r made where m: "CreateStack (\<lambda>_. None) demo_consts [] 1 [] = (r, made)"
    by (cases "CreateStack (\<lambda>_. None) demo_consts [] 1 []")
  moreover have "r = None"
    using m run_option_success [of "\<lambda>_. None" "concat (stack_options demo_consts [] 1 [])"]
    by (simp add: CreateStack_def run_options_concat failing_def)
  ultimately show ?thesis using create_stack_order [OF m] by simp
qed

text \<open>
  A TCP request is completed exactly once, with a reset exactly when no endpoint could be made; the
  handler gets the connection otherwise, before the completion and also when a socket option fails.
\<close>

lemma forward_tcp_once:
  "\<exists>b. filter (\<lambda>a. case a of Complete _ \<Rightarrow> True | _ \<Rightarrow> False) (forward_tcp ce res sd rd i) = [Complete b] \<and>
     (b \<longleftrightarrow> ce \<noteq> None) \<and> (Handle i \<in> set (forward_tcp ce res sd rd i) \<longleftrightarrow> ce = None)"
  by (auto simp: forward_tcp_def split: option.splits prod.splits)

end
