(* ===== verification/Device.thy ===== *)
theory Device
  imports CoreStack
begin

text \<open>
  The link layer of the network stack: \<open>src/client/tun/core/device/iobased/endpoint.go\<close>, which moves
  packets between an \<open>io.ReadWriter\<close> and the stack, and the devices that use it
  (\<open>device/tun/tun_wireguard.go\<close>, \<open>device/tun/tun_netstack.go\<close>, \<open>device/fdbased\<close>). The operating system
  and gVisor's own endpoints answer through arguments.
\<close>

section \<open>The endpoint\<close>

record endpoint =
  ep_mtu :: u32
  ep_offset :: nat

text \<open>\<open>New\<close>: a missing reader-writer is \<open>False\<close>.\<close>

definition Endpoint_New :: "bool \<Rightarrow> u32 \<Rightarrow> int \<Rightarrow> go_error + endpoint" where
  "Endpoint_New rw mtu offset =
     (if mtu = 0 then Inl (ErrText ''MTU size is zero'')
      else if \<not> rw then Inl (ErrText ''RW interface is nil'')
      else if offset < 0 then Inl (ErrText ''offset must be non-negative'')
      else Inr \<lparr>ep_mtu = mtu, ep_offset = nat offset\<rparr>)"

text \<open>
  One round of \<open>dispatchLoop\<close>: \<open>Read\<close> fills the buffer of offset plus MTU bytes and says how many; a
  packet goes to the protocol that its first four bits name, everything else is dropped. The slice taken
  stays inside the buffer because of the test on \<open>n\<close>.
\<close>

definition ip_version :: "bytes \<Rightarrow> nat" where
  "ip_version b = (case b of [] \<Rightarrow> 0 | x # _ \<Rightarrow> unat (drop_bit 4 x))"

definition dispatch_round :: "endpoint \<Rightarrow> bool \<Rightarrow> bytes \<Rightarrow> nat \<Rightarrow> (ip_proto \<times> bytes) option" where
  "dispatch_round e attached data n =
     (if n = 0 \<or> unat (ep_mtu e) < n then None
      else if \<not> attached then None
      else
        let pkt = take n (drop (ep_offset e) data) in
        (case ip_version (drop (ep_offset e) data) of
           v \<Rightarrow> if v = 4 then Some (ProtoIPv4, pkt) else if v = 6 then Some (ProtoIPv6, pkt) else None))"

text \<open>The loop over the results of \<open>Read\<close>: what is injected, and whether it has ended (and cancelled the other loop).\<close>

fun dispatchLoop :: "endpoint \<Rightarrow> bool \<Rightarrow> (go_error + bytes \<times> nat) list \<Rightarrow> (ip_proto \<times> bytes) list \<times> bool" where
  "dispatchLoop e attached [] = ([], False)"
| "dispatchLoop e attached (Inl err # rs) = ([], True)"
| "dispatchLoop e attached (Inr (data, n) # rs) =
     (case dispatchLoop e attached rs of
        (ps, ended) \<Rightarrow> ((case dispatch_round e attached data n of Some p \<Rightarrow> [p] | None \<Rightarrow> []) @ ps, ended))"

definition packet_bytes :: "endpoint \<Rightarrow> bytes \<Rightarrow> bytes" where
  "packet_bytes e pkt = (if ep_offset e \<noteq> 0 then replicate (ep_offset e) 0 @ pkt else pkt)"

definition writePacket :: "endpoint \<Rightarrow> (bytes \<Rightarrow> go_error option) \<Rightarrow> bytes \<Rightarrow> go_error option \<times> bytes" where
  "writePacket e wr pkt =
     ((case wr (packet_bytes e pkt) of Some err \<Rightarrow> Some (ErrText ''endpoint is in invalid state'') | None \<Rightarrow> None),
      packet_bytes e pkt)"

text \<open>\<open>outboundLoop\<close> over the packets the stack queues; \<open>None\<close> is the end of the context. Write errors are dropped.\<close>

fun outboundLoop :: "endpoint \<Rightarrow> (bytes \<Rightarrow> go_error option) \<Rightarrow> bytes option list \<Rightarrow> bytes list \<times> bool" where
  "outboundLoop e wr [] = ([], False)"
| "outboundLoop e wr (None # ps) = ([], True)"
| "outboundLoop e wr (Some p # ps) =
     (case outboundLoop e wr ps of (ws, ended) \<Rightarrow> (snd (writePacket e wr p) # ws, ended))"

section \<open>Attaching\<close>

text \<open>
  The goroutines: \<open>Attach\<close> starts both loops the first time it is called, the end of the dispatch loop
  cancels the context, which lets the other one end; \<open>wg\<close> counts the running ones for \<open>Wait\<close>.
\<close>

datatype loop_state = NotStarted | Looping | Finished

record endpoint_sys =
  en_attached :: bool
  en_once :: bool
  en_dispatch :: loop_state
  en_outbound :: loop_state
  en_cancelled :: bool
  en_wg :: int

definition endpoint_start :: endpoint_sys where
  "endpoint_start = \<lparr>en_attached = False, en_once = False, en_dispatch = NotStarted, en_outbound = NotStarted,
     en_cancelled = False, en_wg = 0\<rparr>"

definition Attach :: "bool \<Rightarrow> endpoint_sys \<Rightarrow> endpoint_sys" where
  "Attach dispatcher s =
     (let s1 = s\<lparr>en_attached := dispatcher\<rparr> in
      if en_once s1 then s1
      else s1\<lparr>en_once := True, en_wg := en_wg s1 + 2, en_dispatch := Looping, en_outbound := Looping\<rparr>)"

definition Wait_returns :: "endpoint_sys \<Rightarrow> bool" where
  "Wait_returns s \<longleftrightarrow> en_wg s = 0"

inductive endpoint_step :: "endpoint_sys \<Rightarrow> endpoint_sys \<Rightarrow> bool" where
  attach: "endpoint_step s (Attach d s)"
| read_error: "en_dispatch s = Looping \<Longrightarrow>
    endpoint_step s (s\<lparr>en_dispatch := Finished, en_cancelled := True, en_wg := en_wg s - 1\<rparr>)"
| context_done: "en_outbound s = Looping \<Longrightarrow> en_cancelled s \<Longrightarrow>
    endpoint_step s (s\<lparr>en_outbound := Finished, en_wg := en_wg s - 1\<rparr>)"

inductive_cases endpoint_stepE: "endpoint_step s t"

definition running :: "loop_state \<Rightarrow> int" where
  "running l = (if l = Looping then 1 else 0)"

definition endpoint_inv :: "endpoint_sys \<Rightarrow> bool" where
  "endpoint_inv s \<longleftrightarrow> en_wg s = running (en_dispatch s) + running (en_outbound s) \<and>
     (en_once s \<longleftrightarrow> en_dispatch s \<noteq> NotStarted) \<and> (en_once s \<longleftrightarrow> en_outbound s \<noteq> NotStarted) \<and>
     (en_cancelled s \<longleftrightarrow> en_dispatch s = Finished) \<and> (en_outbound s = Finished \<longrightarrow> en_cancelled s)"

interpretation endpoint_loops: invariant_system "\<lambda>s. s = endpoint_start" endpoint_step endpoint_inv
proof unfold_locales
  show "endpoint_inv s" if "s = endpoint_start" for s
    using that by (simp add: endpoint_inv_def endpoint_start_def running_def)
  show "endpoint_inv t" if "endpoint_inv s" "endpoint_step s t" for s t
    using that(2,1) by (cases rule: endpoint_step.cases) (auto simp: endpoint_inv_def Attach_def running_def Let_def)
qed

section \<open>Devices\<close>

text \<open>A closed device: its descriptor (or native device) first, the endpoint by the deferred call last.\<close>

datatype close_action = CloseFd int | CloseNative | CloseEndpoint

text \<open>
  A TUN device through wireguard-go (not on Linux): \<open>create\<close>, \<open>get_mtu\<close> are its calls, a panic inside
  becomes an error. The endpoint sits on the device itself with the platform's offset (four bytes of
  packet information on unix, none on Windows).
\<close>

record tun_device =
  td_name :: string
  td_mtu :: u32
  td_endpoint :: endpoint

definition tun_offset :: "string \<Rightarrow> nat" where
  "tun_offset goos = (if goos = ''windows'' then 0 else 4)"

definition tun_defaultMTU :: "string \<Rightarrow> int" where
  "tun_defaultMTU goos = (if goos = ''windows'' then 0 else 1500)"

definition Open_wireguard :: "string \<Rightarrow> (string \<Rightarrow> int \<Rightarrow> go_error + unit) \<Rightarrow> go_error + int \<Rightarrow> string \<Rightarrow> u32
    \<Rightarrow> go_error + tun_device" where
  "Open_wireguard goos create get_mtu name mtu =
     (let forcedMTU = (if mtu > 0 then int (unat mtu) else tun_defaultMTU goos) in
      case create name forcedMTU of
        Inl e \<Rightarrow> Inl (ErrWrap ''create tun'' e)
      | Inr _ \<Rightarrow>
          (case get_mtu of
             Inl e \<Rightarrow> Inl (ErrWrap ''get mtu'' e)
           | Inr m \<Rightarrow>
               (case Endpoint_New True (of_int m) (int (tun_offset goos)) of
                  Inl e \<Rightarrow> Inl (ErrWrap ''create endpoint'' e)
                | Inr ep \<Rightarrow> Inr \<lparr>td_name = name, td_mtu = of_int m, td_endpoint = ep\<rparr>)))"

text \<open>
  wireguard-go's \<open>Read\<close> puts a packet behind the offset and returns its size; \<open>Write\<close> sends what is behind
  the offset.
\<close>

definition TUN_Read :: "nat \<Rightarrow> nat \<Rightarrow> bytes \<Rightarrow> bytes \<times> nat" where
  "TUN_Read offset buflen pkt =
     (take buflen (replicate offset 0 @ pkt @ replicate (buflen - offset - length pkt) 0), length pkt)"

definition TUN_Write :: "nat \<Rightarrow> bytes \<Rightarrow> bytes" where
  "TUN_Write offset packet = drop offset packet"

text \<open>\<open>Name\<close> asks the native device; its error is dropped.\<close>

definition TUN_Name_wireguard :: "(string \<Rightarrow> string \<times> go_error option) \<Rightarrow> tun_device \<Rightarrow> string" where
  "TUN_Name_wireguard native t = fst (native (td_name t))"

definition TUN_Close_wireguard :: "tun_device \<Rightarrow> close_action list" where
  "TUN_Close_wireguard t = [CloseNative, CloseEndpoint]"

definition TUN_Type :: string where "TUN_Type = ''tun''"

text \<open>
  On Linux the device and its MTU are gVisor's and the kernel's: the calls are arguments. \<open>setMTU\<close> says
  beside its error whether the datagram socket it opened is closed again.
\<close>

record linux_sys =
  ls_open :: "string \<Rightarrow> go_error + int"
  ls_socket :: "go_error + int"
  ls_ifreq :: "string \<Rightarrow> go_error option"
  ls_ioctl :: "int \<Rightarrow> string \<Rightarrow> u32 \<Rightarrow> go_error option"
  ls_mtu :: "string \<Rightarrow> go_error + u32"
  ls_endpoint :: "int \<Rightarrow> u32 \<Rightarrow> go_error option"

definition setMTU :: "linux_sys \<Rightarrow> string \<Rightarrow> u32 \<Rightarrow> go_error option \<times> int list" where
  "setMTU sys name n =
     (case ls_socket sys of
        Inl e \<Rightarrow> (Some e, [])
      | Inr fd \<Rightarrow>
          (case ls_ifreq sys name of
             Some e \<Rightarrow> (Some e, [fd])
           | None \<Rightarrow> (ls_ioctl sys fd name n, [fd])))"

record linux_tun =
  lt_name :: string
  lt_fd :: int
  lt_mtu :: u32

definition Open_netstack :: "linux_sys \<Rightarrow> string \<Rightarrow> u32 \<Rightarrow> go_error + linux_tun" where
  "Open_netstack sys name mtu =
     (if 16 \<le> length name then Inl (ErrText (''interface name too long: '' @ name))
      else
        (case ls_open sys name of
           Inl e \<Rightarrow> Inl (ErrWrap ''create tun'' e)
         | Inr fd \<Rightarrow>
             (case (if mtu > 0 then fst (setMTU sys name mtu) else None) of
                Some e \<Rightarrow> Inl (ErrWrap ''set mtu'' e)
              | None \<Rightarrow>
                  (case ls_mtu sys name of
                     Inl e \<Rightarrow> Inl (ErrWrap ''get mtu'' e)
                   | Inr m \<Rightarrow>
                       (case ls_endpoint sys fd m of
                          Some e \<Rightarrow> Inl (ErrWrap ''create endpoint'' e)
                        | None \<Rightarrow> Inr \<lparr>lt_name = name, lt_fd = fd, lt_mtu = m\<rparr>)))))"

definition TUN_Name_netstack :: "linux_tun \<Rightarrow> string" where
  "TUN_Name_netstack t = lt_name t"

definition TUN_Close_netstack :: "linux_tun \<Rightarrow> close_action list" where
  "TUN_Close_netstack t = [CloseFd (lt_fd t), CloseEndpoint]"

text \<open>
  The device over a file descriptor, by its number: gVisor's endpoint on
  Linux, the endpoint above elsewhere.
\<close>

record fd_dev =
  fd_fd :: int
  fd_mtu :: u32

definition FD_Type :: string where "FD_Type = ''fd''"

definition FD_Name :: "fd_dev \<Rightarrow> string" where
  "FD_Name f = itoa_int (fd_fd f)"

definition FD_Close :: "fd_dev \<Rightarrow> close_action list" where
  "FD_Close f = [CloseFd (fd_fd f), CloseEndpoint]"

definition fd_defaultMTU :: u32 where "fd_defaultMTU = 1500"

definition open_linux :: "linux_sys \<Rightarrow> int \<Rightarrow> u32 \<Rightarrow> go_error + fd_dev" where
  "open_linux sys fd mtu =
     (case ls_endpoint sys fd mtu of
        Some e \<Rightarrow> Inl (ErrWrap ''create endpoint'' e)
      | None \<Rightarrow> Inr \<lparr>fd_fd = fd, fd_mtu = mtu\<rparr>)"

definition open_unix :: "int \<Rightarrow> u32 \<Rightarrow> int \<Rightarrow> go_error + fd_dev" where
  "open_unix fd mtu offset =
     (case Endpoint_New True mtu offset of
        Inl e \<Rightarrow> Inl (ErrWrap ''create endpoint'' e)
      | Inr ep \<Rightarrow> Inr \<lparr>fd_fd = fd, fd_mtu = mtu\<rparr>)"

text \<open>\<open>errors.ErrUnsupported\<close>\<close>

definition Open_fd_windows :: "string \<Rightarrow> u32 \<Rightarrow> int \<Rightarrow> go_error + fd_dev" where
  "Open_fd_windows name mtu offset = Inl (ErrText ''unsupported operation'')"

definition Open_fd_unix :: "string \<Rightarrow> linux_sys \<Rightarrow> string \<Rightarrow> u32 \<Rightarrow> int \<Rightarrow> go_error + fd_dev" where
  "Open_fd_unix goos sys name mtu offset =
     (case Atoi name of
        None \<Rightarrow> Inl (ErrText (''cannot open fd: '' @ name))
      | Some fd \<Rightarrow>
          let m = (if mtu = 0 then fd_defaultMTU else mtu) in
          if goos = ''linux'' then open_linux sys fd m else open_unix fd m offset)"

definition Open_fd :: "string \<Rightarrow> linux_sys \<Rightarrow> string \<Rightarrow> u32 \<Rightarrow> int \<Rightarrow> go_error + fd_dev" where
  "Open_fd goos sys name mtu offset =
     (if goos = ''windows'' then Open_fd_windows name mtu offset
      else Open_fd_unix goos sys name mtu offset)"

section \<open>Lemmas\<close>

definition packet_proto :: "bytes \<Rightarrow> ip_proto option" where
  "packet_proto p = (if ip_version p = 4 then Some ProtoIPv4 else if ip_version p = 6 then Some ProtoIPv6 else None)"

lemma packet_proto_nonempty: "packet_proto p = Some v \<Longrightarrow> p \<noteq> []"
  by (auto simp: packet_proto_def ip_version_def)

lemma ip_version_append: "p \<noteq> [] \<Longrightarrow> ip_version (p @ r) = ip_version p"
  by (cases p) (simp_all add: ip_version_def)

lemma dispatch_packet:
  assumes "length p \<le> unat (ep_mtu e)"
  shows "(case TUN_Read (ep_offset e) (ep_offset e + unat (ep_mtu e)) p of (d, n) \<Rightarrow> dispatch_round e True d n) =
    map_option (\<lambda>v. (v, p)) (packet_proto p)"
proof (cases "p = []")
  case False
  have "drop (ep_offset e) (take (ep_offset e + unat (ep_mtu e))
      (replicate (ep_offset e) 0 @ p @ replicate (unat (ep_mtu e) - length p) 0)) =
      p @ replicate (unat (ep_mtu e) - length p) 0"
    using assms by simp
  with assms False show ?thesis
    by (simp add: TUN_Read_def dispatch_round_def ip_version_append packet_proto_def Let_def)
qed (simp add: TUN_Read_def dispatch_round_def packet_proto_def ip_version_def)

lemma outbound_packet: "TUN_Write (ep_offset e) (packet_bytes e p) = p"
  by (simp add: TUN_Write_def packet_bytes_def)

section \<open>Properties\<close>

text \<open>
  C17. Packets through a TUN device: of the packets the device delivers, each of at most the MTU, exactly
  those of IP version 4 and 6 reach the stack, unchanged, in order and under their protocol; the
  loop ends at the first read error and not before. What the stack sends comes out at the device
  unchanged and in order, whatever its writes answer. The loops are started once however often the
  endpoint is attached, and \<open>Wait\<close> returns exactly when no loop is running.
\<close>

theorem endpoint_transparent:
  assumes "\<forall>p \<in> set ps. length p \<le> unat (ep_mtu e)" and "endpoint_step\<^sup>*\<^sup>* endpoint_start s"
  shows "dispatchLoop e True (map (\<lambda>p. Inr (TUN_Read (ep_offset e) (ep_offset e + unat (ep_mtu e)) p)) ps @ Inl err # rs) =
      (List.map_filter (\<lambda>p. map_option (\<lambda>v. (v, p)) (packet_proto p)) ps, True) \<and>
    map (TUN_Write (ep_offset e)) (fst (outboundLoop e wr (map Some qs @ None # zs))) = qs \<and>
    snd (outboundLoop e wr (map Some qs @ None # zs)) \<and>
    (Wait_returns s \<longleftrightarrow> en_dispatch s \<noteq> Looping \<and> en_outbound s \<noteq> Looping) \<and>
    (en_dispatch s = Finished \<and> en_outbound s = Looping \<longrightarrow>
      (\<exists>t. endpoint_step s t \<and> Wait_returns t \<and> en_outbound t = Finished))"
proof (intro conjI impI)
  show "dispatchLoop e True (map (\<lambda>p. Inr (TUN_Read (ep_offset e) (ep_offset e + unat (ep_mtu e)) p)) ps @ Inl err # rs) =
      (List.map_filter (\<lambda>p. map_option (\<lambda>v. (v, p)) (packet_proto p)) ps, True)"
    using assms(1)
  proof (induction ps)
    case (Cons p ps)
    obtain d n where dn: "TUN_Read (ep_offset e) (ep_offset e + unat (ep_mtu e)) p = (d, n)"
      by (cases "TUN_Read (ep_offset e) (ep_offset e + unat (ep_mtu e)) p")
    with dispatch_packet [of p e] Cons.prems
    have "dispatch_round e True d n = map_option (\<lambda>v. (v, p)) (packet_proto p)" by simp
    with Cons dn show ?case by (cases "packet_proto p") (auto simp: map_filter_simps)
  qed (simp add: map_filter_simps)
  show "map (TUN_Write (ep_offset e)) (fst (outboundLoop e wr (map Some qs @ None # zs))) = qs"
    by (induction qs) (simp_all add: case_prod_unfold writePacket_def outbound_packet)
  show "snd (outboundLoop e wr (map Some qs @ None # zs))"
    by (induction qs) (simp_all add: case_prod_unfold)
  have inv: "endpoint_inv s" using endpoint_loops.reachable_inv [OF refl assms(2)] .
  then show "Wait_returns s \<longleftrightarrow> en_dispatch s \<noteq> Looping \<and> en_outbound s \<noteq> Looping"
    by (auto simp: Wait_returns_def endpoint_inv_def running_def)
  show "\<exists>t. endpoint_step s t \<and> Wait_returns t \<and> en_outbound t = Finished"
    if "en_dispatch s = Finished \<and> en_outbound s = Looping"
    using that inv endpoint_step.context_done [of s]
    by (intro exI [of _ "s\<lparr>en_outbound := Finished, en_wg := en_wg s - 1\<rparr>"])
      (auto simp: Wait_returns_def endpoint_inv_def running_def)
qed

definition demo_endpoint :: endpoint where "demo_endpoint = \<lparr>ep_mtu = 1500, ep_offset = 4\<rparr>"

theorem endpoint_transparent_witness:
  "dispatchLoop demo_endpoint True [Inr (TUN_Read 4 1504 [0x45, 1]), Inr (TUN_Read 4 1504 [0x60, 2]), Inl ErrEOF] =
    ([(ProtoIPv4, [0x45, 1]), (ProtoIPv6, [0x60, 2])], True)"
proof -
  have v: "packet_proto [0x45, 1] = Some ProtoIPv4" "packet_proto [0x60, 2] = Some ProtoIPv6"
    by (simp_all add: packet_proto_def ip_version_def)
  have l: "\<forall>p \<in> set [[0x45, 1], [0x60, 2]]. length p \<le> unat (ep_mtu demo_endpoint)"
    by (simp add: demo_endpoint_def)
  from endpoint_transparent [OF l rtranclp.rtrancl_refl, of ErrEOF "[]" "\<lambda>_. None" "[]" "[]"] v
  show ?thesis by (simp add: demo_endpoint_def map_filter_simps)
qed

end
