(* ===== verification/Routes.thy ===== *)
theory Routes
  imports ClientConfig
begin

text \<open>
  \<open>src/client/tun/route\<close>: the addresses and routes of the TUN device, set by commands of the operating
  system, one implementation per platform. The commands are lists of strings; what the gateway
  query prints is an argument. What a command asks for is read back from it (\<open>meaning\<close>), and the
  interface \<open>route_setup\<close> says what a platform has to ask for.
\<close>

section \<open>Text\<close>

text \<open>\<open>strings.Fields\<close> on ASCII text.\<close>

definition is_space :: "char \<Rightarrow> bool" where
  "is_space c \<longleftrightarrow> c \<in> {CHR 0x09, CHR 0x0A, CHR 0x0B, CHR 0x0C, CHR 0x0D, CHR '' ''}"

function text_fields :: "string \<Rightarrow> string list" where
  "text_fields [] = []"
| "text_fields (c # cs) =
     (if is_space c then text_fields cs
      else (c # takeWhile (\<lambda>x. \<not> is_space x) cs) # text_fields (dropWhile (\<lambda>x. \<not> is_space x) cs))"
  by pat_completeness auto
termination
  by (relation "measure length") (auto simp: le_imp_less_Suc length_dropWhile_le)

definition lines_of :: "string \<Rightarrow> string list" where
  "lines_of s = split_char CHR 0x0A s"

text \<open>\<open>strconv.ParseInt(s, 10, 64)\<close>\<close>

definition parse_int64 :: "string \<Rightarrow> int option" where
  "parse_int64 s =
     (let neg = (s \<noteq> [] \<and> hd s = CHR ''-''); d = (if s \<noteq> [] \<and> hd s \<in> {CHR ''-'', CHR ''+''} then tl s else s) in
      if d = [] \<or> \<not> list_all is_digit d then None
      else
        let v = (if neg then - int (dec_value d) else int (dec_value d))
        in if - (2 ^ 63) \<le> v \<and> v < 2 ^ 63 then Some v else None)"

definition is_v6 :: "string \<Rightarrow> bool" where
  "is_v6 route \<longleftrightarrow> contains_str route '':''"

definition with_len :: "string \<Rightarrow> string" where
  "with_len route =
     (if contains_str route ''/'' then route else route @ (if is_v6 route then ''/128'' else ''/32''))"

section \<open>The default gateway\<close>

fun linux_gateway :: "string list \<Rightarrow> string \<times> string" where
  "linux_gateway [] = ([], [])"
| "linux_gateway (line # ls) =
     (if has_prefix line ''default via '' \<and> 5 \<le> length (text_fields line)
      then (text_fields line ! 2, text_fields line ! 4)
      else linux_gateway ls)"

definition linux_query :: "bool \<Rightarrow> string list" where
  "linux_query is6 = (if is6 then [''ip'', ''-6'', ''route'', ''show'', ''default''] else [''ip'', ''route'', ''show'', ''default''])"

type_synonym command_output = "string list \<Rightarrow> go_error + string"

definition getDefaultGateway_linux :: "command_output \<Rightarrow> bool \<Rightarrow> string \<times> string" where
  "getDefaultGateway_linux out_of is6 =
     (case out_of (linux_query is6) of
        Inl e \<Rightarrow> ([], [])
      | Inr out \<Rightarrow> linux_gateway (lines_of out))"

definition getIPv4DefaultGateway_linux :: "command_output \<Rightarrow> string \<times> string" where
  "getIPv4DefaultGateway_linux out_of = getDefaultGateway_linux out_of False"

definition getIPv6DefaultGateway_linux :: "command_output \<Rightarrow> string \<times> string" where
  "getIPv6DefaultGateway_linux out_of = getDefaultGateway_linux out_of True"

fun bsd_gateway :: "string list \<Rightarrow> string option" where
  "bsd_gateway [] = None"
| "bsd_gateway (line # ls) =
     (if has_prefix line ''default'' \<and> 2 \<le> length (text_fields line) then Some (text_fields line ! 1)
      else bsd_gateway ls)"

definition bsd_query :: "bool \<Rightarrow> string list" where
  "bsd_query is6 = [''netstat'', ''-rn'', ''-f'', (if is6 then ''inet6'' else ''inet'')]"

definition getDefaultGateway_darwin :: "command_output \<Rightarrow> bool \<Rightarrow> string" where
  "getDefaultGateway_darwin out_of is6 =
     (case out_of (bsd_query is6) of
        Inl e \<Rightarrow> []
      | Inr out \<Rightarrow> (case bsd_gateway (lines_of out) of Some g \<Rightarrow> g | None \<Rightarrow> []))"

definition getIPv4DefaultGateway_darwin :: "command_output \<Rightarrow> string" where
  "getIPv4DefaultGateway_darwin out_of = getDefaultGateway_darwin out_of False"

definition getIPv6DefaultGateway_darwin :: "command_output \<Rightarrow> string" where
  "getIPv6DefaultGateway_darwin out_of = getDefaultGateway_darwin out_of True"

definition getDefaultGateway_freebsd :: "command_output \<Rightarrow> bool \<Rightarrow> go_error + string" where
  "getDefaultGateway_freebsd out_of is6 =
     (case out_of (bsd_query is6) of
        Inl e \<Rightarrow> Inl e
      | Inr out \<Rightarrow> (case bsd_gateway (lines_of out) of
          Some g \<Rightarrow> Inr g
        | None \<Rightarrow> Inl (ErrText ''no IPv6 default gateway found'')))"

definition getIPv4DefaultGateway_freebsd :: "command_output \<Rightarrow> go_error + string" where
  "getIPv4DefaultGateway_freebsd out_of = getDefaultGateway_freebsd out_of False"

definition getIPv6DefaultGateway_freebsd :: "command_output \<Rightarrow> go_error + string" where
  "getIPv6DefaultGateway_freebsd out_of = getDefaultGateway_freebsd out_of True"

text \<open>On Windows the route of the least metric, the first among equals: its interface index and gateway.\<close>

definition windows_step :: "string \<Rightarrow> int \<times> string \<times> string \<Rightarrow> string \<Rightarrow> int \<times> string \<times> string" where
  "windows_step substr st line =
     (let parts = text_fields line in
      if contains_str line substr \<and> 6 \<le> length parts then
        (case parse_int64 (parts ! 2) of
           None \<Rightarrow> st
         | Some m \<Rightarrow> if fst st \<le> m then st else (m, parts ! 4, parts ! 5))
      else st)"

definition windows_gateway :: "string \<Rightarrow> string list \<Rightarrow> string \<times> string" where
  "windows_gateway substr ls = snd (foldl (windows_step substr) (65536, [], []) ls)"

definition windows_substr :: "bool \<Rightarrow> string" where
  "windows_substr is6 = (if is6 then ''::/0'' else ''0.0.0.0/0'')"

definition windows_query :: "bool \<Rightarrow> string list" where
  "windows_query is6 = [''netsh'', ''interface'', (if is6 then ''ipv6'' else ''ipv4''), ''show'', ''route'']"

definition getDefaultGateway_windows :: "command_output \<Rightarrow> bool \<Rightarrow> string \<times> string" where
  "getDefaultGateway_windows out_of is6 =
     (case out_of (windows_query is6) of
        Inl e \<Rightarrow> ([], [])
      | Inr out \<Rightarrow> windows_gateway (windows_substr is6) (lines_of out))"

definition getIPv4DefaultGateway_windows :: "command_output \<Rightarrow> string \<times> string" where
  "getIPv4DefaultGateway_windows out_of = getDefaultGateway_windows out_of False"

definition getIPv6DefaultGateway_windows :: "command_output \<Rightarrow> string \<times> string" where
  "getIPv6DefaultGateway_windows out_of = getDefaultGateway_windows out_of True"

section \<open>Commands\<close>

definition configureAddress_linux :: "string \<Rightarrow> string \<Rightarrow> string \<Rightarrow> string list list" where
  "configureAddress_linux tunName ipv4 ipv6 =
     [[''ip'', ''tuntap'', ''add'', ''mode'', ''tun'', ''dev'', tunName],
      [''ip'', ''addr'', ''add'', ipv4, ''dev'', tunName],
      [''ip'', ''-6'', ''addr'', ''add'', ipv6, ''dev'', tunName],
      [''ip'', ''link'', ''set'', tunName, ''up'']]"

definition configureRoute_linux :: "command_output \<Rightarrow> string \<Rightarrow> string list \<Rightarrow> string list \<Rightarrow> string list list" where
  "configureRoute_linux out_of tunName routes exRoutes =
     map (\<lambda>r. if is_v6 r then [''ip'', ''-6'', ''route'', ''add'', r, ''dev'', tunName]
              else [''ip'', ''route'', ''add'', r, ''dev'', tunName]) routes @
     (if exRoutes = [] then []
      else
        let (gateway4, iface4) = getIPv4DefaultGateway_linux out_of;
            (gateway6, iface6) = getIPv6DefaultGateway_linux out_of in
        map (\<lambda>r. if is_v6 r then [''ip'', ''-6'', ''route'', ''add'', r, ''via'', gateway6, ''dev'', iface6]
                 else [''ip'', ''route'', ''add'', r, ''via'', gateway4, ''dev'', iface4]) exRoutes)"

definition configureAddress_darwin :: "string \<Rightarrow> string \<Rightarrow> string \<Rightarrow> string list list" where
  "configureAddress_darwin tunName ipv4 ipv6 =
     [[''sudo'', ''ifconfig'', tunName, ipv4, ipv4, ''up''],
      [''sudo'', ''ifconfig'', tunName, ''inet6'', ipv6, ''up'']]"

text \<open>
  On macOS an IPv4 route gets \<open>/32\<close> appended when it does have a prefix length, and both gateways come
  from the IPv4 query.
\<close>

definition configureRoute_darwin :: "command_output \<Rightarrow> string \<Rightarrow> string \<Rightarrow> string list \<Rightarrow> string list \<Rightarrow> string list list" where
  "configureRoute_darwin out_of ipv4 ipv6 routes exRoutes =
     map (\<lambda>r. if is_v6 r
              then [''sudo'', ''route'', ''-inet6'', ''add'', ''-net'',
                    (if contains_str r ''/'' then r else r @ ''/128''), ipv6]
              else [''sudo'', ''route'', ''add'', ''-net'',
                    (if contains_str r ''/'' then r @ ''/32'' else r), ipv4]) routes @
     (if exRoutes = [] then []
      else
        let gateway4 = getIPv4DefaultGateway_darwin out_of;
            gateway6 = getIPv4DefaultGateway_darwin out_of in
        map (\<lambda>r. if is_v6 r
                 then [''sudo'', ''route'', ''-inet6'', ''add'', ''-net'',
                       (if contains_str r ''/'' then r else r @ ''/128''), gateway6]
                 else [''sudo'', ''route'', ''add'', ''-net'',
                       (if contains_str r ''/'' then r else r @ ''/32''), gateway4]) exRoutes)"

definition configureAddress_windows :: "string \<Rightarrow> string \<Rightarrow> string \<Rightarrow> string list list" where
  "configureAddress_windows tunName ipv4 ipv6 =
     [[''netsh'', ''interface'', ''ipv4'', ''set'', ''address'', tunName, ''static'', ipv4],
      [''netsh'', ''interface'', ''ipv6'', ''add'', ''address'', tunName, ipv6],
      [''netsh'', ''interface'', ''ipv4'', ''set'', ''dnsservers'', ''name='' @ tunName, ''static'', ''address=8.8.8.8'',
       ''register=none'', ''validate=no'']]"

definition configureRoute_windows :: "command_output \<Rightarrow> string \<Rightarrow> string \<Rightarrow> string \<Rightarrow> string list \<Rightarrow> string list
    \<Rightarrow> string list list" where
  "configureRoute_windows out_of tunName ipv4 ipv6 routes exRoutes =
     map (\<lambda>r. if is_v6 r
              then [''netsh'', ''interface'', ''ipv6'', ''add'', ''route'',
                    (if contains_str r ''/'' then r else r @ ''/128''), tunName, ipv6, ''metric=1'']
              else [''netsh'', ''interface'', ''ipv4'', ''add'', ''route'',
                    (if contains_str r ''/'' then r else r @ ''/32''), tunName, ipv4, ''metric=1'']) routes @
     (if exRoutes = [] then []
      else
        let (idx4, gateway4) = getIPv4DefaultGateway_windows out_of;
            (idx6, gateway6) = getIPv6DefaultGateway_windows out_of in
        map (\<lambda>r. if is_v6 r
                 then [''netsh'', ''interface'', ''ipv6'', ''add'', ''route'',
                       (if contains_str r ''/'' then r else r @ ''/128''), idx6, gateway6, ''metric=1'']
                 else [''netsh'', ''interface'', ''ipv4'', ''add'', ''route'',
                       (if contains_str r ''/'' then r else r @ ''/32''), idx4, gateway4, ''metric=1'']) exRoutes)"

text \<open>On FreeBSD neither is implemented.\<close>

definition configureAddress_freebsd :: "string \<Rightarrow> string \<Rightarrow> string \<Rightarrow> string list list" where
  "configureAddress_freebsd tunName ipv4 ipv6 = []"

definition configureRoute_freebsd :: "string \<Rightarrow> string \<Rightarrow> string \<Rightarrow> string list \<Rightarrow> string list \<Rightarrow> string list list" where
  "configureRoute_freebsd tunName ipv4 ipv6 routes exRoutes = []"

text \<open>\<open>ConfigureTun\<close>: addresses first, then routes.\<close>

datatype platform = Linux | Darwin | Windows | FreeBSD

fun ConfigureTun :: "platform \<Rightarrow> command_output \<Rightarrow> string \<Rightarrow> string \<Rightarrow> string \<Rightarrow> string list \<Rightarrow> string list
    \<Rightarrow> string list list" where
  "ConfigureTun Linux out_of tunName ipv4 ipv6 routes exRoutes =
     configureAddress_linux tunName ipv4 ipv6 @ configureRoute_linux out_of tunName routes exRoutes"
| "ConfigureTun Darwin out_of tunName ipv4 ipv6 routes exRoutes =
     configureAddress_darwin tunName ipv4 ipv6 @ configureRoute_darwin out_of ipv4 ipv6 routes exRoutes"
| "ConfigureTun Windows out_of tunName ipv4 ipv6 routes exRoutes =
     configureAddress_windows tunName ipv4 ipv6 @ configureRoute_windows out_of tunName ipv4 ipv6 routes exRoutes"
| "ConfigureTun FreeBSD out_of tunName ipv4 ipv6 routes exRoutes =
     configureAddress_freebsd tunName ipv4 ipv6 @ configureRoute_freebsd tunName ipv4 ipv6 routes exRoutes"

section \<open>The contract\<close>

text \<open>
  A route as it ends up in the routing table: its family, destination with prefix length, device (or
  interface index) and next hop, empty for a route that only names the device.
\<close>

record route_entry =
  re_v6 :: bool
  re_dest :: string
  re_dev :: string
  re_via :: string

definition entry :: "(bool \<Rightarrow> string) \<Rightarrow> (bool \<Rightarrow> string) \<Rightarrow> string \<Rightarrow> route_entry" where
  "entry dev via r = \<lparr>re_v6 = is_v6 r, re_dest = with_len r, re_dev = dev (is_v6 r), re_via = via (is_v6 r)\<rparr>"

locale route_setup =
  fixes impl :: "string list \<Rightarrow> string list \<Rightarrow> string list list"
    and meaning :: "string list \<Rightarrow> route_entry option"
    and tun_dev tun_via gw_dev gw_via :: "bool \<Rightarrow> string"
  assumes impl_meaning: "map meaning (impl rs ex) =
    map (\<lambda>r. Some (entry tun_dev tun_via r)) rs @ map (\<lambda>r. Some (entry gw_dev gw_via r)) ex"
begin

lemma one_command_each: "length (impl rs ex) = length rs + length ex"
  using arg_cong [OF impl_meaning, of length] by simp

lemma nothing_else:
  assumes "c \<in> set (impl rs ex)"
  shows "(\<exists>r \<in> set rs. meaning c = Some (entry tun_dev tun_via r)) \<or>
    (\<exists>r \<in> set ex. meaning c = Some (entry gw_dev gw_via r))"
proof -
  have "meaning c \<in> set (map meaning (impl rs ex))" using assms by simp
  then show ?thesis unfolding impl_meaning by auto
qed

lemma routes_kept:
  "r \<in> set rs \<Longrightarrow> \<exists>c \<in> set (impl rs ex). meaning c = Some (entry tun_dev tun_via r)"
  "r \<in> set ex \<Longrightarrow> \<exists>c \<in> set (impl rs ex). meaning c = Some (entry gw_dev gw_via r)"
proof -
  have m: "set (map meaning (impl rs ex)) =
      (\<lambda>r. Some (entry tun_dev tun_via r)) ` set rs \<union> (\<lambda>r. Some (entry gw_dev gw_via r)) ` set ex"
    unfolding impl_meaning by simp
  show "\<exists>c \<in> set (impl rs ex). meaning c = Some (entry tun_dev tun_via r)" if "r \<in> set rs"
  proof -
    have "Some (entry tun_dev tun_via r) \<in> set (map meaning (impl rs ex))" using that unfolding m by blast
    then show ?thesis by auto
  qed
  show "\<exists>c \<in> set (impl rs ex). meaning c = Some (entry gw_dev gw_via r)" if "r \<in> set ex"
  proof -
    have "Some (entry gw_dev gw_via r) \<in> set (map meaning (impl rs ex))" using that unfolding m by blast
    then show ?thesis by auto
  qed
qed

end

text \<open>
  Reading the commands word by word: a command that adds no route, a \<open>del\<close> for example, has no meaning
  here. The tools take a route without a length as a host route.
\<close>

fun linux_entry :: "bool \<Rightarrow> string list \<Rightarrow> route_entry option" where
  "linux_entry v6 [r, w, d] =
     (if w = ''dev'' then Some \<lparr>re_v6 = v6, re_dest = with_len r, re_dev = d, re_via = []\<rparr> else None)"
| "linux_entry v6 [r, w, g, w', d] =
     (if w = ''via'' \<and> w' = ''dev'' then Some \<lparr>re_v6 = v6, re_dest = with_len r, re_dev = d, re_via = g\<rparr> else None)"
| "linux_entry v6 _ = None"

definition meaning_linux :: "string list \<Rightarrow> route_entry option" where
  "meaning_linux c =
     (if take 4 c = [''ip'', ''-6'', ''route'', ''add''] then linux_entry True (drop 4 c)
      else if take 3 c = [''ip'', ''route'', ''add''] then linux_entry False (drop 3 c)
      else None)"

definition meaning_windows :: "string list \<Rightarrow> route_entry option" where
  "meaning_windows c =
     (if length c = 9 \<and> c ! 0 = ''netsh'' \<and> c ! 1 = ''interface'' \<and> c ! 2 \<in> {''ipv4'', ''ipv6''} \<and>
        c ! 3 = ''add'' \<and> c ! 4 = ''route'' \<and> c ! 8 = ''metric=1''
      then Some \<lparr>re_v6 = (c ! 2 = ''ipv6''), re_dest = c ! 5, re_dev = c ! 6, re_via = c ! 7\<rparr>
      else None)"

interpretation linux_routes: route_setup "configureRoute_linux out_of tunName" meaning_linux
  "\<lambda>_. tunName" "\<lambda>_. []" "\<lambda>v6. snd (getDefaultGateway_linux out_of v6)" "\<lambda>v6. fst (getDefaultGateway_linux out_of v6)"
  for out_of tunName
  by unfold_locales
    (auto simp: configureRoute_linux_def getIPv4DefaultGateway_linux_def getIPv6DefaultGateway_linux_def
      meaning_linux_def entry_def Let_def split: prod.splits)

interpretation windows_routes: route_setup "configureRoute_windows out_of tunName ipv4 ipv6" meaning_windows
  "\<lambda>_. tunName" "\<lambda>v6. if v6 then ipv6 else ipv4"
  "\<lambda>v6. fst (getDefaultGateway_windows out_of v6)" "\<lambda>v6. snd (getDefaultGateway_windows out_of v6)"
  for out_of tunName ipv4 ipv6
  by unfold_locales
    (auto simp: configureRoute_windows_def getIPv4DefaultGateway_windows_def getIPv6DefaultGateway_windows_def
      meaning_windows_def entry_def with_len_def Let_def split: prod.splits)

section \<open>Gateways found\<close>

lemma text_fields_word:
  "\<lbrakk>w \<noteq> []; \<forall>c \<in> set w. \<not> is_space c; r = [] \<or> is_space (hd r)\<rbrakk> \<Longrightarrow> text_fields (w @ r) = w # text_fields r"
proof -
  assume w: "w \<noteq> []" "\<forall>c \<in> set w. \<not> is_space c" "r = [] \<or> is_space (hd r)"
  then obtain c cs where cs: "w = c # cs" by (cases w) auto
  have "\<forall>x \<in> set cs. \<not> is_space x" using w(2) cs by simp
  then have "takeWhile (\<lambda>x. \<not> is_space x) (cs @ r) = cs @ takeWhile (\<lambda>x. \<not> is_space x) r"
    "dropWhile (\<lambda>x. \<not> is_space x) (cs @ r) = dropWhile (\<lambda>x. \<not> is_space x) r"
    by (simp_all add: takeWhile_append dropWhile_append)
  then have "text_fields (w @ r) = (c # cs @ takeWhile (\<lambda>x. \<not> is_space x) r) # text_fields (dropWhile (\<lambda>x. \<not> is_space x) r)"
    using w(2) cs by (simp only: append_Cons text_fields.simps) simp
  with w(3) cs show ?thesis by (cases r) simp_all
qed

lemma text_fields_space: "is_space c \<Longrightarrow> text_fields (c # r) = text_fields r"
  by simp

text \<open>A line of \<open>ip route show default\<close>.\<close>

definition is_word :: "string \<Rightarrow> bool" where
  "is_word s \<longleftrightarrow> s \<noteq> [] \<and> list_all (\<lambda>c. \<not> is_space c) s"

definition default_line :: "string \<Rightarrow> string \<Rightarrow> string \<Rightarrow> string" where
  "default_line gw dev rest = ''default via '' @ gw @ '' dev '' @ dev @ rest"

lemma linux_gateway_line:
  assumes words: "is_word gw" "is_word dev" and "rest = [] \<or> is_space (hd rest)"
    and "\<forall>l \<in> set before. \<not> has_prefix l ''default via ''"
  shows "linux_gateway (before @ default_line gw dev rest # ls) = (gw, dev)"
proof -
  have gd: "gw \<noteq> []" "\<forall>c \<in> set gw. \<not> is_space c" "dev \<noteq> []" "\<forall>c \<in> set dev. \<not> is_space c"
    using words by (simp_all add: is_word_def list_all_iff)
  have sp: "is_space CHR '' ''" by (simp add: is_space_def)
  have w: "text_fields (''default'' @ CHR '' '' # r) = ''default'' # text_fields r"
    "text_fields (''via'' @ CHR '' '' # r) = ''via'' # text_fields r"
    "text_fields (''dev'' @ CHR '' '' # r) = ''dev'' # text_fields r" for r
    using text_fields_word [of _ "CHR '' '' # r"] sp by (auto simp: is_space_def)
  have g: "text_fields (gw @ CHR '' '' # r) = gw # text_fields r" for r
    using text_fields_word [OF gd(1,2), of "CHR '' '' # r"] sp by simp
  have "text_fields (''default via '' @ gw @ '' dev '' @ dev @ rest) =
      [''default'', ''via'', gw, ''dev'', dev] @ text_fields rest"
    using w(1) [of "''via '' @ gw @ '' dev '' @ dev @ rest"] w(2) [of "gw @ '' dev '' @ dev @ rest"]
      g [of "''dev '' @ dev @ rest"] w(3) [of "dev @ rest"] text_fields_word [OF gd(3,4) assms(3)]
    by simp
  then have "linux_gateway (default_line gw dev rest # ls) = (gw, dev)"
    by (simp add: default_line_def)
  with assms(4) show ?thesis by (induction before) auto
qed

text \<open>The candidates of a Windows routing table, and the least of them.\<close>

definition candidate :: "string \<Rightarrow> string \<Rightarrow> (int \<times> string \<times> string) option" where
  "candidate substr line =
     (let parts = text_fields line in
      if contains_str line substr \<and> 6 \<le> length parts
      then map_option (\<lambda>m. (m, parts ! 4, parts ! 5)) (parse_int64 (parts ! 2)) else None)"

lemma windows_step_candidate:
  "windows_step substr st line =
     (case candidate substr line of None \<Rightarrow> st | Some c \<Rightarrow> if fst st \<le> fst c then st else c)"
  by (simp add: windows_step_def candidate_def Let_def split: option.splits)

lemma windows_fold:
  "foldl (windows_step substr) st ls = st' \<Longrightarrow>
   fst st' \<le> fst st \<and> (\<forall>l \<in> set ls. \<forall>c. candidate substr l = Some c \<longrightarrow> fst st' \<le> fst c) \<and>
   (st' = st \<or> fst st' < fst st \<and> (\<exists>l \<in> set ls. candidate substr l = Some st'))"
proof (induction ls arbitrary: st)
  case (Cons l ls)
  let ?s = "windows_step substr st l"
  have "fst st' \<le> fst ?s" "\<forall>l \<in> set ls. \<forall>c. candidate substr l = Some c \<longrightarrow> fst st' \<le> fst c"
    "st' = ?s \<or> fst st' < fst ?s \<and> (\<exists>l \<in> set ls. candidate substr l = Some st')"
    using Cons.IH [of ?s] Cons.prems by auto
  note rest = this
  have "fst ?s \<le> fst st" "\<forall>c. candidate substr l = Some c \<longrightarrow> fst ?s \<le> fst c"
    "?s = st \<or> fst ?s < fst st \<and> candidate substr l = Some ?s"
    by (auto simp: windows_step_candidate split: option.splits)
  note step = this
  have "fst st' \<le> fst st" using rest(1) step(1) by simp
  moreover have "fst st' \<le> fst c" if "x \<in> set (l # ls)" "candidate substr x = Some c" for x c
  proof (cases "x = l")
    case True
    then have "fst ?s \<le> fst c" using step(2) that(2) by blast
    with rest(1) show ?thesis by (rule order_trans)
  next
    case False
    with that rest(2) show ?thesis by (metis set_ConsD)
  qed
  moreover have "st' = st \<or> fst st' < fst st \<and> (\<exists>x \<in> set (l # ls). candidate substr x = Some st')"
    using rest(3) step(3) step(1) by auto
  ultimately show ?case by blast
qed simp

lemma windows_gateway_least:
  "let found = {c. \<exists>l \<in> set ls. candidate substr l = Some c \<and> fst c < 65536} in
   if found = {} then windows_gateway substr ls = ([], [])
   else \<exists>m. (m, windows_gateway substr ls) \<in> found \<and> (\<forall>c \<in> found. m \<le> fst c)"
proof -
  let ?found = "{c. \<exists>l \<in> set ls. candidate substr l = Some c \<and> fst c < 65536}"
  let ?st = "foldl (windows_step substr) (65536, [], []) ls"
  note fold = windows_fold [of substr "(65536, [], [])" ls ?st, OF refl]
  show ?thesis
  proof (cases "?st = (65536, [], [])")
    case True
    then have "?found = {}" using fold by force
    then show ?thesis using True by (simp add: windows_gateway_def Let_def)
  next
    case False
    with fold have "?st \<in> ?found" by auto
    then have "?found \<noteq> {}" "(fst ?st, windows_gateway substr ls) \<in> ?found"
      by (blast, simp only: windows_gateway_def prod.collapse)
    moreover have "\<forall>c \<in> ?found. fst ?st \<le> fst c" using fold by blast
    ultimately show ?thesis by (simp only: Let_def if_False) blast
  qed
qed

text \<open>The commands for the addresses add no route.\<close>

lemma address_commands:
  "map meaning_linux (configureAddress_linux tunName ipv4 ipv6) = replicate 4 None"
  "map meaning_windows (configureAddress_windows tunName ipv4 ipv6) = replicate 3 None"
  by (simp_all add: configureAddress_linux_def configureAddress_windows_def meaning_linux_def meaning_windows_def
      numeral_eq_Suc)

section \<open>Properties\<close>

text \<open>
  C23. Routes on Linux and Windows: behind the commands for the addresses, the commands add exactly the
  configured routes and exclusions and nothing else, one each and in order, IPv4 and IPv6 by the form of
  the route, an address as a host route; routes go to the device, exclusions behind them to the default
  gateway of their own family. On Linux that is the gateway and the device of the first default route
  that the system prints. On Windows, when the printed table has a default route with a metric below
  65536, it is the gateway and the interface of such a route of the least metric; else there is none.
\<close>

theorem routes_configured:
  "map meaning_linux (ConfigureTun Linux out_of tunName ipv4 ipv6 routes exRoutes) =
     replicate 4 None @
     map (\<lambda>r. Some (entry (\<lambda>_. tunName) (\<lambda>_. []) r)) routes @
     map (\<lambda>r. Some (entry (\<lambda>v6. snd (getDefaultGateway_linux out_of v6)) (\<lambda>v6. fst (getDefaultGateway_linux out_of v6)) r)) exRoutes \<and>
   map meaning_windows (ConfigureTun Windows out_of tunName ipv4 ipv6 routes exRoutes) =
     replicate 3 None @
     map (\<lambda>r. Some (entry (\<lambda>_. tunName) (\<lambda>v6. if v6 then ipv6 else ipv4) r)) routes @
     map (\<lambda>r. Some (entry (\<lambda>v6. fst (getDefaultGateway_windows out_of v6)) (\<lambda>v6. snd (getDefaultGateway_windows out_of v6)) r)) exRoutes \<and>
   (\<forall>v6 printed before gw dev rest ls.
      out_of (linux_query v6) = Inr printed \<and> lines_of printed = before @ default_line gw dev rest # ls \<and>
      is_word gw \<and> is_word dev \<and> (rest = [] \<or> is_space (hd rest)) \<and>
      (\<forall>l \<in> set before. \<not> has_prefix l ''default via '') \<longrightarrow>
      getDefaultGateway_linux out_of v6 = (gw, dev)) \<and>
   (\<forall>v6 printed. out_of (windows_query v6) = Inr printed \<longrightarrow>
      (let found = {c. \<exists>l \<in> set (lines_of printed). candidate (windows_substr v6) l = Some c \<and> fst c < 65536} in
       if found = {} then getDefaultGateway_windows out_of v6 = ([], [])
       else \<exists>m. (m, getDefaultGateway_windows out_of v6) \<in> found \<and> (\<forall>c \<in> found. m \<le> fst c)))"
proof (intro conjI allI impI)
  show "getDefaultGateway_linux out_of v6 = (gw, dev)"
    if "out_of (linux_query v6) = Inr printed \<and> lines_of printed = before @ default_line gw dev rest # ls \<and>
      is_word gw \<and> is_word dev \<and> (rest = [] \<or> is_space (hd rest)) \<and>
      (\<forall>l \<in> set before. \<not> has_prefix l ''default via '')" for v6 printed before gw dev rest ls
    using that linux_gateway_line [of gw dev rest before ls] by (simp add: getDefaultGateway_linux_def)
  show "let found = {c. \<exists>l \<in> set (lines_of printed). candidate (windows_substr v6) l = Some c \<and> fst c < 65536} in
       if found = {} then getDefaultGateway_windows out_of v6 = ([], [])
       else \<exists>m. (m, getDefaultGateway_windows out_of v6) \<in> found \<and> (\<forall>c \<in> found. m \<le> fst c)"
    if "out_of (windows_query v6) = Inr printed" for v6 printed
    using windows_gateway_least [of "lines_of printed" "windows_substr v6"] that
    by (simp only: getDefaultGateway_windows_def sum.case)
qed (simp_all add: linux_routes.impl_meaning windows_routes.impl_meaning address_commands)

definition demo_table :: string where
  "demo_table = ''No Manual 35 0.0.0.0/0 7 10.0.0.1'' @ [CHR 0x0A] @ ''No Manual 10 0.0.0.0/0 9 192.168.1.1''"

definition demo_printed :: command_output where
  "demo_printed c =
     (if c = linux_query False then Inr (default_line ''10.0.0.1'' ''eth0'' '' proto dhcp'')
      else if c = windows_query False then Inr demo_table else Inl ErrEOF)"

lemma demo_candidates:
  "map (candidate (windows_substr False)) (lines_of demo_table) =
     [Some (35, ''7'', ''10.0.0.1''), Some (10, ''9'', ''192.168.1.1'')]"
  by code_simp

theorem routes_configured_witness:
  "getDefaultGateway_linux demo_printed False = (''10.0.0.1'', ''eth0'') \<and>
   getDefaultGateway_windows demo_printed False = (''9'', ''192.168.1.1'')"
proof -
  note facts = routes_configured [where out_of = demo_printed, THEN conjunct2, THEN conjunct2]
  have w: "is_word ''10.0.0.1''" "is_word ''eth0''" and "is_space (hd '' proto dhcp'')"
    and "lines_of (default_line ''10.0.0.1'' ''eth0'' '' proto dhcp'') = [default_line ''10.0.0.1'' ''eth0'' '' proto dhcp'']"
    by code_simp+
  then have lin: "getDefaultGateway_linux demo_printed False = (''10.0.0.1'', ''eth0'')"
    by (intro facts [THEN conjunct1, rule_format, of False _ "[]" "''10.0.0.1''" "''eth0''" "'' proto dhcp''" "[]"])
      (simp add: demo_printed_def)
  let ?found = "{c. \<exists>l \<in> set (lines_of demo_table). candidate (windows_substr False) l = Some c \<and> fst c < 65536}"
  have "Some c \<in> set (map (candidate (windows_substr False)) (lines_of demo_table)) \<longleftrightarrow>
      (\<exists>l \<in> set (lines_of demo_table). candidate (windows_substr False) l = Some c)" for c
    by force
  then have found: "?found = {(35, ''7'', ''10.0.0.1''), (10, ''9'', ''192.168.1.1'')}"
    unfolding demo_candidates by auto
  have "demo_printed (windows_query False) = Inr demo_table"
    by (simp add: demo_printed_def linux_query_def windows_query_def)
  from facts [THEN conjunct2, rule_format, OF this] have "getDefaultGateway_windows demo_printed False = (''9'', ''192.168.1.1'')"
    unfolding found by (auto simp: Let_def)
  with lin show ?thesis by blast
qed

text \<open>
  Routes on macOS are not those: an IPv4 network gets a second prefix length, which is no
  destination, while an address gets none; and an IPv6 exclusion is sent to the IPv4 gateway.
\<close>

theorem darwin_routes_wrong:
  assumes "\<not> is_v6 r" and "is_v6 x" and "contains_str x ''/''"
  shows "configureRoute_darwin out_of ipv4 ipv6 [r] [x] =
    [[''sudo'', ''route'', ''add'', ''-net'', (if contains_str r ''/'' then r @ ''/32'' else r), ipv4],
     [''sudo'', ''route'', ''-inet6'', ''add'', ''-net'', x, getDefaultGateway_darwin out_of False]]"
  using assms by (simp add: configureRoute_darwin_def getIPv4DefaultGateway_darwin_def Let_def)

theorem darwin_routes_wrong_witness:
  "configureRoute_darwin (\<lambda>_. Inr ''default 10.0.0.1'') ''198.18.0.1'' ''fd12::1'' [''1.0.0.0/8''] [''2001:db8::/32''] =
    [[''sudo'', ''route'', ''add'', ''-net'', ''1.0.0.0/8/32'', ''198.18.0.1''],
     [''sudo'', ''route'', ''-inet6'', ''add'', ''-net'', ''2001:db8::/32'', ''10.0.0.1'']]"
proof -
  have "getDefaultGateway_darwin (\<lambda>_. Inr ''default 10.0.0.1'') False = ''10.0.0.1''" by code_simp
  then show ?thesis
    using darwin_routes_wrong [of "''1.0.0.0/8''" "''2001:db8::/32''"
        "\<lambda>_. Inr ''default 10.0.0.1''" "''198.18.0.1''" "''fd12::1''"]
    by (simp add: is_v6_def)
qed

end
