(* ===== verification/Logging.thy ===== *)
theory Logging
  imports JsonDecode "HOL-Library.Multiset"
begin

text \<open>
  \<open>src/log\<close>: levels, events and the observable that passes every event to its subscribers; and
  \<open>src/client/tun/log\<close>: the levels of the TUN device's logger. The observable's goroutine, its subscribers
  and the callers of \<open>Subscribe\<close> and \<open>UnSubscribe\<close> interleave at the mutex, so it is a step relation.
\<close>

section \<open>Levels\<close>

text \<open>\<open>LogLevel\<close> is an \<open>int\<close>; the constants count from 0.\<close>

definition DEBUG :: int where "DEBUG = 0"
definition INFO :: int where "INFO = 1"
definition WARNING :: int where "WARNING = 2"
definition ERROR :: int where "ERROR = 3"
definition SILENT :: int where "SILENT = 4"

lemmas level_defs = DEBUG_def INFO_def WARNING_def ERROR_def SILENT_def

definition level_String :: "int \<Rightarrow> string" where
  "level_String l =
     (if l = INFO then ''info'' else if l = WARNING then ''warning'' else if l = ERROR then ''error''
      else if l = DEBUG then ''debug'' else if l = SILENT then ''silent'' else ''unknown'')"

definition LogLevelMapping :: "string \<rightharpoonup> int" where
  "LogLevelMapping = map_of [(level_String ERROR, ERROR), (level_String WARNING, WARNING), (level_String INFO, INFO),
     (level_String DEBUG, DEBUG), (level_String SILENT, SILENT)]"

text \<open>
  \<open>tp\<close> is what decoding made of an empty string: the source does not look at the decoder's error.
  \<open>unmarshal\<close> is the YAML library's.
\<close>

definition level_Unmarshal :: "string \<Rightarrow> int \<Rightarrow> go_error option \<times> int" where
  "level_Unmarshal tp l =
     (case LogLevelMapping tp of
        None \<Rightarrow> (Some (ErrText ''invalid mode''), l)
      | Some level \<Rightarrow> (None, level))"

definition level_MarshalYAML :: "int \<Rightarrow> string" where
  "level_MarshalYAML l = level_String l"

definition level_UnmarshalYAML :: "(string \<Rightarrow> string) \<Rightarrow> int \<Rightarrow> go_error option \<times> int" where
  "level_UnmarshalYAML unmarshal l = level_Unmarshal (unmarshal []) l"

definition level_MarshalJSON :: "int \<Rightarrow> bytes" where
  "level_MarshalJSON l = string_bytes (json_compact (jstr (level_String l)))"

definition level_UnmarshalJSON :: "bytes \<Rightarrow> int \<Rightarrow> go_error option \<times> int" where
  "level_UnmarshalJSON data l = level_Unmarshal (fst (json_Unmarshal dec_string data [])) l"

lemma level_roundtrip:
  assumes "l \<in> {DEBUG, INFO, WARNING, ERROR, SILENT}"
  shows "level_UnmarshalYAML (\<lambda>_. level_MarshalYAML l) l0 = (None, l)"
    and "level_UnmarshalJSON (level_MarshalJSON l) l0 = (None, l)"
proof -
  have m: "LogLevelMapping (level_String l) = Some l"
    using assms by (auto simp: LogLevelMapping_def level_String_def level_defs)
  show "level_UnmarshalYAML (\<lambda>_. level_MarshalYAML l) l0 = (None, l)"
    by (simp add: level_UnmarshalYAML_def level_Unmarshal_def level_MarshalYAML_def m)
  have "list_all (\<lambda>c. code c < 128) (level_String l)"
    by (simp add: level_String_def)
  then have "json_Unmarshal dec_string (level_MarshalJSON l) [] = (level_String l, None)"
    unfolding level_MarshalJSON_def by (intro json_Unmarshal_compact) (simp_all add: utf8_fix_literal)
  then show "level_UnmarshalJSON (level_MarshalJSON l) l0 = (None, l)"
    by (simp add: level_Unmarshal_def level_UnmarshalJSON_def m)
qed

lemma level_invalid:
  "t \<notin> {''error'', ''warning'', ''info'', ''debug'', ''silent''} \<Longrightarrow>
   level_Unmarshal t l0 = (Some (ErrText ''invalid mode''), l0)"
  by (auto simp: level_Unmarshal_def LogLevelMapping_def level_String_def level_defs)

section \<open>Events\<close>

record event =
  ev_LogLevel :: int
  ev_Payload :: string

definition event_Type :: "event \<Rightarrow> string" where
  "event_Type e = level_String (ev_LogLevel e)"

text \<open>Which of logrus' functions gets the payload, if any; \<open>level\<close> is the package's threshold.\<close>

datatype printed =
    PrintInfo string
  | PrintWarn string
  | PrintError string
  | PrintDebug string
  | PrintFatal string

definition log_print :: "int \<Rightarrow> event \<Rightarrow> printed option" where
  "log_print level e =
     (if ev_LogLevel e < level then None
      else if ev_LogLevel e = INFO then Some (PrintInfo (ev_Payload e))
      else if ev_LogLevel e = WARNING then Some (PrintWarn (ev_Payload e))
      else if ev_LogLevel e = ERROR then Some (PrintError (ev_Payload e))
      else if ev_LogLevel e = DEBUG then Some (PrintDebug (ev_Payload e))
      else None)"

text \<open>\<open>Infoln\<close> and the like: the event goes to the observable and is printed. The text is already formatted.\<close>

definition newLog :: "int \<Rightarrow> string \<Rightarrow> event" where
  "newLog l payload = \<lparr>ev_LogLevel = l, ev_Payload = payload\<rparr>"

definition log_event :: "int \<Rightarrow> int \<Rightarrow> string \<Rightarrow> event \<times> printed option" where
  "log_event level l payload =
     (let e = newLog l payload in (e, log_print level e))"

text \<open>\<open>Fatalln\<close> prints through logrus, whatever the threshold, and ends the program with status 1.\<close>

definition Fatalln :: "string \<Rightarrow> printed \<times> int" where
  "Fatalln payload = (PrintFatal payload, 1)"

text \<open>
  The package's threshold, and how logrus is set up: its own threshold lets everything through, so the package's
  alone decides.
\<close>

definition log_level :: int where "log_level = INFO"

record logrus_settings =
  lr_output :: string
  lr_level :: int
  lr_FullTimestamp :: bool
  lr_TimestampFormat :: string
  lr_EnvironmentOverrideColors :: bool

definition logrus_DebugLevel :: int where "logrus_DebugLevel = 5"

definition log_init :: logrus_settings where
  "log_init = \<lparr>lr_output = ''stdout'', lr_level = logrus_DebugLevel, lr_FullTimestamp = True,
     lr_TimestampFormat = ''2006-01-02T15:04:05.999999999Z07:00'', lr_EnvironmentOverrideColors = True\<rparr>"

text \<open>logrus numbers its levels the other way: fatal 1, error 2, warning 3, info 4, debug 5.\<close>

fun logrus_level :: "printed \<Rightarrow> int" where
  "logrus_level (PrintFatal t) = 1"
| "logrus_level (PrintError t) = 2"
| "logrus_level (PrintWarn t) = 3"
| "logrus_level (PrintInfo t) = 4"
| "logrus_level (PrintDebug t) = 5"

definition logrus_writes :: "logrus_settings \<Rightarrow> printed \<Rightarrow> bool" where
  "logrus_writes s p \<longleftrightarrow> logrus_level p \<le> lr_level s"

lemma log_init_writes: "logrus_writes log_init p"
  by (cases p) (simp_all add: logrus_writes_def log_init_def logrus_DebugLevel_def)

lemma debug_not_printed:
  "snd (log_event log_level DEBUG t) = None"
  "snd (log_event log_level INFO t) = Some (PrintInfo t)"
  "snd (log_event log_level WARNING t) = Some (PrintWarn t)"
  "snd (log_event log_level ERROR t) = Some (PrintError t)"
  by (simp_all add: log_event_def log_print_def newLog_def log_level_def level_defs)

section \<open>The TUN device's logger\<close>

text \<open>zap's levels; \<open>zap_ParseLevel\<close> is zap's parser. \<open>zapcore.InvalidLevel\<close> is 6.\<close>

definition SilentLevel :: int where "SilentLevel = 7"

definition ParseLevel :: "(string \<Rightarrow> go_error + int) \<Rightarrow> string \<Rightarrow> go_error + int" where
  "ParseLevel zap_ParseLevel text =
     (if text = ''silent'' \<or> text = ''SILENT'' then Inr SilentLevel else zap_ParseLevel text)"

datatype logger = NopLogger | DevelopmentLogger | ProductionLogger int

definition NewLeveled :: "int \<Rightarrow> go_error + logger" where
  "NewLeveled l =
     (if l = SilentLevel then Inr NopLogger
      else if l = -1 then Inr DevelopmentLogger
      else if 0 \<le> l \<and> l \<le> 5 then Inr (ProductionLogger l)
      else Inl (ErrText ''invalid level''))"

lemma parsed_level_has_logger:
  assumes "\<And>t l. zap_ParseLevel t = Inr l \<Longrightarrow> -1 \<le> l \<and> l \<le> 5" "ParseLevel zap_ParseLevel text = Inr l"
  shows "\<exists>g. NewLeveled l = Inr g"
  using assms by (auto simp: ParseLevel_def NewLeveled_def SilentLevel_def split: if_splits) force

text \<open>
  The package's global loggers: the plain one, its sugared form and the one of the emitter that takes
  gVisor's messages, which is nil before the first \<open>SetLogger\<close>. What reaches zap is a call with a
  logger, a level and the text.
\<close>

record log_globals =
  lg_globalL :: logger
  lg_globalS :: logger
  lg_emitter :: "logger option"

datatype zap_call = Logf logger int string

definition SetLogger :: "logger \<Rightarrow> log_globals \<Rightarrow> log_globals" where
  "SetLogger g s = s\<lparr>lg_globalL := g, lg_globalS := g, lg_emitter := Some g\<rparr>"

text \<open>The package starts with zap's production logger, which prints from info on.\<close>

definition tun_log_init :: "log_globals \<Rightarrow> log_globals" where
  "tun_log_init s = SetLogger (ProductionLogger 0) s"

definition tun_logf :: "int \<Rightarrow> string \<Rightarrow> log_globals \<Rightarrow> zap_call" where
  "tun_logf lvl text s = Logf (lg_globalS s) lvl text"

definition tun_Debugf :: "string \<Rightarrow> log_globals \<Rightarrow> zap_call" where "tun_Debugf = tun_logf (-1)"
definition tun_Infof :: "string \<Rightarrow> log_globals \<Rightarrow> zap_call" where "tun_Infof = tun_logf 0"
definition tun_Warnf :: "string \<Rightarrow> log_globals \<Rightarrow> zap_call" where "tun_Warnf = tun_logf 1"
definition tun_Errorf :: "string \<Rightarrow> log_globals \<Rightarrow> zap_call" where "tun_Errorf = tun_logf 2"
definition tun_Fatalf :: "string \<Rightarrow> log_globals \<Rightarrow> zap_call" where "tun_Fatalf = tun_logf 5"

text \<open>
  gVisor's levels count the other way (0 warning, 1 info, 2 debug); \<open>Level\<close> is an \<open>int8\<close>. The outer \<open>None\<close>
  is a nil dereference. \<open>Emit\<close> is given the caller's file and line, when the runtime knows them.
\<close>

definition emitter_logf :: "u32 \<Rightarrow> string \<Rightarrow> log_globals \<Rightarrow> zap_call option" where
  "emitter_logf level text s =
     map_option (\<lambda>g. Logf g (signed_take_bit 7 (1 - signed_take_bit 7 (uint level))) (''[STACK] '' @ text))
       (lg_emitter s)"

definition emitter_Emit :: "(string \<times> int) option \<Rightarrow> u32 \<Rightarrow> string \<Rightarrow> log_globals \<Rightarrow> zap_call option option" where
  "emitter_Emit caller level text s =
     (if (case caller of
            Some (file, line) \<Rightarrow> line = 457 \<and> has_suffix file ''gonet/gonet.go''
          | None \<Rightarrow> False)
      then Some None
      else map_option Some (emitter_logf level text s))"

text \<open>
  Once a logger is set, every message of the program and of gVisor goes to it, gVisor's with the level of
  the same name.
\<close>

lemma set_logger_receives:
  "tun_logf lvl text (SetLogger g s) = Logf g lvl text"
  "emitter_Emit None 0 text (SetLogger g s) = Some (Some (tun_Warnf (''[STACK] '' @ text) (SetLogger g s)))"
  "emitter_Emit None 1 text (SetLogger g s) = Some (Some (tun_Infof (''[STACK] '' @ text) (SetLogger g s)))"
  "emitter_Emit None 2 text (SetLogger g s) = Some (Some (tun_Debugf (''[STACK] '' @ text) (SetLogger g s)))"
  by (simp_all add: SetLogger_def tun_logf_def tun_Warnf_def tun_Infof_def tun_Debugf_def emitter_Emit_def
      emitter_logf_def signed_take_bit_int_eq_self)

lemma tun_log_init_emits: "emitter_Emit caller level text (tun_log_init s) \<noteq> None"
  by (simp add: tun_log_init_def SetLogger_def emitter_Emit_def emitter_logf_def)

lemma emitter_never_nil: "lg_emitter s \<noteq> None \<Longrightarrow> emitter_Emit caller level text s \<noteq> None"
  by (auto simp: emitter_Emit_def emitter_logf_def split: option.splits)

section \<open>Subscribers\<close>

text \<open>
  A subscriber's channel and its \<open>sync.Once\<close>; beside them, what it has received so far and how many
  items had been published when it subscribed.
\<close>

record 'a subscriber =
  su_buffer :: "'a chan"
  su_once :: bool
  su_got :: "'a list"
  su_from :: nat

definition newSubscriber :: "nat \<Rightarrow> 'a subscriber" where
  "newSubscriber n = \<lparr>su_buffer = make_chan 200, su_once = False, su_got = [], su_from = n\<rparr>"

text \<open>\<open>Out\<close>: the channel its reader ranges over.\<close>

definition Subscriber_Out :: "'a subscriber \<Rightarrow> 'a chan" where
  "Subscriber_Out s = su_buffer s"

datatype 'a emit_result = Emitted "'a subscriber" | EmitBlocks | EmitPanics

definition Emit :: "'a \<Rightarrow> 'a subscriber \<Rightarrow> 'a emit_result" where
  "Emit x s =
     (case chan_send x (su_buffer s) of
        SendOk c \<Rightarrow> Emitted (s\<lparr>su_buffer := c\<rparr>)
      | SendBlock \<Rightarrow> EmitBlocks
      | SendPanic \<Rightarrow> EmitPanics)"

text \<open>\<open>None\<close> is the panic of closing a closed channel.\<close>

definition Subscriber_Close :: "'a subscriber \<Rightarrow> 'a subscriber option" where
  "Subscriber_Close s =
     (if su_once s then Some s
      else map_option (\<lambda>c. s\<lparr>su_buffer := c, su_once := True\<rparr>) (chan_close (su_buffer s)))"

section \<open>The observable\<close>

text \<open>
  The map of listeners, the subscription (the channel itself in the source) being a number; beside it the
  items taken from the input so far. \<open>ob_round\<close> is where \<open>process\<close> stands: \<open>Some (x, js)\<close> when it holds
  the mutex and still has to pass \<open>x\<close> to the subscribers \<open>js\<close>.
\<close>

record 'a observable =
  ob_listener :: "(nat \<times> 'a subscriber) list"
  ob_done :: bool
  ob_next :: nat
  ob_round :: "('a \<times> nat list) option"
  ob_published :: "'a list"

definition NewObservable :: "'a observable" where
  "NewObservable = \<lparr>ob_listener = [], ob_done = False, ob_next = 0, ob_round = None, ob_published = []\<rparr>"

definition Subscribe :: "'a observable \<Rightarrow> (go_error + nat) \<times> 'a observable" where
  "Subscribe o' =
     (if ob_done o' then (Inl (ErrText ''observable is closed''), o')
      else (Inr (ob_next o'),
            o'\<lparr>ob_listener := (ob_next o', newSubscriber (length (ob_published o'))) # ob_listener o',
               ob_next := Suc (ob_next o')\<rparr>))"

text \<open>\<open>None\<close> is again the panic.\<close>

definition UnSubscribe :: "nat \<Rightarrow> 'a observable \<Rightarrow> 'a observable option" where
  "UnSubscribe i o' =
     (case map_of (ob_listener o') i of
        None \<Rightarrow> Some o'
      | Some s \<Rightarrow>
          (case Subscriber_Close s of
             None \<Rightarrow> None
           | Some _ \<Rightarrow> Some (o'\<lparr>ob_listener := filter (\<lambda>p. fst p \<noteq> i) (ob_listener o')\<rparr>)))"

definition observable_close :: "'a observable \<Rightarrow> 'a observable option" where
  "observable_close o' =
     map_option (\<lambda>l. o'\<lparr>ob_done := True, ob_listener := l\<rparr>)
       (those (map (\<lambda>p. map_option (Pair (fst p)) (Subscriber_Close (snd p))) (ob_listener o')))"

definition set_listener :: "nat \<Rightarrow> 'a subscriber \<Rightarrow> (nat \<times> 'a subscriber) list \<Rightarrow> (nat \<times> 'a subscriber) list" where
  "set_listener i s = map (\<lambda>p. if fst p = i then (i, s) else p)"

text \<open>
  \<open>process\<close>: an item arrives and the mutex is taken, the subscribers being in the order in which the range
  over the map visits them; the next subscriber gets the item; the mutex is released.
\<close>

definition process_item :: "'a \<Rightarrow> nat list \<Rightarrow> 'a observable \<Rightarrow> 'a observable" where
  "process_item x js o' = o'\<lparr>ob_round := Some (x, js), ob_published := ob_published o' @ [x]\<rparr>"

datatype 'a emit_outcome = Continue "'a observable" | Waits | Panics

fun process_emit :: "'a \<Rightarrow> nat list \<Rightarrow> 'a observable \<Rightarrow> 'a emit_outcome" where
  "process_emit x [] o' = Continue (o'\<lparr>ob_round := None\<rparr>)"
| "process_emit x (i # js) o' =
     (case map_of (ob_listener o') i of
        None \<Rightarrow> Continue (o'\<lparr>ob_round := Some (x, js)\<rparr>)
      | Some s \<Rightarrow>
          (case Emit x s of
             Emitted s' \<Rightarrow> Continue (o'\<lparr>ob_listener := set_listener i s' (ob_listener o'), ob_round := Some (x, js)\<rparr>)
           | EmitBlocks \<Rightarrow> Waits
           | EmitPanics \<Rightarrow> Panics))"

text \<open>A subscriber takes an item.\<close>

definition take_item :: "nat \<Rightarrow> 'a observable \<Rightarrow> 'a observable option" where
  "take_item i o' =
     (case map_of (ob_listener o') i of
        None \<Rightarrow> None
      | Some s \<Rightarrow>
          (case chan_recv (su_buffer s) of
             RecvVal x c \<Rightarrow>
               Some (o'\<lparr>ob_listener := set_listener i (s\<lparr>su_buffer := c, su_got := su_got s @ [x]\<rparr>) (ob_listener o')\<rparr>)
           | _ \<Rightarrow> None))"

text \<open>
  The operations need the mutex, a subscriber's receive does not. \<open>process\<close> ends with \<open>close\<close> when its
  input is closed, so no item follows.
\<close>

inductive observable_step :: "'a observable \<Rightarrow> 'a observable \<Rightarrow> bool" where
  subscribe: "ob_round o' = None \<Longrightarrow> observable_step o' (snd (Subscribe o'))"
| unsubscribe: "ob_round o' = None \<Longrightarrow> UnSubscribe i o' = Some t \<Longrightarrow> observable_step o' t"
| item: "ob_round o' = None \<Longrightarrow> \<not> ob_done o' \<Longrightarrow> mset js = mset (map fst (ob_listener o')) \<Longrightarrow>
    observable_step o' (process_item x js o')"
| emit: "ob_round o' = Some (x, js) \<Longrightarrow> process_emit x js o' = Continue t \<Longrightarrow> observable_step o' t"
| finish: "ob_round o' = None \<Longrightarrow> \<not> ob_done o' \<Longrightarrow> observable_close o' = Some t \<Longrightarrow> observable_step o' t"
| taken: "take_item i o' = Some t \<Longrightarrow> observable_step o' t"

text \<open>What the subscriber is still to get in the current round.\<close>

definition owed :: "'a observable \<Rightarrow> nat \<Rightarrow> 'a list" where
  "owed o' i = (case ob_round o' of Some (x, js) \<Rightarrow> if i \<in> set js then [x] else [] | None \<Rightarrow> [])"

definition subscriber_inv :: "'a observable \<Rightarrow> nat \<Rightarrow> 'a subscriber \<Rightarrow> bool" where
  "subscriber_inv o' i s \<longleftrightarrow> (ch_closed (su_buffer s) \<longleftrightarrow> ob_done o') \<and> (su_once s \<longleftrightarrow> ob_done o') \<and>
     ch_cap (su_buffer s) = 200 \<and> chan_wf (su_buffer s) \<and> su_from s \<le> length (ob_published o') \<and>
     su_got s @ ch_buf (su_buffer s) @ owed o' i = drop (su_from s) (ob_published o')"

definition observable_inv :: "'a observable \<Rightarrow> bool" where
  "observable_inv o' \<longleftrightarrow> (\<forall>(i, s) \<in> set (ob_listener o'). i < ob_next o' \<and> subscriber_inv o' i s) \<and>
     distinct (map fst (ob_listener o')) \<and>
     (case ob_round o' of None \<Rightarrow> True
      | Some (x, js) \<Rightarrow> \<not> ob_done o' \<and> distinct js \<and> set js \<subseteq> fst ` set (ob_listener o'))"

lemma observable_invD:
  "observable_inv o' \<Longrightarrow> (i, s) \<in> set (ob_listener o') \<Longrightarrow> subscriber_inv o' i s"
  "observable_inv o' \<Longrightarrow> map_of (ob_listener o') i = Some s \<Longrightarrow> subscriber_inv o' i s"
  by (auto simp: observable_inv_def dest: map_of_SomeD)

lemma fst_set_listener [simp]: "map fst (set_listener i s l) = map fst l"
  by (induction l) (auto simp: set_listener_def)

lemma mem_set_listener: "(j, r) \<in> set (set_listener i s l) \<Longrightarrow> (j = i \<and> r = s) \<or> (j \<noteq> i \<and> (j, r) \<in> set l)"
  by (auto simp: set_listener_def split: if_splits)

lemma fst_image_set_listener [simp]: "fst ` set (set_listener i s l) = fst ` set l"
  by (metis fst_set_listener list.set_map)

text \<open>Neither sending to a subscriber nor closing one panics.\<close>

lemma no_panic:
  assumes "observable_inv o'"
  shows "ob_round o' = Some (x, js) \<Longrightarrow> process_emit x js o' \<noteq> Panics"
    and "UnSubscribe i o' \<noteq> None"
    and "observable_close o' \<noteq> None"
proof -
  assume "ob_round o' = Some (x, js)"
  with assms show "process_emit x js o' \<noteq> Panics"
    by (cases js)
       (auto simp: observable_inv_def subscriber_inv_def Emit_def chan_send_def
             dest: observable_invD(2) [OF assms] split: option.splits send_result.splits if_splits)
next
  show "UnSubscribe i o' \<noteq> None"
    using observable_invD(2) [OF assms, of i]
    by (auto simp: UnSubscribe_def subscriber_inv_def Subscriber_Close_def chan_close_def split: option.splits)
next
  have "those (map (\<lambda>p. map_option (Pair (fst p)) (Subscriber_Close (snd p))) l) \<noteq> None"
    if "\<forall>p\<in>set l. Subscriber_Close (snd p) \<noteq> None" for l :: "(nat \<times> 'a subscriber) list"
    using that by (induction l) auto
  moreover have "\<forall>p\<in>set (ob_listener o'). Subscriber_Close (snd p) \<noteq> None"
    using observable_invD(1) [OF assms] by (force simp: subscriber_inv_def Subscriber_Close_def chan_close_def)
  ultimately show "observable_close o' \<noteq> None"
    by (simp add: observable_close_def)
qed

lemma those_close:
  "those (map (\<lambda>p. map_option (Pair (fst p)) (Subscriber_Close (snd p))) l) = Some l' \<Longrightarrow>
   map fst l' = map fst l \<and> (\<forall>(i, s') \<in> set l'. \<exists>s. (i, s) \<in> set l \<and> Subscriber_Close s = Some s')"
proof (induction l arbitrary: l')
  case Nil
  then show ?case by simp
next
  case (Cons p l)
  then obtain s' l0 where "Subscriber_Close (snd p) = Some s'" "l' = (fst p, s') # l0"
    and "those (map (\<lambda>p. map_option (Pair (fst p)) (Subscriber_Close (snd p))) l) = Some l0"
    by (auto split: option.splits)
  with Cons.IH [of l0] show ?case by (cases p) auto
qed

lemma subscriber_inv_close:
  "\<lbrakk>subscriber_inv o' i s; \<not> ob_done o'; Subscriber_Close s = Some s'; ob_published t = ob_published o'; ob_done t;
    ob_round t = ob_round o'\<rbrakk> \<Longrightarrow> subscriber_inv t i s'"
  by (auto simp: subscriber_inv_def Subscriber_Close_def chan_close_def chan_wf_def owed_def split: if_splits)

lemma subscriber_inv_emit:
  "\<lbrakk>subscriber_inv o' i s; Emit x s = Emitted s'; ob_published t = ob_published o'; ob_done t = ob_done o';
    ob_round o' = Some (x, i # js); ob_round t = Some (x, js); i \<notin> set js\<rbrakk> \<Longrightarrow> subscriber_inv t i s'"
  by (auto simp: subscriber_inv_def Emit_def owed_def chan_send_Ok_iff chan_wf_def split: send_result.splits)

lemma subscriber_inv_same:
  "\<lbrakk>subscriber_inv o' i s; ob_published t = ob_published o'; ob_done t = ob_done o'; owed t i = owed o' i\<rbrakk> \<Longrightarrow>
   subscriber_inv t i s"
  by (simp add: subscriber_inv_def)

lemma observable_inv_update:
  assumes inv: "observable_inv o'" and i: "map_of (ob_listener o') i = Some s" and s': "subscriber_inv t i s'"
    and t: "t = o'\<lparr>ob_listener := set_listener i s' (ob_listener o'), ob_round := r\<rparr>"
    and r: "r = ob_round o' \<or> (\<exists>x js. ob_round o' = Some (x, i # js) \<and> r = Some (x, js))"
  shows "observable_inv t"
proof -
  have "i < ob_next o'" using inv i by (auto simp: observable_inv_def dest: map_of_SomeD)
  moreover have "j < ob_next o' \<and> subscriber_inv t j a" if "(j, a) \<in> set (ob_listener o')" "j \<noteq> i" for j a
  proof (rule conjI)
    show "j < ob_next o'" using inv that(1) by (auto simp: observable_inv_def)
    show "subscriber_inv t j a"
      by (rule subscriber_inv_same [OF observable_invD(1) [OF inv that(1)]]) (use t r that(2) in \<open>auto simp: owed_def\<close>)
  qed
  ultimately have "\<forall>(j, a)\<in>set (ob_listener t). j < ob_next t \<and> subscriber_inv t j a"
    using s' t by (auto dest!: mem_set_listener)
  moreover have "case ob_round t of None \<Rightarrow> True
      | Some (x, js) \<Rightarrow> \<not> ob_done t \<and> distinct js \<and> set js \<subseteq> fst ` set (ob_listener t)"
    using inv t r by (auto simp: observable_inv_def split: option.splits)
  moreover have "distinct (map fst (ob_listener t))"
    using inv t by (simp add: observable_inv_def)
  ultimately show ?thesis
    unfolding observable_inv_def by blast
qed

lemma observable_inv_emit:
  assumes inv: "observable_inv o'" and r: "ob_round o' = Some (x, js)" and t: "process_emit x js o' = Continue t"
  shows "observable_inv t"
proof (cases js)
  case Nil
  with inv r t show ?thesis by (auto simp: observable_inv_def subscriber_inv_def owed_def)
next
  case (Cons i js0)
  with inv r have i: "i \<notin> set js0" "i \<in> fst ` set (ob_listener o')" by (auto simp: observable_inv_def)
  then obtain s where s: "map_of (ob_listener o') i = Some s"
    by (metis map_of_eq_None_iff not_None_eq)
  with Cons t obtain s' where s': "Emit x s = Emitted s'"
    and t': "t = o'\<lparr>ob_listener := set_listener i s' (ob_listener o'), ob_round := Some (x, js0)\<rparr>"
    by (auto split: emit_result.splits)
  show ?thesis
  proof (rule observable_inv_update [OF inv s _ t'])
    show "subscriber_inv t i s'"
      by (rule subscriber_inv_emit [OF observable_invD(2) [OF inv s] s', where js = js0]) (use t' r Cons i in auto)
  qed (use r Cons in auto)
qed

lemma observable_inv_taken:
  assumes inv: "observable_inv o'" and "take_item i o' = Some t"
  shows "observable_inv t"
proof -
  from assms(2) obtain s x c where s: "map_of (ob_listener o') i = Some s" "chan_recv (su_buffer s) = RecvVal x c"
    and t: "t = o'\<lparr>ob_listener := set_listener i (s\<lparr>su_buffer := c, su_got := su_got s @ [x]\<rparr>) (ob_listener o'),
                    ob_round := ob_round o'\<rparr>"
    by (auto simp: take_item_def split: option.splits recv_result.splits)
  show ?thesis
  proof (rule observable_inv_update [OF inv s(1) _ t])
    show "subscriber_inv t i (s\<lparr>su_buffer := c, su_got := su_got s @ [x]\<rparr>)"
      using observable_invD(2) [OF inv s(1)] s(2) t
      by (auto simp: subscriber_inv_def chan_recv_Val_iff owed_def chan_wf_def)
  qed simp
qed

lemma observable_inv_step:
  assumes inv: "observable_inv o'" and "observable_step o' t"
  shows "observable_inv t"
  using assms(2)
proof (cases rule: observable_step.cases)
  case subscribe
  with inv show ?thesis
    by (auto simp: observable_inv_def Subscribe_def subscriber_inv_def newSubscriber_def owed_def)
next
  case (unsubscribe i)
  with inv show ?thesis
    by (auto simp: observable_inv_def UnSubscribe_def subscriber_inv_def owed_def distinct_map_filter split: option.splits)
next
  case (item js x)
  then have "set js = fst ` set (ob_listener o')" "distinct js"
    using inv by (metis list.set_map mset_eq_setD, metis observable_inv_def mset_eq_imp_distinct_iff)
  with item inv show ?thesis
    by (force simp: observable_inv_def process_item_def subscriber_inv_def owed_def)
next
  case (emit x js)
  with inv show ?thesis by (blast intro: observable_inv_emit)
next
  case finish
  then obtain l where l: "those (map (\<lambda>p. map_option (Pair (fst p)) (Subscriber_Close (snd p))) (ob_listener o')) = Some l"
    and t: "t = o'\<lparr>ob_done := True, ob_listener := l\<rparr>"
    by (auto simp: observable_close_def)
  from those_close [OF l] have fst: "map fst l = map fst (ob_listener o')"
    and ex: "\<And>i s'. (i, s') \<in> set l \<Longrightarrow> \<exists>s. (i, s) \<in> set (ob_listener o') \<and> Subscriber_Close s = Some s'" by auto
  have "i < ob_next t \<and> subscriber_inv t i s'" if "(i, s') \<in> set l" for i s'
  proof -
    from ex [OF that] obtain s where "(i, s) \<in> set (ob_listener o')" "Subscriber_Close s = Some s'" by blast
    with subscriber_inv_close [of o' i s s' t] inv finish t show ?thesis by (auto simp: observable_inv_def)
  qed
  with inv finish t fst show ?thesis by (auto simp: observable_inv_def)
next
  case (taken i)
  with inv show ?thesis by (blast intro: observable_inv_taken)
qed

interpretation observers: invariant_system "\<lambda>o'. o' = NewObservable" observable_step observable_inv
proof unfold_locales
  show "observable_inv s" if "s = NewObservable" for s :: "'a observable"
    using that by (simp add: observable_inv_def NewObservable_def)
qed (rule observable_inv_step)

section \<open>Properties\<close>

text \<open>
  C24. Whatever the order of subscriptions, items and receives, every registered subscriber has received
  or has buffered exactly the items published since it subscribed, in order and without a gap (but for the item
  that the current round has yet to give it); its buffer never exceeds 200; and neither \<open>process\<close>
  nor \<open>UnSubscribe\<close> nor \<open>close\<close> ever panics on a closed channel.
\<close>

theorem observable_delivery:
  assumes "observable_step\<^sup>*\<^sup>* NewObservable o'" "(i, s) \<in> set (ob_listener o')"
  shows "su_got s @ ch_buf (su_buffer s) @ owed o' i = drop (su_from s) (ob_published o') \<and>
    length (ch_buf (su_buffer s)) \<le> 200 \<and>
    (ob_round o' = Some (x, js) \<longrightarrow> process_emit x js o' \<noteq> Panics) \<and>
    UnSubscribe j o' \<noteq> None \<and> observable_close o' \<noteq> None"
proof -
  have inv: "observable_inv o'" using assms(1) by (rule observers.reachable_inv [OF refl])
  from observable_invD(1) [OF inv assms(2)] no_panic(1) [OF inv, of x js] no_panic(2) [OF inv, of j] no_panic(3) [OF inv] show ?thesis
    by (auto simp: subscriber_inv_def chan_wf_def)
qed

text \<open>A subscriber that has taken the first of two items; \<open>process\<close> is about to give it the second.\<close>

theorem observable_delivery_witness:
  "(let s = \<lparr>su_buffer = make_chan 200, su_once = False, su_got = [7], su_from = 0\<rparr>;
        o' = \<lparr>ob_listener = [(0, s)], ob_done = False, ob_next = 1, ob_round = Some (8, [0]), ob_published = [7, 8::nat]\<rparr>
    in su_got s @ ch_buf (su_buffer s) @ owed o' 0 = drop (su_from s) (ob_published o') \<and>
       length (ch_buf (su_buffer s)) \<le> 200 \<and> process_emit 8 [0] o' \<noteq> Panics \<and>
       UnSubscribe 0 o' \<noteq> None \<and> observable_close o' \<noteq> None)"
proof -
  define o0 :: "nat observable" where "o0 = NewObservable"
  define o1 where "o1 = snd (Subscribe o0)"
  define o2 where "o2 = process_item 7 [0] o1"
  define s2 where "s2 = (newSubscriber 0)\<lparr>su_buffer := \<lparr>ch_cap = 200, ch_buf = [7::nat], ch_closed = False\<rparr>\<rparr>"
  define o3 where "o3 = o2\<lparr>ob_listener := [(0, s2)], ob_round := Some (7, [])\<rparr>"
  define o4 where "o4 = o3\<lparr>ob_round := None\<rparr>"
  define s5 :: "nat subscriber" where "s5 = \<lparr>su_buffer = make_chan 200, su_once = False, su_got = [7], su_from = 0\<rparr>"
  define o5 where "o5 = o4\<lparr>ob_listener := [(0, s5)]\<rparr>"
  define o6 where "o6 = process_item 8 [0] o5"
  note defs = o0_def o1_def o2_def o3_def o4_def o5_def o6_def s2_def s5_def NewObservable_def Subscribe_def newSubscriber_def
    process_item_def make_chan_def
  have "observable_step o0 o1" unfolding o1_def by (rule subscribe) (simp add: defs)
  moreover have "observable_step o1 o2" unfolding o2_def by (rule item) (simp_all add: defs)
  moreover have "observable_step o2 o3"
    by (rule emit [where x = 7 and js = "[0]"]) (simp_all add: defs Emit_def chan_send_def set_listener_def)
  moreover have "observable_step o3 o4" by (rule emit [where x = 7 and js = "[]"]) (simp_all add: defs)
  moreover have "observable_step o4 o5"
    by (rule taken [where i = 0]) (simp add: defs take_item_def chan_recv_def set_listener_def)
  moreover have "observable_step o5 o6" unfolding o6_def by (rule item) (simp_all add: defs)
  ultimately have "observable_step\<^sup>*\<^sup>* NewObservable o6"
    unfolding o0_def [symmetric] by (meson converse_rtranclp_into_rtranclp rtranclp.rtrancl_refl)
  moreover have "(0, s5) \<in> set (ob_listener o6)" by (simp add: defs)
  ultimately show ?thesis
    using observable_delivery [of o6 0 s5 8 "[0]" 0] by (simp add: defs Let_def)
qed

end
