(* ===== verification/Url.thy ===== *)
theory Url
  imports Prelude
begin

text \<open>
  \<open>net/url\<close>'s \<open>Parse\<close>, up to the parts the program reads: scheme, host and query. The other parts are
  checked, because an ill-formed one is an error, but not kept.
\<close>

section \<open>Characters\<close>

definition lower_char :: "char \<Rightarrow> char" where
  "lower_char c = (let n = of_char c :: nat in if 65 \<le> n \<and> n \<le> 90 then char_of (n + 32) else c)"

definition is_alpha :: "char \<Rightarrow> bool" where
  "is_alpha c = (let n = of_char c :: nat in 65 \<le> n \<and> n \<le> 90 \<or> 97 \<le> n \<and> n \<le> 122)"

text \<open>\<open>strings.Cut\<close> at a character: what stands in front of it, and what follows.\<close>

definition cut :: "char \<Rightarrow> string \<Rightarrow> string \<times> string" where
  "cut c s = (takeWhile (\<lambda>x. x \<noteq> c) s, tl (dropWhile (\<lambda>x. x \<noteq> c) s))"

text \<open>The last occurrence: in front of it, and behind it.\<close>

definition cut_last :: "char \<Rightarrow> string \<Rightarrow> (string \<times> string) option" where
  "cut_last c s =
     (if c \<in> set s
      then Some (rev (tl (dropWhile (\<lambda>x. x \<noteq> c) (rev s))), rev (takeWhile (\<lambda>x. x \<noteq> c) (rev s)))
      else None)"

text \<open>In front of the first occurrence of a substring, and from it on.\<close>

fun find_sub :: "string \<Rightarrow> string \<Rightarrow> (string \<times> string) option" where
  "find_sub sub s =
     (if has_prefix s sub then Some ([], s)
      else case s of [] \<Rightarrow> None | c # cs \<Rightarrow> map_option (\<lambda>(a, b). (c # a, b)) (find_sub sub cs))"

declare find_sub.simps [simp del]

section \<open>Percent escapes\<close>

datatype url_mode = UrlHost | UrlZone | UrlOther

definition url_err :: "string \<Rightarrow> go_error" where
  "url_err t = ErrText ((''parse: '') @ t)"

text \<open>\<open>shouldEscape\<close> for a host or a zone.\<close>

definition host_escape :: "char \<Rightarrow> bool" where
  "host_escape c \<longleftrightarrow> \<not> (is_alpha c \<or> is_digit c \<or> c \<in> set (''!$&()*+,;=:[]<>-_.~'' @ [CHR 0x22, CHR 0x27]))"

definition escape_ok :: "url_mode \<Rightarrow> char \<Rightarrow> char \<Rightarrow> bool" where
  "escape_ok m a b \<longleftrightarrow>
     (case m of
        UrlHost \<Rightarrow> 8 \<le> hex_value [a] \<or> [a, b] = ''25''
      | UrlZone \<Rightarrow> [a, b] = ''25'' \<or> hex_value [a, b] = 32 \<or> \<not> host_escape (char_of (hex_value [a, b]))
      | UrlOther \<Rightarrow> True)"

fun unescape :: "url_mode \<Rightarrow> string \<Rightarrow> go_error + string" where
  "unescape m [] = Inr []"
| "unescape m (c # cs) =
     (if c = CHR ''%'' then
        (case cs of
           a # b # rest \<Rightarrow>
             if is_hex a \<and> is_hex b \<and> escape_ok m a b
             then map_sum id (Cons (char_of (hex_value [a, b]))) (unescape m rest)
             else Inl (url_err ''invalid URL escape'')
         | _ \<Rightarrow> Inl (url_err ''invalid URL escape''))
      else if m \<noteq> UrlOther \<and> of_char c < (128 :: nat) \<and> host_escape c
      then Inl (url_err ''invalid character in host name'')
      else map_sum id (Cons c) (unescape m cs))"

section \<open>The parts\<close>

text \<open>\<open>url_getScheme\<close>: letters, then also digits and three signs, up to a colon; otherwise there is no scheme.\<close>

definition scheme_char :: "char \<Rightarrow> bool" where
  "scheme_char c \<longleftrightarrow> is_alpha c \<or> is_digit c \<or> c \<in> set ''+-.''"

definition url_getScheme :: "string \<Rightarrow> go_error + (string \<times> string)" where
  "url_getScheme s =
     (let pre = takeWhile scheme_char s; rest = dropWhile scheme_char s in
      if pre \<noteq> [] \<and> \<not> is_alpha (hd pre) then Inr ([], s)
      else case rest of
             [] \<Rightarrow> Inr ([], s)
           | c # cs \<Rightarrow>
               if c \<noteq> CHR '':'' then Inr ([], s)
               else if pre = [] then Inl (url_err ''missing protocol scheme'') else Inr (pre, cs))"

definition validOptionalPort :: "string \<Rightarrow> bool" where
  "validOptionalPort p \<longleftrightarrow> p = [] \<or> hd p = CHR '':'' \<and> list_all is_digit (tl p)"

definition parseHost :: "string \<Rightarrow> go_error + string" where
  "parseHost host =
     (if has_prefix host ''['' then
        (case cut_last CHR '']'' host of
           None \<Rightarrow> Inl (url_err ''missing ']' in host'')
         | Some (inside, colonPort) \<Rightarrow>
             if \<not> validOptionalPort colonPort then Inl (url_err ''invalid port after host'')
             else (case find_sub ''%25'' inside of
                     None \<Rightarrow> unescape UrlHost host
                   | Some (host1, zone) \<Rightarrow>
                       (case (unescape UrlHost host1, unescape UrlZone zone, unescape UrlHost (CHR '']'' # colonPort)) of
                          (Inl e, _, _) \<Rightarrow> Inl e
                        | (_, Inl e, _) \<Rightarrow> Inl e
                        | (_, _, Inl e) \<Rightarrow> Inl e
                        | (Inr a, Inr b, Inr c) \<Rightarrow> Inr (a @ b @ c))))
      else (case cut_last CHR '':'' host of
              None \<Rightarrow> unescape UrlHost host
            | Some (h, port) \<Rightarrow>
                if list_all is_digit port then unescape UrlHost host else Inl (url_err ''invalid port after host'')))"

definition user_char :: "char \<Rightarrow> bool" where
  "user_char c \<longleftrightarrow> is_alpha c \<or> is_digit c \<or> c \<in> set (''-._:~!$&()*+,;=%@'' @ [CHR 0x27])"

definition parseAuthority :: "string \<Rightarrow> go_error + string" where
  "parseAuthority authority =
     (case cut_last CHR ''@'' authority of
        None \<Rightarrow> parseHost authority
      | Some (userinfo, h) \<Rightarrow>
          (case parseHost h of
             Inl e \<Rightarrow> Inl e
           | Inr host \<Rightarrow>
               if \<not> list_all user_char userinfo then Inl (url_err ''net/url: invalid userinfo'')
               else (case cut CHR '':'' userinfo of
                       (name, password) \<Rightarrow>
                         (case (unescape UrlOther name, unescape UrlOther password) of
                            (Inl e, _) \<Rightarrow> Inl e
                          | (_, Inl e) \<Rightarrow> Inl e
                          | _ \<Rightarrow> Inr host))))"

record url =
  ur_Scheme :: string
  ur_Host :: string
  ur_Query :: string

text \<open>The path is behind the authority; its escapes are checked.\<close>

definition url_with_path :: "url \<Rightarrow> string \<Rightarrow> go_error + url" where
  "url_with_path u path = (case unescape UrlOther path of Inl e \<Rightarrow> Inl e | Inr p \<Rightarrow> Inr u)"

definition url_rest :: "string \<Rightarrow> string \<Rightarrow> string \<Rightarrow> go_error + url" where
  "url_rest scheme query rest =
     (let u = \<lparr>ur_Scheme = scheme, ur_Host = [], ur_Query = query\<rparr> in
      if \<not> has_prefix rest ''/'' \<and> scheme \<noteq> [] then Inr u
      else if \<not> has_prefix rest ''/'' \<and> CHR '':'' \<in> set (fst (cut CHR ''/'' rest))
      then Inl (url_err ''first path segment in URL cannot contain colon'')
      else if (scheme \<noteq> [] \<or> \<not> has_prefix rest ''///'') \<and> has_prefix rest ''//'' then
        (let s = drop 2 rest in
         case parseAuthority (takeWhile (\<lambda>c. c \<noteq> CHR ''/'') s) of
           Inl e \<Rightarrow> Inl e
         | Inr host \<Rightarrow> url_with_path (u\<lparr>ur_Host := host\<rparr>) (dropWhile (\<lambda>c. c \<noteq> CHR ''/'') s))
      else url_with_path u rest)"

definition url_parse_nofrag :: "string \<Rightarrow> go_error + url" where
  "url_parse_nofrag s =
     (if list_ex (\<lambda>c. of_char c < (32 :: nat) \<or> of_char c = (127 :: nat)) s
      then Inl (url_err ''net/url: invalid control character in URL'')
      else if s = ''*'' then Inr \<lparr>ur_Scheme = [], ur_Host = [], ur_Query = []\<rparr>
      else (case url_getScheme s of
              Inl e \<Rightarrow> Inl e
            | Inr (scheme, rest) \<Rightarrow>
                (case cut CHR ''?'' rest of
                   (path, query) \<Rightarrow> url_rest (map lower_char scheme) query path)))"

definition url_Parse :: "string \<Rightarrow> go_error + url" where
  "url_Parse s =
     (case cut CHR ''#'' s of
        (u, frag) \<Rightarrow>
          (case url_parse_nofrag u of
             Inl e \<Rightarrow> Inl e
           | Inr r \<Rightarrow> (case unescape UrlOther frag of Inl e \<Rightarrow> Inl e | Inr f \<Rightarrow> Inr r)))"

section \<open>A plain name behind a scheme\<close>

text \<open>Letters, digits and the marks that mean nothing anywhere in a URL.\<close>

definition plain_char :: "char \<Rightarrow> bool" where
  "plain_char c \<longleftrightarrow> is_alpha c \<or> is_digit c \<or> c \<in> set ''-_.~''"

lemma plain_char_range:
  assumes "plain_char c"
  shows "32 < (of_char c :: nat)" and "of_char c < (127 :: nat)" and "c \<notin> set ''%:/?#@[]''" and "\<not> host_escape c"
proof -
  have *: "of_char (CHR ''-'') = (45 :: nat)" "of_char (CHR ''_'') = (95 :: nat)" "of_char (CHR ''.'') = (46 :: nat)"
    "of_char (CHR ''~'') = (126 :: nat)" by code_simp+
  then show "32 < (of_char c :: nat)" "of_char c < (127 :: nat)"
    using assms by (auto simp: plain_char_def is_alpha_def is_digit_def Let_def)
  show "\<not> host_escape c" using assms by (auto simp: plain_char_def host_escape_def)
  show "c \<notin> set ''%:/?#@[]''" using assms by (auto simp: plain_char_def is_alpha_def is_digit_def)
qed

lemma unescape_plain: "list_all plain_char s \<Longrightarrow> unescape m s = Inr s"
  using plain_char_range by (induction s) auto

lemma cut_absent: "c \<notin> set s \<Longrightarrow> cut c s = (s, [])"
proof -
  assume "c \<notin> set s"
  then have "takeWhile (\<lambda>x. x \<noteq> c) s = s" "dropWhile (\<lambda>x. x \<noteq> c) s = []"
    by (auto simp: takeWhile_eq_all_conv)
  then show ?thesis by (simp only: cut_def list.sel)
qed

lemma plain_absent: "list_all plain_char s \<Longrightarrow> c \<in> set ''%:/?#@[]'' \<Longrightarrow> c \<notin> set s"
  using plain_char_range(3) by (auto simp: list_all_iff)

lemma parseHost_plain:
  assumes "list_all plain_char n"
  shows "parseHost n = Inr n"
proof -
  have "\<not> has_prefix n ''[''"
    using plain_absent [OF assms, of "CHR ''[''"] by (cases n) auto
  then show ?thesis
    using plain_absent [OF assms, of "CHR '':''"] unescape_plain [OF assms]
    by (simp add: parseHost_def cut_last_def)
qed

lemma url_getScheme_tun: "url_getScheme (''tun:'' @ s) = Inr (''tun'', s)"
  by (simp add: url_getScheme_def scheme_char_def is_alpha_def is_digit_def)

lemma url_parse_plain:
  assumes "list_all plain_char n"
  shows "url_Parse (''tun://'' @ n) = Inr \<lparr>ur_Scheme = ''tun'', ur_Host = n, ur_Query = []\<rparr>"
proof -
  note absent = plain_absent [OF assms]
  have cuts: "cut CHR ''#'' (''tun://'' @ n) = (''tun://'' @ n, [])" "cut CHR ''?'' (''//'' @ n) = (''//'' @ n, [])"
    using absent [of "CHR ''#''"] absent [of "CHR ''?''"] by (intro cut_absent; simp)+
  have ctl: "\<not> list_ex (\<lambda>c. of_char c < (32 :: nat) \<or> of_char c = (127 :: nat)) (''tun://'' @ n)"
    using assms plain_char_range(1,2) by (force simp: list_ex_iff list_all_iff)
  have slash: "takeWhile (\<lambda>c. c \<noteq> CHR ''/'') n = n" "dropWhile (\<lambda>c. c \<noteq> CHR ''/'') n = []"
    using absent [of "CHR ''/''"] by (auto simp: takeWhile_eq_all_conv)
  have "parseAuthority n = Inr n"
    using absent [of "CHR ''@''"] parseHost_plain [OF assms] by (simp add: parseAuthority_def cut_last_def)
  then have "url_rest ''tun'' [] (''//'' @ n) = Inr \<lparr>ur_Scheme = ''tun'', ur_Host = n, ur_Query = []\<rparr>"
    by (simp only: url_rest_def url_with_path_def has_prefix.simps append.simps drop_Suc list.sel slash Let_def)
      (simp add: slash numeral_2_eq_2)
  moreover have "url_getScheme (''tun://'' @ n) = Inr (''tun'', ''//'' @ n)"
    using url_getScheme_tun [of "''//'' @ n"] by simp
  moreover have "map lower_char ''tun'' = ''tun''" by code_simp
  ultimately have "url_parse_nofrag (''tun://'' @ n) = Inr \<lparr>ur_Scheme = ''tun'', ur_Host = n, ur_Query = []\<rparr>"
    using ctl cuts(2) by (simp add: url_parse_nofrag_def)
  with cuts(1) show ?thesis by (simp add: url_Parse_def)
qed

end
