(* ===== verification/Engine.thy ===== *)
theory Engine
  imports TunTunnel ClientConfig CoreStack Device Routes Logging NetipParse Url
begin

text \<open>
  \<open>src/client/tun/engine\<close> and \<open>Tun.Run\<close> of \<open>src/client/tun.go\<close>: the package's variables as a record, the
  device named by a string, the network stack over it, and the order in which the whole is brought up and
  down.
\<close>

section \<open>Parsing\<close>

datatype tun_dev = LinuxTun linux_tun | WireguardTun tun_device | FdDevice fd_dev

fun dev_Type :: "tun_dev \<Rightarrow> string" where
  "dev_Type (LinuxTun t) = TUN_Type"
| "dev_Type (WireguardTun t) = TUN_Type"
| "dev_Type (FdDevice f) = FD_Type"

fun dev_Name :: "(string \<Rightarrow> string \<times> go_error option) \<Rightarrow> tun_dev \<Rightarrow> string" where
  "dev_Name native (LinuxTun t) = TUN_Name_netstack t"
| "dev_Name native (WireguardTun t) = TUN_Name_wireguard native t"
| "dev_Name native (FdDevice f) = FD_Name f"

fun dev_Close :: "tun_dev \<Rightarrow> close_action list" where
  "dev_Close (LinuxTun t) = TUN_Close_netstack t"
| "dev_Close (WireguardTun t) = TUN_Close_wireguard t"
| "dev_Close (FdDevice f) = FD_Close f"

text \<open>The name a device was opened under.\<close>

fun dev_asked :: "tun_dev \<Rightarrow> string" where
  "dev_asked (LinuxTun t) = lt_name t"
| "dev_asked (WireguardTun t) = td_name t"
| "dev_asked (FdDevice f) = itoa_int (fd_fd f)"

fun dev_mtu :: "tun_dev \<Rightarrow> u32" where
  "dev_mtu (LinuxTun t) = lt_mtu t"
| "dev_mtu (WireguardTun t) = td_mtu t"
| "dev_mtu (FdDevice f) = fd_mtu f"

text \<open>What the platform provides.\<close>

record platform_sys =
  ps_goos :: string
  ps_linux :: linux_sys
  ps_create :: "string \<Rightarrow> int \<Rightarrow> go_error + unit"
  ps_wg_mtu :: "go_error + int"
  ps_guid_option :: "string \<Rightarrow> go_error + string"
  ps_guid :: "string \<Rightarrow> go_error option"

definition tun_Open :: "platform_sys \<Rightarrow> string \<Rightarrow> u32 \<Rightarrow> go_error + tun_dev" where
  "tun_Open sys name mtu =
     (if ps_goos sys = ''linux'' then map_sum id LinuxTun (Open_netstack (ps_linux sys) name mtu)
      else map_sum id WireguardTun (Open_wireguard (ps_goos sys) (ps_create sys) (ps_wg_mtu sys) name mtu))"

definition parseFD :: "platform_sys \<Rightarrow> url \<Rightarrow> u32 \<Rightarrow> go_error + tun_dev" where
  "parseFD sys u mtu =
     (let offset = (if ps_goos sys = ''ios'' then 4 else 0) in
      map_sum id FdDevice (Open_fd (ps_goos sys) (ps_linux sys) (ur_Host u) mtu offset))"

definition parseTUN :: "platform_sys \<Rightarrow> url \<Rightarrow> u32 \<Rightarrow> go_error + tun_dev" where
  "parseTUN sys u mtu =
     (if ps_goos sys = ''windows'' then
        (case ps_guid_option sys (ur_Query u) of
           Inl e \<Rightarrow> Inl e
         | Inr g \<Rightarrow>
             (case (if g \<noteq> [] then ps_guid sys g else None) of
                Some e \<Rightarrow> Inl e
              | None \<Rightarrow> tun_Open sys (ur_Host u) mtu))
      else tun_Open sys (ur_Host u) mtu)"

definition parseDevice :: "platform_sys \<Rightarrow> string \<Rightarrow> u32 \<Rightarrow> go_error + tun_dev" where
  "parseDevice sys s mtu =
     (let s1 = (if contains_str s ''://'' then s else ''tun://'' @ s) in
      case url_Parse s1 of
        Inl e \<Rightarrow> Inl e
      | Inr u \<Rightarrow>
          (let driver = map lower_char (ur_Scheme u) in
           if driver = ''fd'' then parseFD sys u mtu
           else if driver = ''tun'' then parseTUN sys u mtu
           else Inl (ErrText (''unsupported driver: '' @ driver))))"

text \<open>\<open>netip.Addr.IsMulticast\<close>, which looks through an address mapped from the other family.\<close>

fun addr_IsMulticast :: "addr \<Rightarrow> bool" where
  "addr_IsMulticast AddrZero = False"
| "addr_IsMulticast (Addr4 a b c d) = (a AND 0xf0 = 0xe0)"
| "addr_IsMulticast (Addr6 a b c d e f g h z) =
     (if (a, b, c, d, e, f) = (0, 0, 0, 0, 0, 0xffff) then drop_bit 12 g = 0xe else drop_bit 8 a = 0xff)"

definition trim_space :: "string \<Rightarrow> string" where
  "trim_space s = rev (dropWhile is_space (rev (dropWhile is_space s)))"

fun parse_groups :: "string list \<Rightarrow> go_error + addr list" where
  "parse_groups [] = Inr []"
| "parse_groups (p # ps) =
     (let ip = trim_space p in
      if ip = [] then parse_groups ps
      else
        (case ParseAddr ip of
           None \<Rightarrow> Inl (ErrText (''ParseAddr('' @ ip @ '')''))
         | Some a \<Rightarrow>
             if addr_IsMulticast a then map_sum id (Cons a) (parse_groups ps)
             else Inl (ErrText (''invalid multicast IP: '' @ addr_string a))))"

definition parseMulticastGroups :: "string \<Rightarrow> go_error + addr list" where
  "parseMulticastGroups s = parse_groups (split_char CHR '','' s)"

section \<open>The engine\<close>

text \<open>
  The variables of the packages \<open>engine\<close>, \<open>buffer\<close>, \<open>dialer\<close> and \<open>log\<close>. The stack is the list of calls
  that made it.
\<close>

record engine =
  en_Device :: "tun_dev option"
  en_Stack :: "stack_call list option"
  en_ArgoProxy :: "unit argo option"
  en_RelayBufferSize :: int
  en_InterfaceName :: string
  en_InterfaceIndex :: int
  en_log :: log_globals
  en_transport :: "(unit argo, transport_id \<times> origin_conn) tunnel option"

datatype netstack_result = NsReturn "go_error option" | NsFatal go_error | NsPanic

record netstack_env =
  ne_sys :: platform_sys
  ne_zap :: "string \<Rightarrow> go_error + int"
  ne_interface :: "string \<Rightarrow> go_error + (string \<times> int)"
  ne_stack :: stack_results
  ne_consts :: tcp_consts
  ne_nic :: nat

definition bind_interface :: "netstack_env \<Rightarrow> string \<Rightarrow> engine \<Rightarrow> go_error + engine" where
  "bind_interface env interfaceName en =
     (if interfaceName = [] then Inr en
      else
        (case ne_interface env interfaceName of
           Inl e \<Rightarrow> Inl e
         | Inr (name, idx) \<Rightarrow>
             Inr (en\<lparr>en_InterfaceName := name, en_InterfaceIndex := signed_take_bit 31 idx\<rparr>)))"

definition open_device :: "netstack_env \<Rightarrow> string \<Rightarrow> int \<Rightarrow> engine \<Rightarrow> netstack_result \<times> engine" where
  "open_device env device mtu en =
     (case parseDevice (ne_sys env) device (of_int mtu) of
        Inl e \<Rightarrow> (NsFatal e, en\<lparr>en_Device := None\<rparr>)
      | Inr d \<Rightarrow>
          (case CreateStack (ne_stack env) (ne_consts env) [] (ne_nic env) [] of
             (Some e, calls) \<Rightarrow> (NsReturn (Some e), en\<lparr>en_Device := Some d, en_Stack := None\<rparr>)
           | (None, calls) \<Rightarrow> (NsReturn None, en\<lparr>en_Device := Some d, en_Stack := Some calls\<rparr>)))"

definition HandleNetStack :: "netstack_env \<Rightarrow> unit argo \<Rightarrow> string \<Rightarrow> string \<Rightarrow> string \<Rightarrow> int \<Rightarrow> engine
    \<Rightarrow> netstack_result \<times> engine" where
  "HandleNetStack env argoProxy device interfaceName logLevel mtu en =
     (let en1 = en\<lparr>en_ArgoProxy := Some argoProxy, en_RelayBufferSize := mtu\<rparr> in
      case ParseLevel (ne_zap env) logLevel of
        Inl e \<Rightarrow> (NsReturn (Some e), en1)
      | Inr level \<Rightarrow>
          (case NewLeveled level of
             Inl e \<Rightarrow> (NsPanic, en1)
           | Inr g \<Rightarrow>
               (case bind_interface env interfaceName (en1\<lparr>en_log := SetLogger g (en_log en1)\<rparr>) of
                  Inl e \<Rightarrow> (NsReturn (Some e), en1\<lparr>en_log := SetLogger g (en_log en1)\<rparr>)
                | Inr en2 \<Rightarrow>
                    open_device env device mtu (en2\<lparr>en_transport := Some (ProcessAsync (Tunnel_New argoProxy))\<rparr>))))"

text \<open>\<open>stop\<close>: the device, the proxy in a goroutine of its own, then the stack, for which it waits.\<close>

datatype stop_action = DeviceAction close_action | GoCloseProxy | CloseStack | WaitStack

definition engine_stop :: "engine \<Rightarrow> stop_action list" where
  "engine_stop en =
     (case en_Device en of Some d \<Rightarrow> map DeviceAction (dev_Close d) | None \<Rightarrow> []) @
     (case en_ArgoProxy en of Some p \<Rightarrow> [GoCloseProxy] | None \<Rightarrow> []) @
     (case en_Stack en of Some s \<Rightarrow> [CloseStack, WaitStack] | None \<Rightarrow> [])"

section \<open>Running the TUN device\<close>

text \<open>
  \<open>Tun.Run\<close>: build the transport (which panics for a negative pool size), start the network stack and run
  the commands that set addresses and routes, or end the program.
\<close>

fun goos_platform :: "string \<Rightarrow> platform" where
  "goos_platform goos =
     (if goos = ''windows'' then Windows else if goos = ''darwin'' then Darwin
      else if goos = ''freebsd'' then FreeBSD else Linux)"

definition Tun_Run :: "netstack_env \<Rightarrow> command_output \<Rightarrow> params \<Rightarrow> tun_cfg \<Rightarrow> engine \<Rightarrow> tun_result \<times> engine" where
  "Tun_Run env out_of p t en =
     (case NewArgo p of
        None \<Rightarrow> (TunPanic, en)
      | Some argoProxy \<Rightarrow>
          (case HandleNetStack env argoProxy (tu_Name t) (tu_Interface t) (tu_LogLevel t) (tun_mtu t) en of
             (NsPanic, en') \<Rightarrow> (TunPanic, en')
           | (NsFatal e, en') \<Rightarrow> (TunFatal e, en')
           | (NsReturn (Some e), en') \<Rightarrow> (TunFatal e, en')
           | (NsReturn None, en') \<Rightarrow>
               (TunConfigured (ConfigureTun (goos_platform (ps_goos (ne_sys env))) out_of (tu_Name t)
                  (tun_ipv4 (ps_goos (ne_sys env)) t) (tun_ipv6 t) (tu_Routes t) (tu_ExRoutes t)), en')))"

text \<open>
  \<open>Stop\<close> never gets an error, because \<open>stop\<close> always returns nil. \<open>DeleteTunDevice\<close>: what \<open>Stop\<close> does, and
  the commands run after it.
\<close>

definition Stop :: "engine \<Rightarrow> stop_action list" where
  "Stop en = engine_stop en"

definition DeleteTunDevice :: "string \<Rightarrow> string \<Rightarrow> engine \<Rightarrow> stop_action list \<times> string list list" where
  "DeleteTunDevice goos tunName en =
     (Stop en,
      if goos \<noteq> ''linux'' then []
      else [[''ip'', ''link'', ''set'', tunName, ''down''],
            [''ip'', ''tuntap'', ''del'', tunName, ''mode'', ''tun'']])"

section \<open>Lemmas\<close>

lemma tun_Open_name: "tun_Open sys name mtu = Inr d \<Longrightarrow> dev_asked d = name \<and> dev_Type d = TUN_Type"
  by (auto simp: tun_Open_def Open_netstack_def Open_wireguard_def Let_def
      split: if_splits sum.splits option.splits)

text \<open>On Linux the MTU is the one that was asked for, if the kernel reports what was set.\<close>

lemma linux_tun_mtu:
  assumes "tun_Open sys name mtu = Inr d" "ps_goos sys = ''linux''" "0 < mtu"
    and "\<And>fd. ls_ioctl (ps_linux sys) fd name mtu = None \<Longrightarrow> ls_mtu (ps_linux sys) name = Inr mtu"
  shows "dev_mtu d = mtu"
  using assms
  by (auto simp: tun_Open_def Open_netstack_def setMTU_def split: if_splits sum.splits option.splits)

text \<open>A plain name is the name the device is asked for.\<close>

lemma plain_no_scheme: "list_all plain_char s \<Longrightarrow> \<not> contains_str s ''://''"
  using plain_absent [of s "CHR '':''"] set_mono_sublist [of "''://''" s] by (auto simp: contains_str_iff)

lemma parseDevice_name:
  assumes "parseDevice sys s mtu = Inr d" and "list_all plain_char s"
  shows "dev_asked d = s \<and> dev_Type d = TUN_Type"
proof -
  have "map lower_char ''tun'' = ''tun''" by code_simp
  with assms have "parseTUN sys \<lparr>ur_Scheme = ''tun'', ur_Host = s, ur_Query = []\<rparr> mtu = Inr d"
    using url_parse_plain [of s] plain_no_scheme [of s] by (simp add: parseDevice_def)
  then have "tun_Open sys s mtu = Inr d"
    by (auto simp: parseTUN_def split: if_splits sum.splits option.splits)
  then show ?thesis by (rule tun_Open_name)
qed

text \<open>
  A driver other than the two known ones is refused, and text behind a mark of the URL syntax is not part of the
  name.
\<close>

lemma parseDevice_unsupported:
  "\<lbrakk>contains_str s ''://''; url_Parse s = Inr u; map lower_char (ur_Scheme u) \<notin> {''fd'', ''tun''}\<rbrakk> \<Longrightarrow>
   parseDevice sys s mtu = Inl (ErrText (''unsupported driver: '' @ map lower_char (ur_Scheme u)))"
  by (simp add: parseDevice_def Let_def)

lemma parseDevice_examples:
  "url_Parse ''FD://7'' = Inr \<lparr>ur_Scheme = ''fd'', ur_Host = ''7'', ur_Query = []\<rparr>"
  "url_Parse ''tun://lan@tun0?guid=1'' = Inr \<lparr>ur_Scheme = ''tun'', ur_Host = ''tun0'', ur_Query = ''guid=1''\<rparr>"
  "url_Parse ''tun://my tun'' = Inl (url_err ''invalid character in host name'')"
  by code_simp+

lemma parse_groups_multicast: "parse_groups ps = Inr as \<Longrightarrow> \<forall>a\<in>set as. addr_IsMulticast a"
proof (induction ps arbitrary: "as")
  case (Cons p ps)
  then show ?case
    by (cases "parse_groups ps") (auto simp: Let_def split: if_splits option.splits)
qed simp

lemma bind_interface_frame:
  "bind_interface env ifn en = Inr en' \<Longrightarrow> en_ArgoProxy en' = en_ArgoProxy en \<and>
     en_RelayBufferSize en' = en_RelayBufferSize en \<and> en_Stack en' = en_Stack en \<and> en_log en' = en_log en"
  by (auto simp: bind_interface_def split: if_splits sum.splits)

lemma open_device_cases:
  assumes "open_device env device mtu en = (r, en')"
  shows "(\<exists>d made. r = NsReturn None \<and> parseDevice (ne_sys env) device (of_int mtu) = Inr d \<and>
            CreateStack (ne_stack env) (ne_consts env) [] (ne_nic env) [] = (None, made) \<and>
            en' = en\<lparr>en_Device := Some d, en_Stack := Some made\<rparr>) \<or>
         (\<exists>e. r = NsFatal e \<and> en_Stack en' = en_Stack en) \<or> (\<exists>e. r = NsReturn (Some e) \<and> en_Stack en' = None)"
  using assms by (auto simp: open_device_def split: sum.splits prod.splits option.splits)

lemma stack_complete:
  assumes "CreateStack res k [] nic groups = (None, made)"
  shows "CreateNIC nic \<in> set made \<and> {tcp_handler, SetUDPHandler} \<subseteq> set (calls_before (CreateNIC nic) made)"
proof -
  have all: "made = map fst (concat (stack_options k [] nic groups))"
    using assms run_option_all [of res "concat (stack_options k [] nic groups)"] by (simp add: CreateStack_run)
  have nic: "CreateNIC nic \<in> set made" unfolding all stack_calls by simp
  with handlers_before_NIC [of made k "[]" nic groups] all show ?thesis by simp
qed

lemma netstack_success:
  assumes "HandleNetStack env ws device ifn lvl mtu en = (NsReturn None, en')"
  shows "\<exists>d made. parseDevice (ne_sys env) device (of_int mtu) = Inr d \<and>
    CreateStack (ne_stack env) (ne_consts env) [] (ne_nic env) [] = (None, made) \<and>
    en_Device en' = Some d \<and> en_Stack en' = Some made \<and> en_RelayBufferSize en' = mtu \<and>
    en_ArgoProxy en' = Some ws \<and> en_transport en' = Some (ProcessAsync (Tunnel_New ws))"
proof -
  from assms obtain g en2 where b: "bind_interface env ifn
        (en\<lparr>en_ArgoProxy := Some ws, en_RelayBufferSize := mtu, en_log := SetLogger g (en_log en)\<rparr>) = Inr en2"
    and o': "open_device env device mtu (en2\<lparr>en_transport := Some (ProcessAsync (Tunnel_New ws))\<rparr>) = (NsReturn None, en')"
    by (auto simp: HandleNetStack_def Let_def split: sum.splits)
  from bind_interface_frame [OF b] open_device_cases [OF o'] show ?thesis by auto
qed

lemma netstack_failure:
  assumes "\<And>s l. ne_zap env s = Inr l \<Longrightarrow> -1 \<le> l \<and> l \<le> 5"
    and "HandleNetStack env ws device ifn lvl mtu en = (n, en')" "n \<noteq> NsReturn None"
  shows "n \<noteq> NsPanic \<and> (en_Stack en' = en_Stack en \<or> en_Stack en' = None)"
proof (cases "ParseLevel (ne_zap env) lvl")
  case (Inl e)
  with assms(2) show ?thesis by (auto simp: HandleNetStack_def Let_def)
next
  case (Inr level)
  have "\<exists>g. NewLeveled level = Inr g"
    by (rule parsed_level_has_logger [of "ne_zap env" lvl level, OF _ Inr]) (rule assms(1))
  then obtain g where g: "NewLeveled level = Inr g" by blast
  let ?en = "en\<lparr>en_ArgoProxy := Some ws, en_RelayBufferSize := mtu, en_log := SetLogger g (en_log en)\<rparr>"
  show ?thesis
  proof (cases "bind_interface env ifn ?en")
    case (Inl e)
    with Inr g assms(2) show ?thesis by (auto simp: HandleNetStack_def Let_def)
  next
    case b: (Inr en2)
    with Inr g assms(2) have "open_device env device mtu (en2\<lparr>en_transport := Some (ProcessAsync (Tunnel_New ws))\<rparr>) = (n, en')"
      by (simp add: HandleNetStack_def Let_def)
    from open_device_cases [OF this] bind_interface_frame [OF b] assms(3) show ?thesis by auto
  qed
qed

section \<open>Properties\<close>

text \<open>
  C13. Bringing the TUN device up. It panics exactly for a negative pool size. Addresses and routes are
  configured only after the device, under the configured name, and the stack exist; the stack's handlers
  were installed before its NIC; the relays use buffers of the configured MTU, and sessions
  go through the started transport with the proxy of these parameters, so that stopping closes the
  device, the proxy and the stack, in this order. In every other case no command is run, the
  program ends with the error, and no new stack is left. zap's parser is taken to return zap's levels only, and
  the device's name to be plain: of letters, digits and marks without a meaning in a URL.
\<close>

theorem tun_start:
  assumes zap: "\<And>s l. ne_zap env s = Inr l \<Longrightarrow> -1 \<le> l \<and> l \<le> 5"
    and name: "list_all plain_char (tu_Name t)"
    and run: "Tun_Run env out_of p t en = (r, en')"
  shows "(r = TunPanic \<longleftrightarrow> pr_PoolSize p < 0) \<and>
    (\<forall>cmds. r = TunConfigured cmds \<longrightarrow>
      (\<exists>d made ws. en_Device en' = Some d \<and> dev_asked d = tu_Name t \<and> en_Stack en' = Some made \<and>
        {tcp_handler, SetUDPHandler} \<subseteq> set (calls_before (CreateNIC (ne_nic env)) made) \<and> CreateNIC (ne_nic env) \<in> set made \<and>
        en_RelayBufferSize en' = tun_mtu t \<and> NewArgo p = Some ws \<and>
        en_transport en' = Some (ProcessAsync (Tunnel_New ws)) \<and>
        engine_stop en' = map DeviceAction (dev_Close d) @ [GoCloseProxy, CloseStack, WaitStack] \<and>
        cmds = ConfigureTun (goos_platform (ps_goos (ne_sys env))) out_of (tu_Name t)
          (tun_ipv4 (ps_goos (ne_sys env)) t) (tun_ipv6 t) (tu_Routes t) (tu_ExRoutes t))) \<and>
    ((\<forall>cmds. r \<noteq> TunConfigured cmds) \<longrightarrow> en_Stack en' = en_Stack en \<or> en_Stack en' = None)"
proof (cases "NewArgo p :: unit argo option")
  case None
  then have "pr_PoolSize p < 0" by (auto simp: NewArgo_def NewWebsocket_def Let_def split: if_splits)
  with None run show ?thesis by (auto simp: Tun_Run_def)
next
  case (Some ws)
  then have pool: "\<not> pr_PoolSize p < 0" by (auto simp: NewArgo_def NewWebsocket_def Let_def split: if_splits)
  obtain n where n: "HandleNetStack env ws (tu_Name t) (tu_Interface t) (tu_LogLevel t) (tun_mtu t) en = (n, en')"
    using run Some by (auto simp: Tun_Run_def split: prod.splits netstack_result.splits option.splits)
  show ?thesis
  proof (cases "n = NsReturn None")
    case True
    from netstack_success [OF n [unfolded True]] obtain d made where
      d: "parseDevice (ne_sys env) (tu_Name t) (of_int (tun_mtu t)) = Inr d"
      and made: "CreateStack (ne_stack env) (ne_consts env) [] (ne_nic env) [] = (None, made)"
      and en': "en_Device en' = Some d" "en_Stack en' = Some made" "en_RelayBufferSize en' = tun_mtu t"
        "en_ArgoProxy en' = Some ws" "en_transport en' = Some (ProcessAsync (Tunnel_New ws))" by blast
    have "dev_asked d = tu_Name t" using parseDevice_name [OF d name] by simp
    with en' stack_complete [OF made] run n Some True pool show ?thesis
      by (auto simp: Tun_Run_def engine_stop_def)
  next
    case False
    with netstack_failure [OF zap n] run n Some pool show ?thesis
      by (auto simp: Tun_Run_def split: netstack_result.splits option.splits)
  qed
qed

definition demo_linux :: linux_sys where
  "demo_linux = \<lparr>ls_open = (\<lambda>_. Inr 7), ls_socket = Inr 8, ls_ifreq = (\<lambda>_. None), ls_ioctl = (\<lambda>_ _ _. None),
     ls_mtu = (\<lambda>_. Inr 1280), ls_endpoint = (\<lambda>_ _. None)\<rparr>"

definition demo_netstack :: netstack_env where
  "demo_netstack = \<lparr>ne_sys = \<lparr>ps_goos = ''linux'', ps_linux = demo_linux, ps_create = (\<lambda>_ _. Inr ()), ps_wg_mtu = Inr 1280,
       ps_guid_option = (\<lambda>_. Inr []), ps_guid = (\<lambda>_. None)\<rparr>,
     ne_zap = (\<lambda>_. Inr 0), ne_interface = (\<lambda>n. Inr (n, 2)), ne_stack = (\<lambda>_. None), ne_consts = demo_consts, ne_nic = 1\<rparr>"

definition demo_tun :: tun_cfg where
  "demo_tun = \<lparr>tu_Enable = True, tu_Name = ''cftun0'', tu_Interface = [], tu_LogLevel = ''info'', tu_Routes = [''10.0.0.0/8''],
     tu_ExRoutes = [], tu_Ipv4 = [], tu_Ipv6 = [], tu_MTU = 0\<rparr>"

definition demo_params :: params where
  "demo_params = \<lparr>pr_Scheme = ''wss'', pr_CdnIP = ''104.16.0.1'', pr_Url = ''example.com'', pr_Port = 443, pr_PoolSize = 2\<rparr>"

definition demo_engine :: engine where
  "demo_engine = \<lparr>en_Device = None, en_Stack = None, en_ArgoProxy = None, en_RelayBufferSize = 0, en_InterfaceName = [],
     en_InterfaceIndex = 0, en_log = \<lparr>lg_globalL = ProductionLogger 0, lg_globalS = ProductionLogger 0, lg_emitter = Some (ProductionLogger 0)\<rparr>, en_transport = None\<rparr>"

text \<open>In this environment the device comes up with any pool size that is not negative.\<close>

lemma demo_device_up:
  assumes "tu_Name t = ''cftun0''" "tu_Interface t = []" "0 \<le> pr_PoolSize p"
  shows "\<exists>cmds. fst (Tun_Run demo_netstack out_of p t en) = TunConfigured cmds"
proof -
  have plain: "list_all plain_char ''cftun0''" and c: "map lower_char ''tun'' = ''tun''" by code_simp+
  note url = url_parse_plain [OF plain] plain_no_scheme [OF plain]
  obtain made where made: "CreateStack (\<lambda>_. None) demo_consts [] 1 [] = (None, made)"
    using run_option_success [of "\<lambda>_. None" "concat (stack_options demo_consts [] 1 [])"]
    by (cases "CreateStack (\<lambda>_. None) demo_consts [] 1 []") (simp add: CreateStack_run failing_def)
  show ?thesis
    using assms c made url
    by (auto simp: Tun_Run_def NewArgo_def NewWebsocket_def HandleNetStack_def demo_netstack_def ParseLevel_def
        NewLeveled_def SilentLevel_def bind_interface_def open_device_def parseDevice_def parseTUN_def tun_Open_def
        Open_netstack_def setMTU_def demo_linux_def Let_def)
qed

theorem tun_start_witness:
  "\<exists>en' d cmds. Tun_Run demo_netstack (\<lambda>_. Inr []) demo_params demo_tun demo_engine = (TunConfigured cmds, en') \<and>
     en_Device en' = Some d \<and> dev_asked d = ''cftun0'' \<and> en_RelayBufferSize en' = 1280 \<and>
     engine_stop en' = map DeviceAction (dev_Close d) @ [GoCloseProxy, CloseStack, WaitStack]"
proof -
  obtain r en' where run: "Tun_Run demo_netstack (\<lambda>_. Inr []) demo_params demo_tun demo_engine = (r, en')"
    by (cases "Tun_Run demo_netstack (\<lambda>_. Inr []) demo_params demo_tun demo_engine")
  have plain: "list_all plain_char ''cftun0''" by code_simp
  have "\<exists>cmds. r = TunConfigured cmds"
    using demo_device_up [of demo_tun demo_params "\<lambda>_. Inr []" demo_engine] run
    by (simp add: demo_tun_def demo_params_def)
  moreover have "\<And>s l. ne_zap demo_netstack s = Inr l \<Longrightarrow> -1 \<le> l \<and> l \<le> 5"
    by (simp add: demo_netstack_def)
  ultimately show ?thesis
    using tun_start [of demo_netstack demo_tun "\<lambda>_. Inr []" demo_params demo_engine r en', OF _ _ run] plain run
    by (auto simp: demo_netstack_def demo_tun_def tun_mtu_def)
qed

end
