(* ===== verification/Program.thy ===== *)
theory Program
  imports ConfigFile Engine
begin

text \<open>
  \<open>src/main.go\<close>: what the program does with its command line and configuration file, and on the signal
  that ends it.
\<close>

section \<open>The program\<close>

record flags =
  fl_configFile :: string
  fl_token :: string
  fl_isQuick :: bool
  fl_proxy4 :: bool
  fl_proxy6 :: bool
  fl_port :: int
  fl_showVersion :: bool

text \<open>The flags with their shorthands and defaults, as registered with pflag, which parses the command line.\<close>

datatype flag_value = FlagString string | FlagBool bool | FlagInt int

definition flag_table :: "(string \<times> string \<times> flag_value) list" where
  "flag_table =
     [(''config'', ''c'', FlagString ''./config.json''), (''token'', ''t'', FlagString []),
      (''quick'', ''q'', FlagBool False), (''proxy4'', ''4'', FlagBool False), (''proxy6'', ''6'', FlagBool False),
      (''port'', ''p'', FlagInt 51280), (''version'', ''v'', FlagBool False)]"

definition usage :: string where
  \<open>usage = join_lines (''Usage:'' # map (\<lambda>(flag, text). flag @ CHR 0x09 # text)
    [(''  -c,--config'', ''Specify the path to the config file.(default: "./config.json")''),
     (''  -t,--token'', ''When a token is provided, the configuration file will be ignored and the program will run in server mode only.''),
     (''  -q,--quick'', ''Temporary server, no Cloudflare account required, based on try.cloudflare.com.''),
     (''  -4,--proxy4'', ''Use the WARP proxy for IPv4 traffic; Ignored when using a configuration file.''),
     (''  -6,--proxy6'', ''Use the WARP proxy for IPv4 traffic; Ignored when using a configuration file.''),
     (''  -p,--port'', ''Set the local port for WARP; Ignored when using a configuration file.''),
     (''  -v,--version'', ''Display the current binary file version.'')])\<close>

text \<open>The package's variables that the linker may set, and what \<open>--version\<close> prints.\<close>

record build_vars =
  bv_Version :: string
  bv_BuildDate :: string
  bv_BuildType :: string
  bv_CloudflaredVersion :: string

definition default_build :: build_vars where
  "default_build = \<lparr>bv_Version = ''unknown'', bv_BuildDate = ''unknown'', bv_BuildType = ''DEV'',
     bv_CloudflaredVersion = ''2025.4.1''\<rparr>"

definition printVersion :: "build_vars \<Rightarrow> build_info \<Rightarrow> string" where
  "printVersion bv bi = join_lines
     [''GoOS: '' @ bi_GoOS bi, ''GoArch: '' @ bi_GoArch bi, ''GoVersion: '' @ bi_GoVersion bi,
      ''BuildType: '' @ bi_BuildType bi, ''CftunVersion: '' @ bv_Version bv, ''BuildDate: '' @ bv_BuildDate bv]"

text \<open>\<open>here\<close> is the path of \<open>config.json\<close> in the current directory.\<close>

definition parseConfig :: "string \<Rightarrow> files \<Rightarrow> string \<Rightarrow> go_error + raw_config" where
  "parseConfig here fs configFile =
     (let name = (if configFile = [] then here else configFile) in
      case read_file fs name of
        Inl e \<Rightarrow> Inl e
      | Inr buf \<Rightarrow>
          if buf = [] then Inl (ErrText (''configuration file '' @ name @ '' is empty''))
          else (case json_Unmarshal raw_decoder buf zero_raw of
                  (rawCfg, None) \<Rightarrow> Inr rawCfg
                | (rawCfg, Some e) \<Rightarrow> Inl e))"

datatype main_action = PrintVersion string | StartClient client_cfg | StartServer server_cfg

text \<open>
  The machine the program runs on: the runtime's strings, the path of \<open>config.json\<close> in the current
  directory, the files, and what the TUN device's packages see of the system, with their variables at the
  start.
\<close>

record machine =
  mc_goVersion :: string
  mc_goArch :: string
  mc_here :: string
  mc_files :: files
  mc_net :: netstack_env
  mc_output :: command_output
  mc_engine :: engine

definition machine_tun :: "machine \<Rightarrow> tun_cfg \<Rightarrow> params \<Rightarrow> tun_result" where
  "machine_tun mc t p = fst (Tun_Run (mc_net mc) (mc_output mc) p t (mc_engine mc))"

text \<open>
  What \<open>main\<close> starts, and what it keeps for the end: whether the tunnel is temporary and the device's
  name. The client's \<open>Run\<close> is called in place: its panic, or the end that \<open>Tun.Run\<close> puts to the program
  when the device does not come up, is before any server is started.
\<close>

datatype main_result =
    MainFatal go_error
  | MainExit "main_action list"
  | MainPanic "main_action list"
  | MainWaits "main_action list" bool string

definition command_line :: "flags \<Rightarrow> main_result" where
  "command_line f =
     (let warp = (if fl_proxy4 f \<or> fl_proxy6 f
                  then Some \<lparr>wp_Auto = True, wp_Port = of_int (fl_port f), wp_Endpoint = [], wp_IPv4 = [], wp_IPv6 = [],
                    wp_PrivateKey = [], wp_PublicKey = [], wp_Reserved = None, wp_Proxy4 = fl_proxy4 f,
                    wp_Proxy6 = fl_proxy6 f\<rparr>
                  else None);
          token = (if fl_isQuick f then ''quick'' else fl_token f);
          isQuick = (fl_isQuick f \<or> token = ''quick'') in
      MainWaits [StartServer \<lparr>sv_EdgeIPs = [], sv_Token = token, sv_HaConn = 4, sv_BindAddress = [], sv_Warp = warp\<rparr>]
        isQuick [])"

definition name_tun :: "client_cfg \<Rightarrow> client_cfg \<times> string" where
  "name_tun c =
     (case cc_Tun c of
        Some t \<Rightarrow>
          if tu_Enable t then
            (let name = (if tu_Name t = [] then ''cftun0'' else tu_Name t)
             in (c\<lparr>cc_Tun := Some (t\<lparr>tu_Name := name\<rparr>)\<rparr>, name))
          else (c, [])
      | None \<Rightarrow> (c, []))"

definition config_file :: "machine \<Rightarrow> flags \<Rightarrow> raw_config \<Rightarrow> main_result" where
  "config_file mc f raw =
     (let (cs, tunName, ended) = (case rc_Client raw of
             Some c \<Rightarrow>
               (case name_tun c of
                  (c', n) \<Rightarrow> ([StartClient c'], n, snd (snd (Config_Run (machine_tun mc) c'))))
           | None \<Rightarrow> ([], [], ClientRuns));
          (ss, isQuick) = (case rc_Server raw of
             Some s \<Rightarrow> ([StartServer s], fl_isQuick f \<or> sv_Token s = ''quick'')
           | None \<Rightarrow> ([], fl_isQuick f)) in
      case ended of
        ClientPanics \<Rightarrow> MainPanic cs
      | ClientFatal e \<Rightarrow> MainFatal e
      | ClientRuns \<Rightarrow> MainWaits (cs @ ss) isQuick tunName)"

text \<open>The servers started get the same build information.\<close>

definition main :: "build_vars \<Rightarrow> machine \<Rightarrow> flags \<Rightarrow> main_result" where
  "main bv mc f =
     (let bInfo = GetBuildInfo (ps_goos (ne_sys (mc_net mc))) (mc_goVersion mc) (mc_goArch mc) (bv_BuildType bv)
            (bv_CloudflaredVersion bv) in
      if fl_showVersion f then MainExit [PrintVersion (printVersion bv bInfo)]
      else if fl_token f \<noteq> [] \<or> fl_isQuick f then command_line f
      else (case parseConfig (mc_here mc) (mc_files mc) (fl_configFile f) of
              Inl e \<Rightarrow> MainFatal e
            | Inr raw \<Rightarrow> config_file mc f raw))"

text \<open>On the signal: save the temporary tunnel, take the device down.\<close>

datatype end_action = SaveQuick | DeleteTun string

definition on_signal :: "bool \<Rightarrow> string \<Rightarrow> end_action list" where
  "on_signal isQuick tunName =
     (if isQuick then [SaveQuick] else []) @ (if tunName \<noteq> [] then [DeleteTun tunName] else [])"

section \<open>Lemmas\<close>

lemma run_tunnels_panic: "snd (snd (run_tunnels url ts)) \<longleftrightarrow> None \<in> set ts"
  by (induction url ts rule: run_tunnels.induct) (auto split: prod.splits)

lemma Config_Run_end:
  "snd (snd (Config_Run tun_run c)) =
     (case device_result tun_run c of
        TunPanic \<Rightarrow> ClientPanics
      | TunFatal e \<Rightarrow> ClientFatal e
      | TunConfigured cmds \<Rightarrow> if None \<in> set (cc_Tunnels c) then ClientPanics else ClientRuns)"
  using run_tunnels_panic [of "cc_GlobalUrl c" "cc_Tunnels c"]
  by (auto simp: Config_Run_def Let_def split: tun_result.splits prod.splits)

text \<open>A negative pool size is one of the reasons for a panic.\<close>

lemma negative_pool:
  assumes "cc_Tun c = Some t" "tu_Enable t" "cc_PoolSize c < 0"
  shows "device_result (machine_tun mc) c = TunPanic"
proof -
  have "NewArgo (tun_params c) = (None :: unit argo option)"
    using assms(3) by (simp add: NewArgo_def NewWebsocket_def tun_params_def getPoolSize_def Let_def)
  then show ?thesis using assms(1,2) by (simp add: device_result_def machine_tun_def Tun_Run_def)
qed

text \<open>What is named for the end: the device of an enabled client, under the name it is started with.\<close>

lemma name_tun_device:
  "name_tun c = (c', n) \<Longrightarrow>
   (n \<noteq> [] \<and> n = m) \<longleftrightarrow> (\<exists>t. cc_Tun c' = Some t \<and> tu_Enable t \<and> tu_Name t = m)"
  by (auto simp: name_tun_def Let_def split: option.splits if_splits)

lemma on_signal_save: "SaveQuick \<in> set (on_signal q n) \<longleftrightarrow> q"
  by (simp add: on_signal_def)

lemma on_signal_delete: "DeleteTun m \<in> set (on_signal q n) \<longleftrightarrow> n \<noteq> [] \<and> n = m"
  by (auto simp: on_signal_def)

text \<open>With a token or \<open>--quick\<close> the configuration file is not read and no client is started.\<close>

lemma main_command_line:
  assumes "fl_token f \<noteq> [] \<or> fl_isQuick f" and "\<not> fl_showVersion f"
  shows "\<exists>s. main bv mc f = MainWaits [StartServer s] (sv_Token s = ''quick'') []"
  using assms by (auto simp: main_def command_line_def Let_def)

lemma parse_config_written:
  assumes "raw_fits r" and "enc = json_compact \<or> enc = json_indent"
    and "read_file fs name = Inr (string_bytes (enc (raw_json r)))" and "name \<noteq> []"
  shows "parseConfig here fs name = Inr r"
proof -
  have "enc (raw_json r) \<noteq> []"
    using assms(2) by (auto simp: json_compact_def json_indent_def raw_json_def jobj_def)
  then show ?thesis
    using assms(3,4) raw_config_reread [OF assms(1,2)] by (simp add: parseConfig_def string_bytes_def)
qed

section \<open>Properties\<close>

text \<open>
  C36. From the configuration file to the end of the program. A text that spells out a configuration,
  compact or indented, runs exactly its client, with the device's default name filled in, and only when
  that has returned its server. When the client's TUN device panics, as it does for a negative pool size,
  or ends the program with an error, the program ends so, and no server is started; a \<open>null\<close> in the list
  of tunnels makes the client panic too. Otherwise, on the signal, the temporary tunnel is saved exactly
  when the server is \<open>quick\<close>, and a TUN device is taken down exactly when the client was started with one,
  under the name it was started with. The texts hold valid UTF-8 and integers of their width.
\<close>

theorem config_started:
  assumes "raw_fits r" and "enc = json_compact \<or> enc = json_indent"
    and "read_file (mc_files mc) (fl_configFile f) = Inr (string_bytes (enc (raw_json r)))" and "fl_configFile f \<noteq> []"
    and "fl_token f = []" and "\<not> fl_isQuick f" and "\<not> fl_showVersion f"
    and "clients = (case rc_Client r of Some c \<Rightarrow> [fst (name_tun c)] | None \<Rightarrow> [])"
    and "servers = (case rc_Server r of Some s \<Rightarrow> [s] | None \<Rightarrow> [])"
  shows "(case map (device_result (machine_tun mc)) clients of
      TunPanic # _ \<Rightarrow> main bv mc f = MainPanic (map StartClient clients)
    | TunFatal e # _ \<Rightarrow> main bv mc f = MainFatal e
    | _ \<Rightarrow>
       if \<exists>c \<in> set clients. None \<in> set (cc_Tunnels c)
       then main bv mc f = MainPanic (map StartClient clients)
       else \<exists>q tun. main bv mc f = MainWaits (map StartClient clients @ map StartServer servers) q tun \<and>
         (SaveQuick \<in> set (on_signal q tun) \<longleftrightarrow> ''quick'' \<in> sv_Token ` set servers) \<and>
         (\<forall>n. DeleteTun n \<in> set (on_signal q tun) \<longleftrightarrow>
           (\<exists>c \<in> set clients. \<exists>t. cc_Tun c = Some t \<and> tu_Enable t \<and> tu_Name t = n))) \<and>
    ((\<exists>c \<in> set clients. \<exists>t. cc_Tun c = Some t \<and> tu_Enable t \<and> cc_PoolSize c < 0) \<longrightarrow>
      main bv mc f = MainPanic (map StartClient clients))"
proof -
  have main: "main bv mc f = config_file mc f r"
    using parse_config_written [OF assms(1-4)] assms(5-7) by (simp add: main_def)
  show ?thesis
  proof (cases "rc_Client r")
    case None
    then show ?thesis
      using assms(6,8,9) by (simp add: main config_file_def on_signal_save on_signal_delete eq_commute [of "''quick''"]
        split: option.split)
  next
    case (Some c)
    obtain c' n where c: "name_tun c = (c', n)" by (cases "name_tun c")
    note dev = name_tun_device [OF c]
    have cl: "clients = [c']" using assms(8) Some c by simp
    have "device_result (machine_tun mc) c' = TunPanic"
      if "cc_Tun c' = Some t" "tu_Enable t" "cc_PoolSize c' < 0" for t
      by (rule negative_pool [OF that])
    then have neg: "(\<exists>t. cc_Tun c' = Some t \<and> tu_Enable t \<and> cc_PoolSize c' < 0) \<longrightarrow>
        device_result (machine_tun mc) c' = TunPanic" by blast
    show ?thesis
      using assms(6,9) Some c dev neg
      by (cases "device_result (machine_tun mc) c'")
        (simp_all add: cl main config_file_def Config_Run_end on_signal_save on_signal_delete eq_commute [of "''quick''"]
          split: option.split)
  qed
qed

definition demo_flags :: flags where
  "demo_flags = \<lparr>fl_configFile = ''./config.json'', fl_token = [], fl_isQuick = False, fl_proxy4 = True, fl_proxy6 = False,
     fl_port = 51280, fl_showVersion = False\<rparr>"

definition demo_raw :: "int \<Rightarrow> raw_config" where
  "demo_raw pool = \<lparr>rc_Server = Some (zero_server\<lparr>sv_EdgeIPs := [''198.41.200.13:7844''], sv_Token := ''quick''\<rparr>),
     rc_Client = Some (zero_client\<lparr>cc_PoolSize := pool,
       cc_Tunnels := [Some (zero_tunnel\<lparr>tn_Listen := ''127.0.0.1:2408'', tn_Timeout := 30\<rparr>)],
       cc_Tun := Some (zero_tun\<lparr>tu_Enable := True\<rparr>)\<rparr>)\<rparr>"

definition demo_machine :: "int \<Rightarrow> machine" where
  "demo_machine pool = \<lparr>mc_goVersion = ''go1.23.1'', mc_goArch = ''amd64'', mc_here = [],
     mc_files = [''./config.json'' \<mapsto> string_bytes (json_indent (raw_json (demo_raw pool)))],
     mc_net = demo_netstack, mc_output = (\<lambda>_. Inr []), mc_engine = demo_engine\<rparr>"

text \<open>With a pool of the default size, and with a negative one.\<close>

theorem config_started_witness:
  "(\<exists>c q tun. main default_build (demo_machine 0) demo_flags =
      MainWaits [StartClient c, StartServer (the (rc_Server (demo_raw 0)))] q tun \<and>
      SaveQuick \<in> set (on_signal q tun) \<and> DeleteTun ''cftun0'' \<in> set (on_signal q tun)) \<and>
   (\<exists>c. main default_build (demo_machine (- 1)) demo_flags = MainPanic [StartClient c])"
proof -
  define c s where "c pool = fst (name_tun (the (rc_Client (demo_raw pool))))" and
    "s pool = the (rc_Server (demo_raw pool))" for pool
  have fits: "raw_fits (demo_raw 0)" "raw_fits (demo_raw (- 1))"
    by (simp_all add: demo_raw_def fits_defs fits_def valid_utf8_def utf8_fix_literal zero_client_def zero_tunnel_def
        zero_server_def zero_tun_def)
  have written: "read_file (mc_files (demo_machine pool)) (fl_configFile demo_flags) =
      Inr (string_bytes (json_indent (raw_json (demo_raw pool))))" for pool
    by (simp add: read_file_def demo_machine_def demo_flags_def)
  have flags: "fl_configFile demo_flags \<noteq> []" "fl_token demo_flags = []" "\<not> fl_isQuick demo_flags"
    "\<not> fl_showVersion demo_flags"
    by (simp_all add: demo_flags_def)
  have lists: "[c pool] = (case rc_Client (demo_raw pool) of Some c \<Rightarrow> [fst (name_tun c)] | None \<Rightarrow> [])"
    "[s pool] = (case rc_Server (demo_raw pool) of Some s \<Rightarrow> [s] | None \<Rightarrow> [])" for pool
    by (simp_all add: demo_raw_def c_def s_def)
  have dev: "\<exists>t. cc_Tun (c pool) = Some t \<and> tu_Enable t \<and> tu_Name t = ''cftun0'' \<and> tu_Interface t = []"
    and cfg: "cc_PoolSize (c pool) = pool" "None \<notin> set (cc_Tunnels (c pool))" "sv_Token (s pool) = ''quick''" for pool
    by (simp_all add: c_def s_def demo_raw_def name_tun_def zero_tun_def Let_def)
  have "\<exists>cmds. device_result (machine_tun (demo_machine 0)) (c 0) = TunConfigured cmds"
    using dev [of 0] cfg(1) [of 0] demo_device_up [of _ "tun_params (c 0)"]
    by (auto simp: device_result_def machine_tun_def demo_machine_def tun_params_def getPoolSize_def)
  with config_started [OF fits(1) disjI2 [OF refl] written flags lists, of default_build] dev [of 0] cfg [of 0]
  have "\<exists>c q tun. main default_build (demo_machine 0) demo_flags =
      MainWaits [StartClient c, StartServer (s 0)] q tun \<and>
      SaveQuick \<in> set (on_signal q tun) \<and> DeleteTun ''cftun0'' \<in> set (on_signal q tun)"
    by auto
  moreover have "main default_build (demo_machine (- 1)) demo_flags = MainPanic [StartClient (c (- 1))]"
    using config_started [OF fits(2) disjI2 [OF refl] written flags lists, of default_build] dev [of "- 1"] cfg [of "- 1"]
    by auto
  ultimately show ?thesis unfolding s_def by blast
qed

end
