(* ===== verification/SockOpt.thy ===== *)
theory SockOpt
  imports NetipParse
begin

text \<open>
  \<open>src/client/tun/dialer\<close>: sockets of the transport are bound to an interface or marked before they are
  connected, so that their packets do not go back into the TUN device. One implementation per
  platform, all with the same frame: nothing is done for a network that is neither TCP nor UDP and
  for a destination that is no global unicast address. System calls are values, their results an
  argument.
\<close>

section \<open>Options and calls\<close>

record dial_opts =
  do_InterfaceName :: string
  do_InterfaceIndex :: int
  do_RoutingMark :: int

datatype sock_call =
    BindToDevice string
  | SetMark int
  | SetUserCookie int
  | SetRTable int
  | BoundIf4 int
  | BoundIf6 int
  | UnicastIf4 u32
  | UnicastIf6 u32

type_synonym call_results = "sock_call \<Rightarrow> go_error option"

text \<open>The interfaces of the host, by name and by index.\<close>

record interfaces =
  if_ByName :: "string \<Rightarrow> int option"
  if_ByIndex :: "int \<Rightarrow> string option"

definition isTCPSocket :: "string \<Rightarrow> bool" where
  "isTCPSocket network \<longleftrightarrow> network \<in> {''tcp'', ''tcp4'', ''tcp6''}"

definition isUDPSocket :: "string \<Rightarrow> bool" where
  "isUDPSocket network \<longleftrightarrow> network \<in> {''udp'', ''udp4'', ''udp6''}"

text \<open>Calls made one after the other up to the first error.\<close>

fun do_calls :: "call_results \<Rightarrow> sock_call list \<Rightarrow> go_error option \<times> sock_call list" where
  "do_calls res [] = (None, [])"
| "do_calls res (c # cs) =
     (case res c of
        Some e \<Rightarrow> (Some e, [c])
      | None \<Rightarrow> (case do_calls res cs of (r, made) \<Rightarrow> (r, c # made)))"

section \<open>The frame\<close>

text \<open>
  \<open>ctrl\<close> is the error of \<open>RawConn.Control\<close> itself, when it does not run the callback. The body is given
  the network, the destination's IP (if it is one) and the options.
\<close>

type_synonym sock_body = "call_results \<Rightarrow> string \<Rightarrow> bytes option \<Rightarrow> dial_opts \<Rightarrow> go_error option \<times> sock_call list"

definition dest_ip :: "string \<Rightarrow> bytes option" where
  "dest_ip address = ParseIP (case SplitHostPort address of Some (host, _) \<Rightarrow> host | None \<Rightarrow> [])"

definition sock_frame :: "sock_body \<Rightarrow> call_results \<Rightarrow> go_error option \<Rightarrow> string \<Rightarrow> string \<Rightarrow> dial_opts option
    \<Rightarrow> go_error option \<times> sock_call list" where
  "sock_frame body res ctrl network address opts =
     (case opts of
        None \<Rightarrow> (None, [])
      | Some o' \<Rightarrow>
          if \<not> isTCPSocket network \<and> \<not> isUDPSocket network then (None, [])
          else
            (case ctrl of
               Some e \<Rightarrow> (Some e, [])
             | None \<Rightarrow>
                 (case dest_ip address of
                    Some ip \<Rightarrow> if \<not> IsGlobalUnicast ip then (None, []) else body res network (Some ip) o'
                  | None \<Rightarrow> body res network None o')))"

section \<open>Platforms\<close>

definition linux_body :: "interfaces \<Rightarrow> sock_body" where
  "linux_body ifs res network ip opts =
     (let name = (if do_InterfaceName opts = [] \<and> do_InterfaceIndex opts \<noteq> 0
                  then (case if_ByIndex ifs (do_InterfaceIndex opts) of Some n \<Rightarrow> n | None \<Rightarrow> [])
                  else do_InterfaceName opts) in
      do_calls res ((if name \<noteq> [] then [BindToDevice name] else []) @
        (if do_RoutingMark opts \<noteq> 0 then [SetMark (do_RoutingMark opts)] else [])))"

definition if_index :: "interfaces \<Rightarrow> dial_opts \<Rightarrow> int" where
  "if_index ifs opts =
     (if do_InterfaceIndex opts = 0 \<and> do_InterfaceName opts \<noteq> []
      then (case if_ByName ifs (do_InterfaceName opts) of Some i \<Rightarrow> i | None \<Rightarrow> 0)
      else do_InterfaceIndex opts)"

definition darwin_body :: "interfaces \<Rightarrow> sock_body" where
  "darwin_body ifs res network ip opts =
     (let idx = if_index ifs opts in
      if idx = 0 then (None, [])
      else if network \<in> {''tcp4'', ''udp4''} then do_calls res [BoundIf4 idx]
      else if network \<in> {''tcp6'', ''udp6''} then do_calls res [BoundIf6 idx]
      else (None, []))"

definition freebsd_body :: sock_body where
  "freebsd_body res network ip opts =
     do_calls res (if do_RoutingMark opts \<noteq> 0 then [SetUserCookie (do_RoutingMark opts)] else [])"

definition openbsd_body :: sock_body where
  "openbsd_body res network ip opts =
     do_calls res (if do_RoutingMark opts \<noteq> 0 then [SetRTable (do_RoutingMark opts)] else [])"

text \<open>The index for IPv4 goes in network byte order; the machine is little-endian.\<close>

definition swap32 :: "u32 \<Rightarrow> u32" where
  "swap32 w = push_bit 24 (w AND 0xff) OR push_bit 8 (w AND 0xff00) OR
     drop_bit 8 (w AND 0xff0000) OR drop_bit 24 w"

definition bindSocketToInterface4 :: "(sock_call \<Rightarrow> go_error option) \<Rightarrow> u32 \<Rightarrow> go_error option \<times> sock_call list" where
  "bindSocketToInterface4 res index = (res (UnicastIf4 (swap32 index)), [UnicastIf4 (swap32 index)])"

definition bindSocketToInterface6 :: "(sock_call \<Rightarrow> go_error option) \<Rightarrow> u32 \<Rightarrow> go_error option \<times> sock_call list" where
  "bindSocketToInterface6 res index = (res (UnicastIf6 index), [UnicastIf6 index])"

text \<open>
  On Windows a UDP socket for IPv6 whose destination is no address is bound for IPv4 as well, and the
  result of that call replaces the first one's.
\<close>

definition windows_body :: "interfaces \<Rightarrow> sock_body" where
  "windows_body ifs res network ip opts =
     (let idx = if_index ifs opts; w = (of_int idx :: u32) in
      if idx = 0 then (None, [])
      else if network \<in> {''tcp4'', ''udp4''} then bindSocketToInterface4 res w
      else if network \<in> {''tcp6'', ''udp6''} then
        (case bindSocketToInterface6 res w of (e6, c6) \<Rightarrow>
           if network = ''udp6'' \<and> ip = None
           then (case bindSocketToInterface4 res w of (e4, c4) \<Rightarrow> (e4, c6 @ c4))
           else (e6, c6))
      else (None, []))"

definition setSocketOptions_linux where "setSocketOptions_linux ifs = sock_frame (linux_body ifs)"
definition setSocketOptions_darwin where "setSocketOptions_darwin ifs = sock_frame (darwin_body ifs)"
definition setSocketOptions_freebsd where "setSocketOptions_freebsd = sock_frame freebsd_body"
definition setSocketOptions_openbsd where "setSocketOptions_openbsd = sock_frame openbsd_body"
definition setSocketOptions_windows where "setSocketOptions_windows ifs = sock_frame (windows_body ifs)"

text \<open>\<open>DialWithOptions\<close>: the options of the moment, applied to the socket, then the dial.\<close>

definition default_opts :: "string \<Rightarrow> int \<Rightarrow> int \<Rightarrow> dial_opts" where
  "default_opts name idx mark = \<lparr>do_InterfaceName = name, do_InterfaceIndex = idx, do_RoutingMark = mark\<rparr>"

definition DialWithOptions :: "(string \<Rightarrow> string \<Rightarrow> dial_opts option \<Rightarrow> go_error option \<times> sock_call list)
    \<Rightarrow> (string \<Rightarrow> string \<Rightarrow> go_error + 'c) \<Rightarrow> string \<Rightarrow> string \<Rightarrow> dial_opts option \<Rightarrow> (go_error + 'c) \<times> sock_call list" where
  "DialWithOptions setopts net_connect network address opts =
     (case setopts network address opts of
        (Some e, calls) \<Rightarrow> (Inl e, calls)
      | (None, calls) \<Rightarrow> (net_connect network address, calls))"

text \<open>With a context: when it is already done there is no socket, and its end during the dial fails the dial.\<close>

definition DialContextWithOptions :: "(string \<Rightarrow> string \<Rightarrow> dial_opts option \<Rightarrow> go_error option \<times> sock_call list)
    \<Rightarrow> (string \<Rightarrow> string \<Rightarrow> go_error + 'c) \<Rightarrow> go_error option \<Rightarrow> string \<Rightarrow> string \<Rightarrow> dial_opts option
    \<Rightarrow> (go_error + 'c) \<times> sock_call list" where
  "DialContextWithOptions setopts net_connect ctx_err network address opts =
     (case ctx_err of
        Some e \<Rightarrow> (Inl e, [])
      | None \<Rightarrow>
          (case setopts network address opts of
             (Some e, calls) \<Rightarrow> (Inl e, calls)
           | (None, calls) \<Rightarrow> (net_connect network address, calls)))"

definition DialContext :: "(string \<Rightarrow> string \<Rightarrow> dial_opts option \<Rightarrow> go_error option \<times> sock_call list)
    \<Rightarrow> (string \<Rightarrow> string \<Rightarrow> go_error + 'c) \<Rightarrow> go_error option \<Rightarrow> dial_opts \<Rightarrow> string \<Rightarrow> string
    \<Rightarrow> (go_error + 'c) \<times> sock_call list" where
  "DialContext setopts net_connect ctx_err defaults network address =
     DialContextWithOptions setopts net_connect ctx_err network address
       (Some (default_opts (do_InterfaceName defaults) (do_InterfaceIndex defaults) (do_RoutingMark defaults)))"

text \<open>
  \<open>Dial\<close> and \<open>ListenPacket\<close> with the package's defaults; listening, like dialling, applies the options
  before the socket is bound.
\<close>

definition Dialer_Dial :: "(string \<Rightarrow> string \<Rightarrow> dial_opts option \<Rightarrow> go_error option \<times> sock_call list)
    \<Rightarrow> (string \<Rightarrow> string \<Rightarrow> go_error + 'c) \<Rightarrow> dial_opts \<Rightarrow> string \<Rightarrow> string \<Rightarrow> (go_error + 'c) \<times> sock_call list" where
  "Dialer_Dial setopts net_connect defaults network address =
     DialWithOptions setopts net_connect network address
       (Some (default_opts (do_InterfaceName defaults) (do_InterfaceIndex defaults) (do_RoutingMark defaults)))"

definition ListenPacketWithOptions :: "(string \<Rightarrow> string \<Rightarrow> dial_opts option \<Rightarrow> go_error option \<times> sock_call list)
    \<Rightarrow> (string \<Rightarrow> string \<Rightarrow> go_error + 'c) \<Rightarrow> string \<Rightarrow> string \<Rightarrow> dial_opts option \<Rightarrow> (go_error + 'c) \<times> sock_call list" where
  "ListenPacketWithOptions setopts net_listen network address opts =
     (case setopts network address opts of
        (Some e, calls) \<Rightarrow> (Inl e, calls)
      | (None, calls) \<Rightarrow> (net_listen network address, calls))"

definition ListenPacket :: "(string \<Rightarrow> string \<Rightarrow> dial_opts option \<Rightarrow> go_error option \<times> sock_call list)
    \<Rightarrow> (string \<Rightarrow> string \<Rightarrow> go_error + 'c) \<Rightarrow> dial_opts \<Rightarrow> string \<Rightarrow> string \<Rightarrow> (go_error + 'c) \<times> sock_call list" where
  "ListenPacket setopts net_listen defaults network address =
     ListenPacketWithOptions setopts net_listen network address
       (Some (default_opts (do_InterfaceName defaults) (do_InterfaceIndex defaults) (do_RoutingMark defaults)))"

lemma ListenPacket_Dial: "ListenPacket setopts f defaults = Dialer_Dial setopts f defaults"
  by (simp add: ListenPacket_def Dialer_Dial_def ListenPacketWithOptions_def DialWithOptions_def fun_eq_iff)

section \<open>The contract\<close>

text \<open>What every platform provides: no call outside TCP and UDP, none for a destination that is not global unicast.\<close>

locale socket_options =
  fixes setopts :: "call_results \<Rightarrow> go_error option \<Rightarrow> string \<Rightarrow> string \<Rightarrow> dial_opts option \<Rightarrow> go_error option \<times> sock_call list"
  assumes other_network: "\<not> isTCPSocket network \<Longrightarrow> \<not> isUDPSocket network \<Longrightarrow> setopts res ctrl network address opts = (None, [])"
    and local_dest: "dest_ip address = Some ip \<Longrightarrow> \<not> IsGlobalUnicast ip \<Longrightarrow> setopts res None network address opts = (None, [])"
begin

lemma local_dial:
  "\<lbrakk>dest_ip address = Some ip; \<not> IsGlobalUnicast ip\<rbrakk> \<Longrightarrow>
   DialWithOptions (setopts res None) net_connect network address opts = (net_connect network address, [])"
  by (simp add: DialWithOptions_def local_dest)

end

lemma sock_frame_options: "socket_options (sock_frame body)"
  by unfold_locales (auto simp: sock_frame_def split: option.splits)

interpretation linux_opts: socket_options "setSocketOptions_linux ifs" for ifs
  unfolding setSocketOptions_linux_def by (rule sock_frame_options)

interpretation darwin_opts: socket_options "setSocketOptions_darwin ifs" for ifs
  unfolding setSocketOptions_darwin_def by (rule sock_frame_options)

interpretation freebsd_opts: socket_options setSocketOptions_freebsd
  unfolding setSocketOptions_freebsd_def by (rule sock_frame_options)

interpretation openbsd_opts: socket_options setSocketOptions_openbsd
  unfolding setSocketOptions_openbsd_def by (rule sock_frame_options)

interpretation windows_opts: socket_options "setSocketOptions_windows ifs" for ifs
  unfolding setSocketOptions_windows_def by (rule sock_frame_options)

section \<open>Destinations\<close>

lemma addr_string_chars:
  assumes "addr_is_valid x" "addr_zone x = []" "c \<in> set (addr_string x)"
  shows "is_hex c \<or> c = CHR ''.'' \<or> c = CHR '':''"
proof (cases x)
  case (Addr4 p q s t)
  then show ?thesis using assms(3) string4_chars [of c p q s t] by auto
next
  case (Addr6 p q s t u v y z zo)
  then show ?thesis
    using assms(2,3) string6_chars [of "[p, q, s, t, u, v, y, z]" c]
      string4_chars [of c "high_byte y" "low_byte y" "high_byte z" "low_byte z"]
    by (auto simp: is_hex_def hex_val_def split: if_splits)
qed (use assms in simp)

fun without_zone :: "addr \<Rightarrow> addr" where
  "without_zone (Addr6 p q s t u v y z zo) = Addr6 p q s t u v y z []"
| "without_zone x = x"

lemma addr_string_zone: "set (addr_string x) \<subseteq> set (addr_string (without_zone x)) \<union> {CHR ''%''} \<union> set (addr_zone x)"
  by (cases x) auto

text \<open>Zones are names of interfaces; these have no brackets.\<close>

definition zone_ok :: "addr \<Rightarrow> bool" where
  "zone_ok x \<longleftrightarrow> CHR ''['' \<notin> set (addr_zone x) \<and> CHR '']'' \<notin> set (addr_zone x)"

lemma split_printed:
  assumes "addr_is_valid x" "zone_ok x"
  shows "SplitHostPort (addr_port_string x p) = Some (addr_string x, itoa (unat p))"
proof -
  have "addr_is_valid (without_zone x)" "addr_zone (without_zone x) = []" using assms(1) by (cases x; simp)+
  note chars = addr_string_chars [OF this]
  have "CHR ''['' \<notin> set (addr_string (without_zone x))" "CHR '']'' \<notin> set (addr_string (without_zone x))"
    using chars is_hex_separators by fastforce+
  then have no: "CHR ''['' \<notin> set (addr_string x)" "CHR '']'' \<notin> set (addr_string x)"
    using addr_string_zone [of x] assms(2) by (auto simp: zone_ok_def)
  have port: "c \<notin> set (itoa (unat p))" if "c \<in> {CHR '':'', CHR ''['', CHR '']''}" for c
    using that itoa_no_char [of c "unat p"] is_digit_not_dot by auto
  show ?thesis
  proof (cases "addr_is4 x")
    case True
    then obtain a b c d where x: "x = Addr4 a b c d" by (cases x) auto
    let ?hp = "addr_string x @ CHR '':'' # itoa (unat p)"
    have "CHR '':'' \<notin> set (addr_string x)"
      using x string4_chars [of "CHR '':''" a b c d] is_hex_separators by auto
    moreover have "before_last CHR '':'' ?hp = addr_string x" "after_last CHR '':'' ?hp = itoa (unat p)"
      by (rule last_parts; rule port; simp)+
    moreover have "hd ?hp \<noteq> CHR ''[''"
      using x string4_hd(2) [of a b c d] no(1) by (cases "string4 a b c d") auto
    ultimately have "SplitHostPort ?hp = Some (addr_string x, itoa (unat p))"
      using no port by (simp add: SplitHostPort_def Let_def)
    with True x show ?thesis by (simp add: addr_port_string_def)
  next
    case False
    then have v6: "addr_is6 x" using assms(1) by (cases x) auto
    let ?h = "''['' @ addr_string x @ '']''"
    let ?hp = "?h @ CHR '':'' # itoa (unat p)"
    have "before_last CHR '':'' ?hp = ?h" "after_last CHR '':'' ?hp = itoa (unat p)"
      by (rule last_parts; rule port; simp)+
    moreover have "takeWhile (\<lambda>c. c \<noteq> CHR '']'') ?hp @ '']'' = ?h"
      using no(2) by (simp add: takeWhile_append takeWhile_eq_all_conv)
    ultimately have "SplitHostPort ?hp = Some (addr_string x, itoa (unat p))"
      using no port by (simp add: SplitHostPort_def Let_def)
    with v6 show ?thesis by (cases x) (simp_all add: addr_port_string_def)
  qed
qed

lemma dest_ip_printed:
  "addr_is_valid x \<Longrightarrow> addr_zone x = [] \<Longrightarrow> dest_ip (addr_port_string x p) = Some (to16 x)"
  "addr_is_valid x \<Longrightarrow> zone_ok x \<Longrightarrow> addr_zone x \<noteq> [] \<Longrightarrow> dest_ip (addr_port_string x p) = None"
  by (simp_all add: dest_ip_def split_printed ParseIP_def parse_addr_string zone_ok_def)

lemma do_calls_ok: "\<forall>c \<in> set cs. res c = None \<Longrightarrow> do_calls res cs = (None, cs)"
  by (induction cs) auto

lemma do_calls_fail:
  "\<forall>c \<in> set before. res c = None \<Longrightarrow> res c = Some e \<Longrightarrow> do_calls res (before @ c # after) = (Some e, before @ [c])"
  by (induction before) auto

section \<open>Properties\<close>

text \<open>
  The calls that a configuration asks for on Linux: the binding to the named interface, else to
  the one of the index if there is such an interface, and then the mark.
\<close>

definition linux_calls :: "interfaces \<Rightarrow> string \<Rightarrow> int \<Rightarrow> int \<Rightarrow> sock_call list" where
  "linux_calls ifs name idx mark =
     (if name \<noteq> [] then [BindToDevice name]
      else if idx = 0 then []
      else (case if_ByIndex ifs idx of None \<Rightarrow> [] | Some n \<Rightarrow> if n = [] then [] else [BindToDevice n])) @
     (if mark = 0 then [] else [SetMark mark])"

lemma linux_body_calls:
  "linux_body ifs res network ip (default_opts name idx mark) = do_calls res (linux_calls ifs name idx mark)"
  by (auto simp: linux_body_def linux_calls_def default_opts_def Let_def split: option.split)

lemma linux_dial:
  assumes "isTCPSocket network \<or> isUDPSocket network"
    and "\<And>ip. dest_ip address = Some ip \<Longrightarrow> IsGlobalUnicast ip"
  shows "DialWithOptions (setSocketOptions_linux ifs res None) net_connect network address
      (Some (default_opts name idx mark)) =
    (case do_calls res (linux_calls ifs name idx mark) of
       (Some e, calls) \<Rightarrow> (Inl e, calls) | (None, calls) \<Rightarrow> (net_connect network address, calls))"
  using assms
  by (cases "dest_ip address")
    (auto simp: DialWithOptions_def setSocketOptions_linux_def sock_frame_def linux_body_calls)

text \<open>
  C37. Binding sockets, for a destination that is an address. One without a zone that is no global unicast
  address (a loopback, link-local or multicast address, say) is dialled with an untouched socket on every
  platform. For the others, and for every address with a zone, which is not recognised as an IP, Linux
  binds the socket to the configured interface, by its name or else by its index, and then sets the mark:
  the dial connects with exactly these calls made, or fails at the first of them that fails, and then
  neither makes a later one nor connects. An index of no interface is passed over without an error: the
  socket is then connected unbound.
\<close>

theorem socket_binding:
  assumes "addr_is_valid x" and "zone_ok x"
  shows "(addr_zone x = [] \<and> \<not> IsGlobalUnicast (to16 x) \<longrightarrow>
      (\<forall>f \<in> {setSocketOptions_linux ifs, setSocketOptions_darwin ifs, setSocketOptions_freebsd,
           setSocketOptions_openbsd, setSocketOptions_windows ifs}.
         DialWithOptions (f res None) net_connect network (addr_port_string x p) opts =
         (net_connect network (addr_port_string x p), []))) \<and>
    ((addr_zone x = [] \<longrightarrow> IsGlobalUnicast (to16 x)) \<and> network \<in> {''tcp4'', ''tcp6'', ''udp4'', ''udp6''} \<longrightarrow>
      (let dial = DialWithOptions (setSocketOptions_linux ifs res None) net_connect network (addr_port_string x p)
             (Some (default_opts name idx mark)) in
       ((\<forall>c \<in> set (linux_calls ifs name idx mark). res c = None) \<longrightarrow>
          dial = (net_connect network (addr_port_string x p), linux_calls ifs name idx mark)) \<and>
       (\<forall>before c after e. linux_calls ifs name idx mark = before @ c # after \<and>
          (\<forall>b \<in> set before. res b = None) \<and> res c = Some e \<longrightarrow> dial = (Inl e, before @ [c])) \<and>
       (name = [] \<and> if_ByIndex ifs idx = None \<and> mark = 0 \<longrightarrow>
          dial = (net_connect network (addr_port_string x p), []))))"
proof (intro conjI impI)
  show "\<forall>f \<in> {setSocketOptions_linux ifs, setSocketOptions_darwin ifs, setSocketOptions_freebsd,
           setSocketOptions_openbsd, setSocketOptions_windows ifs}.
         DialWithOptions (f res None) net_connect network (addr_port_string x p) opts =
         (net_connect network (addr_port_string x p), [])" if "addr_zone x = [] \<and> \<not> IsGlobalUnicast (to16 x)"
    using that dest_ip_printed(1) [OF assms(1), of p]
    by (simp add: linux_opts.local_dial darwin_opts.local_dial freebsd_opts.local_dial
        openbsd_opts.local_dial windows_opts.local_dial)
next
  assume g: "(addr_zone x = [] \<longrightarrow> IsGlobalUnicast (to16 x)) \<and> network \<in> {''tcp4'', ''tcp6'', ''udp4'', ''udp6''}"
  then have "isTCPSocket network \<or> isUDPSocket network" by (auto simp: isTCPSocket_def isUDPSocket_def)
  moreover have "IsGlobalUnicast ip" if "dest_ip (addr_port_string x p) = Some ip" for ip
    using that g dest_ip_printed [OF assms(1), of p] assms(2) by (cases "addr_zone x = []") auto
  ultimately have d: "DialWithOptions (setSocketOptions_linux ifs res None) net_connect network (addr_port_string x p)
      (Some (default_opts name idx mark)) =
    (case do_calls res (linux_calls ifs name idx mark) of
       (Some e, calls) \<Rightarrow> (Inl e, calls) | (None, calls) \<Rightarrow> (net_connect network (addr_port_string x p), calls))"
    by (rule linux_dial)
  show "let dial = DialWithOptions (setSocketOptions_linux ifs res None) net_connect network (addr_port_string x p)
             (Some (default_opts name idx mark)) in
       ((\<forall>c \<in> set (linux_calls ifs name idx mark). res c = None) \<longrightarrow>
          dial = (net_connect network (addr_port_string x p), linux_calls ifs name idx mark)) \<and>
       (\<forall>before c after e. linux_calls ifs name idx mark = before @ c # after \<and>
          (\<forall>b \<in> set before. res b = None) \<and> res c = Some e \<longrightarrow> dial = (Inl e, before @ [c])) \<and>
       (name = [] \<and> if_ByIndex ifs idx = None \<and> mark = 0 \<longrightarrow>
          dial = (net_connect network (addr_port_string x p), []))"
    unfolding Let_def d by (auto simp: do_calls_ok do_calls_fail) (simp add: linux_calls_def)
qed

definition demo_ifs :: interfaces where
  "demo_ifs = \<lparr>if_ByName = (\<lambda>_. None), if_ByIndex = [2 \<mapsto> ''eth0'']\<rparr>"

text \<open>A loopback destination; a public one by the index and the mark, and with a mark that is refused.\<close>

theorem socket_binding_witness:
  "DialWithOptions (setSocketOptions_linux demo_ifs (\<lambda>_. None) None)
     (\<lambda>_ a. Inr a) ''tcp4'' (addr_port_string (Addr4 127 0 0 1) 80) (Some (default_opts ''eth0'' 2 0)) =
     (Inr (addr_port_string (Addr4 127 0 0 1) 80), []) \<and>
   DialWithOptions (setSocketOptions_linux demo_ifs (\<lambda>_. None) None)
     (\<lambda>_ a. Inr a) ''tcp4'' (addr_port_string (Addr4 8 8 8 8) 80) (Some (default_opts [] 2 5)) =
     (Inr (addr_port_string (Addr4 8 8 8 8) 80), [BindToDevice ''eth0'', SetMark 5]) \<and>
   DialWithOptions (setSocketOptions_linux demo_ifs (\<lambda>c. if c = SetMark 5 then Some ErrEOF else None) None)
     (\<lambda>_ a. Inr a) ''tcp4'' (addr_port_string (Addr4 8 8 8 8) 80) (Some (default_opts [] 2 5)) =
     (Inl ErrEOF, [BindToDevice ''eth0'', SetMark 5])"
proof -
  have "\<not> IsGlobalUnicast (to16 (Addr4 127 0 0 1))" and g: "IsGlobalUnicast (to16 (Addr4 8 8 8 8))" by code_simp+
  moreover have calls: "linux_calls demo_ifs [] 2 5 = [BindToDevice ''eth0''] @ SetMark 5 # []"
    by (simp add: linux_calls_def demo_ifs_def)
  note public = socket_binding [of "Addr4 8 8 8 8", where ifs = demo_ifs and network = "''tcp4''" and
      net_connect = "\<lambda>_ a. Inr a" and p = 80 and name = "[]" and idx = 2 and mark = 5,
      THEN conjunct2, THEN mp, unfolded Let_def calls]
  have "DialWithOptions (setSocketOptions_linux demo_ifs (\<lambda>_. None) None)
     (\<lambda>_ a. Inr a) ''tcp4'' (addr_port_string (Addr4 8 8 8 8) 80) (Some (default_opts [] 2 5)) =
     (Inr (addr_port_string (Addr4 8 8 8 8) 80), [BindToDevice ''eth0''] @ SetMark 5 # [])"
    by (rule public [THEN conjunct1, THEN mp]) (simp_all add: zone_ok_def g)
  moreover have "DialWithOptions (setSocketOptions_linux demo_ifs (\<lambda>c. if c = SetMark 5 then Some ErrEOF else None) None)
     (\<lambda>_ a. Inr a) ''tcp4'' (addr_port_string (Addr4 8 8 8 8) 80) (Some (default_opts [] 2 5)) =
     (Inl ErrEOF, [BindToDevice ''eth0''] @ [SetMark 5])"
    by (rule public [THEN conjunct2, THEN conjunct1, rule_format]) (auto simp: zone_ok_def g)
  ultimately show ?thesis
    using socket_binding [of "Addr4 127 0 0 1", where ifs = demo_ifs and res = "\<lambda>_. None" and network = "''tcp4''" and
      net_connect = "\<lambda>_ a. Inr a" and p = 80 and opts = "Some (default_opts ''eth0'' 2 0)", THEN conjunct1]
    by (simp add: zone_ok_def)
qed

text \<open>On Windows the error of the first of two calls is lost.\<close>

lemma windows_error_lost:
  assumes "if_index ifs opts \<noteq> 0" "res (UnicastIf6 (of_int (if_index ifs opts))) = Some e"
    and "res (UnicastIf4 (swap32 (of_int (if_index ifs opts)))) = None"
  shows "fst (windows_body ifs res ''udp6'' None opts) = None"
  using assms by (simp add: windows_body_def bindSocketToInterface4_def bindSocketToInterface6_def Let_def)

end
