(* ===== verification/ArgoConn.thy ===== *)
theory ArgoConn
  imports WsConn
begin

text \<open>
  The type \<open>Conn\<close> of \<open>src/client/tun/transport/argo/connection.go\<close>, the transport's copy of the server's
  websocket connection (\<open>src/server/cfd/websocket.go\<close>), with a logger in place of \<open>println\<close>. It is
  modelled from its own source; a simulation shows that it behaves as the server's, whose interface and
  guarantees it inherits.
\<close>

section \<open>Model\<close>

text \<open>\<open>aw_rw\<close> stands for the websocket library on the connection, with the results its calls will have.\<close>

record argo_ws =
  aw_rw :: ws_conn
  aw_log :: "(string \<times> go_error) list"
  aw_done :: bool

definition aw_write :: "frame \<Rightarrow> argo_ws \<Rightarrow> go_error option \<times> argo_ws" where
  "aw_write f c = (case write_frame f (aw_rw c) of (e, rw) \<Rightarrow> (e, c\<lparr>aw_rw := rw\<rparr>))"

definition argo_Conn_Read :: "argo_ws reader" where
  "argo_Conn_Read n c =
     (case wc_in (aw_rw c) of
        [] \<Rightarrow> (ReadBlock, c)
      | Inl e # es \<Rightarrow> (ReadRet [] (Some e), c\<lparr>aw_rw := (answer_control (aw_rw c))\<lparr>wc_in := es\<rparr>\<rparr>)
      | Inr data # es \<Rightarrow> (ReadRet (take n data) None, c\<lparr>aw_rw := (answer_control (aw_rw c))\<lparr>wc_in := es\<rparr>\<rparr>))"

definition argo_Conn_Write :: "argo_ws writer" where
  "argo_Conn_Write p c =
     (if aw_done c then ((0, Some (ErrText ''write to closed websocket connection'')), c)
      else case aw_write (FrameBinary p) c of
             (Some e, c') \<Rightarrow> ((0, Some e), c')
           | (None, c') \<Rightarrow> ((length p, None), c'))"

definition argo_Conn_ping :: "argo_ws \<Rightarrow> (bool \<times> go_error option) \<times> argo_ws" where
  "argo_Conn_ping c =
     (if aw_done c then ((True, None), c)
      else case aw_write FramePing c of (e, c') \<Rightarrow> ((False, e), c'))"

definition argo_control :: "argo_ws \<Rightarrow> go_error option \<times> argo_ws" where
  "argo_control c = (case handle_control (aw_rw c) of (e, rw) \<Rightarrow> (e, c\<lparr>aw_rw := rw\<rparr>))"

definition log_failure :: "string \<Rightarrow> go_error option \<Rightarrow> argo_ws \<Rightarrow> argo_ws" where
  "log_failure what e c = (case e of None \<Rightarrow> c | Some x \<Rightarrow> c\<lparr>aw_log := aw_log c @ [(what, x)]\<rparr>)"

fun argo_Conn_pinger :: "pinger_event list \<Rightarrow> argo_ws \<Rightarrow> bool \<times> argo_ws" where
  "argo_Conn_pinger [] c = (False, c)"
| "argo_Conn_pinger (CtxDone # es) c = (True, c)"
| "argo_Conn_pinger (Tick # es) c =
     (case argo_Conn_ping c of
        ((True, _), c') \<Rightarrow> (True, c')
      | ((False, e), c') \<Rightarrow>
          (case argo_control (log_failure ''failed to write ping message'' e c') of
             (e2, c'') \<Rightarrow> argo_Conn_pinger es (log_failure ''failed to write pong message'' e2 c'')))"

definition argo_defaultPongWait :: int where "argo_defaultPongWait = 60 * 1000000000"
definition argo_defaultPingPeriod :: int where "argo_defaultPingPeriod = (argo_defaultPongWait * 9) div 10"

definition argo_Conn_pingPeriod :: "ctx_value option \<Rightarrow> int" where
  "argo_Conn_pingPeriod v =
     (case v of
        None \<Rightarrow> argo_defaultPingPeriod
      | Some (CtxDuration period) \<Rightarrow> period
      | Some CtxOther \<Rightarrow> argo_defaultPingPeriod)"

definition argo_Conn_Close :: "argo_ws \<Rightarrow> argo_ws" where
  "argo_Conn_Close c = c\<lparr>aw_done := True\<rparr>"

section \<open>The simulation\<close>

definition as_server_conn :: "argo_ws \<Rightarrow> ws_conn" where
  "as_server_conn c = (aw_rw c)\<lparr>wc_done := aw_done c\<rparr>"

lemma write_frame_done:
  "write_frame f (w\<lparr>wc_done := d\<rparr>) = (fst (write_frame f w), (snd (write_frame f w))\<lparr>wc_done := d\<rparr>)"
  by (auto simp: write_frame_def split: list.splits option.splits)

lemma argo_Read_sim:
  "argo_Conn_Read n c = (r, c') \<Longrightarrow> Conn_Read n (as_server_conn c) = (r, as_server_conn c')"
  by (auto simp: argo_Conn_Read_def Conn_Read_def as_server_conn_def split: list.splits sum.splits)

lemma argo_Write_sim:
  "argo_Conn_Write p c = (r, c') \<Longrightarrow> Conn_Write p (as_server_conn c) = (r, as_server_conn c')"
  by (auto simp: argo_Conn_Write_def aw_write_def Conn_Write_def as_server_conn_def write_frame_done
      split: if_splits prod.splits option.splits)

lemma argo_ping_sim:
  "argo_Conn_ping c = (r, c') \<Longrightarrow> Conn_ping (as_server_conn c) = (r, as_server_conn c')"
  by (auto simp: argo_Conn_ping_def aw_write_def Conn_ping_def as_server_conn_def write_frame_done
      split: if_splits prod.splits)

lemma argo_control_sim:
  "argo_control c = (e, c') \<Longrightarrow> handle_control (as_server_conn c) = (e, as_server_conn c')"
  by (auto simp: argo_control_def handle_control_def as_server_conn_def split: list.splits)

lemma log_failure_sim [simp]: "as_server_conn (log_failure what e c) = as_server_conn c"
  by (simp add: log_failure_def as_server_conn_def split: option.split)

lemma argo_pinger_sim:
  "argo_Conn_pinger es c = (ended, c') \<Longrightarrow>
    \<exists>out. Conn_pinger es (as_server_conn c) = (ended, as_server_conn c', out)"
proof (induction es c arbitrary: c' rule: argo_Conn_pinger.induct)
  case (3 es c)
  obtain closed e c1 where p: "argo_Conn_ping c = ((closed, e), c1)" by (metis prod.exhaust)
  obtain e2 c2 where k: "argo_control (log_failure ''failed to write ping message'' e c1) = (e2, c2)"
    by (metis prod.exhaust)
  show ?case
  proof (cases closed)
    case True
    with 3(2) p argo_ping_sim [OF p] show ?thesis by simp
  next
    case False
    with 3(2) p k have "argo_Conn_pinger es (log_failure ''failed to write pong message'' e2 c2) = (ended, c')"
      by simp
    from 3(1) [OF p [symmetric] refl _ k [symmetric] this] False obtain out where
      "Conn_pinger es (as_server_conn c2) = (ended, as_server_conn c', out)" by auto
    with False argo_ping_sim [OF p] argo_control_sim [OF k] show ?thesis by simp
  qed
qed simp_all

lemma argo_pingPeriod_same: "argo_Conn_pingPeriod v = Conn_pingPeriod v"
  by (simp add: argo_Conn_pingPeriod_def Conn_pingPeriod_def argo_defaultPingPeriod_def argo_defaultPongWait_def
      defaultPingPeriod_def defaultPongWait_def split: option.split ctx_value.split)

lemma argo_Close_sim: "as_server_conn (argo_Conn_Close c) = Conn_Close (as_server_conn c)"
  by (simp add: as_server_conn_def argo_Conn_Close_def Conn_Close_def)

text \<open>So the laws of the server's connection hold for this one.\<close>

interpretation argo_conn_reader:
  reader_view Conn_Read ws_pending ws_work ws_fits argo_Conn_Read as_server_conn
  by unfold_locales (rule argo_Read_sim)

interpretation argo_conn_writer:
  writer_view Conn_Write ws_sent "\<lambda>_. True" "\<lambda>c. \<not> wc_done c \<and> wc_wr c = []" argo_Conn_Write as_server_conn
  by unfold_locales (rule argo_Write_sim)

end
