(* ===== verification/Spec2Isabelle.thy ===== *)
theory Spec2Isabelle
  imports NetSession ClientUdp Program Engine SockOpt ArgoConn
begin

text \<open>
  A verification development of cftun, a tunnel over Cloudflare's Argo network.

  \<^bold>\<open>The program.\<close> A server (\<open>src/server\<close>) keeps several QUIC connections to Cloudflare's edge. A client
  (\<open>src/client\<close>) opens websockets through the edge; each arrives at the server as one QUIC stream, and the
  server dials the destination the client named and copies bytes both ways. The client either forwards
  single TCP and UDP ports, or takes all traffic of a TUN device through a user-space network stack; in
  the second case the websockets come from a pool, and a pooled one names its destination in front of the
  first payload.

  \<^bold>\<open>The theories\<close>, in the order of the data's way, with the sources they model.

  \<^item> \<open>Prelude\<close>: errors, the string routines, Go's buffered channels, big-endian integers, and the locales
    \<open>codec\<close> (a printer and a parser with a round trip) and \<open>invariant_system\<close> (a transition system with an
    invariant). \<open>Netip\<close> and \<open>NetipParse\<close>: \<open>net/netip\<close> and \<open>net\<close>, as far as they are used: printing and
    parsing of addresses and of addresses with ports. \<open>Pem\<close>: \<open>encoding/pem\<close>. \<open>Base64\<close> and \<open>Sha1\<close>: the
    encodings behind tokens and accept keys. \<open>JsonString\<close>, \<open>Json\<close> and \<open>JsonDecode\<close>: \<open>encoding/json\<close>, the
    quoting of strings with the repair of invalid UTF-8, the text of values with its parser, and the
    decoding into Go values kind by kind; each printer with its round trip. \<open>GoTime\<close>: the text of a
    \<open>time.Time\<close>, with the calendar behind it. \<open>Url\<close>: \<open>net/url\<close>'s \<open>Parse\<close>.
  \<^item> \<open>NetConn\<close>: \<open>net.Conn\<close> as the locales \<open>conn_reader\<close>, \<open>conn_writer\<close> and, for a copy loop between two of
    them, \<open>conn_pair\<close>; \<open>io.CopyBuffer\<close> and the hand-written relay loop over them. \<open>Duplex\<close>: two connections
    joined by two loops in their own goroutines, as a step relation with the locales \<open>direction\<close> and
    \<open>duplex_laws\<close>.
  \<^item> \<open>Packet\<close> (\<open>server/cfd/packet.go\<close>): \<open>Decode\<close> is exactly the inverse of the wire format. \<open>WsConn\<close>
    (\<open>server/cfd/websocket.go\<close>, \<open>GorillaConn\<close> of \<open>client/tun/transport/argo/connection.go\<close>): websockets as
    byte streams. \<open>ArgoConn\<close>: the type \<open>Conn\<close> of that second file, which simulates the server's.
    \<open>QuicStream\<close> (\<open>server/cfd/stream.go\<close>, \<open>protocol.go\<close>): the stream that carries a websocket and its
    handshake.
  \<^item> \<open>Connection\<close> (\<open>server/cfd/connection.go\<close>): the stream handler, the two relay loops under interleaving,
    dialling with retries. \<open>Register\<close> (\<open>register.go\<close>), \<open>Token\<close> (\<open>token.go\<close>, \<open>server/key.go\<close>), \<open>EdgeTunnel\<close>
    (\<open>tunnel.go\<close>, \<open>quic.go\<close>, \<open>tls.go\<close>) with \<open>RootCA\<close> (the certificates of \<open>tls.go\<close>): how a connection to the
    edge comes about. \<open>QuickTunnel\<close> (\<open>server/quick.go\<close>), \<open>Warp\<close> (\<open>server/warp.go\<close>), \<open>ServerConfig\<close>
    (\<open>server/config.go\<close>), \<open>ConfigFile\<close> (the fields of the configuration file, of all the structs it fills)
    and \<open>Program\<close> (\<open>main.go\<close>): what is started and with which settings.
  \<^item> \<open>Metadata\<close> (\<open>client/tun/metadata\<close>), \<open>ArgoPool\<close> (\<open>client/tun/transport/argo/dialer.go\<close>: the pool as
    functions and as a step relation of its goroutines), \<open>ArgoProxy\<close> (\<open>client/tun/proxy/argo.go\<close>: the
    in-band header), \<open>Allocator\<close> (\<open>client/tun/buffer\<close>, \<open>client/tun/internal/pool\<close>), \<open>TunQueue\<close>
    (\<open>client/tun/tunnel/tunnel.go\<close>: the queue of sessions and the goroutine that serves it), \<open>TunTunnel\<close>
    (the rest of \<open>client/tun/tunnel\<close>): a session of the device.
  \<^item> \<open>CoreStack\<close> (\<open>client/tun/core\<close> and its \<open>option\<close>), \<open>Device\<close> (\<open>client/tun/core/device\<close>), \<open>Routes\<close>
    (\<open>client/tun/route\<close>, with the locale \<open>route_setup\<close>), \<open>SockOpt\<close> (\<open>client/tun/dialer\<close>, with the locale
    \<open>socket_options\<close>), \<open>Logging\<close> (\<open>log\<close>, \<open>client/tun/log\<close>), \<open>Engine\<close> (\<open>client/tun/engine\<close>, \<open>Tun.Run\<close>):
    bringing the device up.
  \<^item> \<open>ClientConfig\<close> (\<open>client/config.go\<close>, \<open>tun.go\<close>, \<open>websocket.go\<close>), \<open>ClientTcp\<close> (\<open>client/tcp.go\<close>),
    \<open>ClientUdp\<close> (\<open>client/udp.go\<close>): the client's settings and its forwarded ports. \<open>EndToEnd\<close>: both ends
    composed, as functions. \<open>NetSession\<close>: both ends of a device session, the network and the outer peers as
    one step relation.

  \<^bold>\<open>How the code is read.\<close> A struct is a record of the same fields; what is shared between goroutines is
  one state record, and each access under a lock, each channel operation and each call that may block is
  one step of an \<open>inductive\<close> relation, so that every interleaving is a run of it. The rounds of the copy
  and relay loops are the exception: the read together with the write of what it returned is one step, so
  the time in which a loop holds the data in its own buffer is not a state; and the calls that wind up a
  connector of \<open>ClientUdp\<close> (mark, close, forget) are one step. Sequential code is a function on that
  state; errors are values of \<open>go_error\<close>, in a sum or beside the state as the source returns them; panics
  are results of their own. Integers that can wrap are words, and otherwise \<open>int\<close>; strings are bytes. What
  the operating system or a library answers is an argument: a script of the reads and writes of a
  connection, a function for a call. Where a property needs a law of such a call it is a hypothesis of
  that property and its witness gives an instance. This holds for quic-go, gobwas, gorilla, capnp, gVisor,
  wireguard-go, zap, gjson, uuid, the schema decoder, x509 and the resolver. Fields that only record
  history (what a socket was sent, what a subscriber got) are marked where they are declared.

  \<^bold>\<open>What is shown.\<close> Bytes: a session delivers in each direction a prefix of what was sent, under every
  interleaving and for every outcome of the sockets, and everything when nothing fails; an upload through
  a pooled connection reaches the destination the device session named (\<open>EndToEnd\<close>), and in the
  composition of client, network and server every byte is in exactly one place (\<open>NetSession\<close>).
  Destination: the in-band header and the request headers agree. Ownership: connections of the pool and
  buffers of the allocator have one owner. Isolation: UDP sources do not see each other's data. Protocol:
  the wire format, tokens, addresses, saved tunnels and the configuration file are read back as they were
  written; the handshake answers the client's key, and the registration's message is given in full. Start
  and end: the order of set-up, the addresses dialled, the routes and the socket options asked for, the
  log's delivery. Some properties state a defect of the code, such as the transport's \<open>Close\<close> that never
  returns, the messages above 32 KiB that the server truncates, the panic of a forwarded UDP port whose
  first datagram is held up, the frames a reader sends after \<open>Close\<close>, or the pooled session in which the
  server's side speaks first and is never dialled.

  \<^bold>\<open>Fuel.\<close> Two loops have a fuel argument, \<open>relay\<close> and \<open>copy_buffer\<close> of \<open>NetConn\<close>, where any fuel above
  the remaining work of the reader (the length of its script) suffices (\<open>relay_total\<close> and its counterpart
  in \<open>conn_pair\<close>), and so has the JSON parser, which gets more than twice the length of the text
  (\<open>json_fuel_enough\<close>: more fuel never changes the result). The theorems that use them prove that there is
  a result. Every other function is total (the loop over the built-in certificates because \<open>pem.Decode\<close>
  returns a shorter rest); the goroutines' loops are step relations.

  \<^bold>\<open>Not modelled.\<close> Interface declarations, type aliases and constants without use; the encoded capnp
  schema at the end of \<open>stream.go\<close>, which is data; pflag, which parses the command line; the formatting of
  log lines. Time is an argument where the code compares it, and otherwise only an event that may happen.
  A socket of package \<open>net\<close> reports its end in a read without data (\<open>os_read\<close>); a QUIC stream may report
  it with the last data (\<open>quic_read\<close>). Of the control frames that cross a websocket only their effect on
  its connection is kept: the library's replies are recorded (\<open>wc_replies\<close>), not their place between the
  other frames.
\<close>

end
